(* ===== verification/Stress_Prelude.thy ===== *)
theory Stress_Prelude
  imports Main "HOL-Library.Word"
begin

text \<open>
  Shared vocabulary of the development: the machine integer types of the C code,
  the collections of simplification rules the component theories feed, and the
  generic lemmas on words and lists that several components need.
\<close>

unbundle bit_operations_syntax

type_synonym u8 = "8 word"
type_synonym u16 = "16 word"
type_synonym u32 = "32 word"
type_synonym u64 = "64 word"

named_theorems mwc_simps \<open>unfolding rules of the random number generator\<close>
named_theorems mem_simps \<open>rules of the byte memory used by the vm methods\<close>

section \<open>Words\<close>

lemma and_mask_unat:
  fixes x :: "'a::len word"
  shows "unat (x AND mask n) = unat x mod 2 ^ n"
  by (metis take_bit_eq_mask unsigned_take_bit_eq take_bit_eq_mod)

lemma drop_bit_unat:
  fixes x :: "'a::len word"
  shows "unat (drop_bit n x) = unat x div 2 ^ n"
  by (metis unat_drop_bit_eq drop_bit_eq_div)

lemma unat_of_nat_small:
  "n < 2 ^ LENGTH('a::len) \<Longrightarrow> unat (word_of_nat n :: 'a word) = n"
  by (simp add: unat_of_nat take_bit_nat_eq_self)

lemma eq_of_nat_iff_unat:
  fixes v :: "'a::len word"
  assumes "n < 2 ^ LENGTH('a)"
  shows "v = word_of_nat n \<longleftrightarrow> unat v = n"
  using unat_of_nat_small [OF assms] by auto

lemma mask8: "(0xff :: 'a::len word) = mask 8"
  by (simp add: mask_eq_exp_minus_1)

lemma mask16: "(0xffff :: 'a::len word) = mask 16"
  by (simp add: mask_eq_exp_minus_1)

lemma word_pred_le: "x \<noteq> 0 \<Longrightarrow> x \<le> k \<Longrightarrow> x - 1 \<le> (k::'a::len word)"
  by (simp add: word_le_nat_alt unat_minus_one)

lemma ucast_low8: "ucast (x AND 0xff) = (ucast x :: u8)" for x :: u32
  by (rule bit_word_eqI) (simp add: bit_simps mask8)

lemma ucast_low16: "ucast (x AND 0xffff) = (ucast x :: u16)" for x :: u32
  by (rule bit_word_eqI) (simp add: bit_simps mask16)

lemma ucast_and_mask_drop:
  fixes x :: "'a::len word"
  shows "bit (ucast (drop_bit k x AND mask LENGTH('b)) :: 'b::len word) i
    = (i < LENGTH('b) \<and> bit x (k + i))"
  by (auto simp: bit_simps dest: bit_imp_le_length)

text \<open>Cancellation: exclusive or, units, and a word mixed with its own shift.\<close>

lemma xor_cancel_right: "(a :: 'a :: len word) XOR c = b XOR c \<longleftrightarrow> a = b"
  by (metis bit.xor_self xor.assoc xor.right_neutral)

lemma xor_cancel_left: "(c :: 'a :: len word) XOR a = c XOR b \<longleftrightarrow> a = b"
  by (metis bit.xor_self xor.assoc xor.left_neutral)

lemma unit_cancel:
  fixes a b c d :: "'a :: len word"
  assumes "d * c = 1"
  shows "a * c = b * c \<longleftrightarrow> a = b"
  by (metis assms mult.assoc mult.commute mult_1)

lemma xor_drop_inj:
  fixes a b :: "'a :: len word"
  assumes "0 < k" and "a XOR drop_bit k a = b XOR drop_bit k b"
  shows "a = b"
proof -
  have step: "bit a n = bit b n" if "bit a (k + n) = bit b (k + n)" for n
  proof -
    have "bit (a XOR drop_bit k a) n = bit (b XOR drop_bit k b) n" using assms(2) by simp
    then show ?thesis using that by (auto simp: bit_xor_iff bit_drop_bit_eq)
  qed
  have "bit a n = bit b n" if "LENGTH('a) \<le> n + j" for n j
    using that
  proof (induction j arbitrary: n)
    case 0
    then show ?case by (auto dest: bit_imp_le_length)
  next
    case (Suc j)
    show ?case by (rule step) (rule Suc.IH, use Suc.prems assms(1) in simp)
  qed
  then show ?thesis by (intro bit_word_eqI) (metis le_add2)
qed

text \<open>Counting a word down to zero.\<close>

lemma word_pred_induct:
  fixes n :: "'a::len word"
  assumes "P 0" and "\<And>n. n \<noteq> 0 \<Longrightarrow> P (n - 1) \<Longrightarrow> P n"
  shows "P n"
proof (induction "unat n" arbitrary: n rule: less_induct)
  case less
  show ?case
  proof (cases "n = 0")
    case False
    have "unat (n - 1) < unat n" using False by (simp add: unat_minus_one unat_gt_0 word_neq_0_conv)
    then show ?thesis using less assms(2) [OF False] by blast
  qed (use assms(1) in simp)
qed

section \<open>Sets of bits\<close>

text \<open>Clearing the lowest set bit.\<close>

lemma clear_lowest:
  "0 < n \<Longrightarrow> \<exists>k. bit (n :: nat) k \<and> (\<forall>j. bit (n AND (n - 1)) j \<longleftrightarrow> bit n j \<and> j \<noteq> k)"
proof (induction n rule: less_induct)
  case (less n)
  show ?case
  proof (cases "odd n")
    case True
    have "bit (n AND (n - 1)) j \<longleftrightarrow> bit n j \<and> j \<noteq> 0" for j
    proof (cases j)
      case 0
      then show ?thesis using True by (simp add: even_and_iff bit_0)
    next
      case (Suc i)
      have "(n - 1) div 2 = n div 2" using True by (auto elim: oddE)
      then have "bit (n AND (n - 1)) (Suc i) = bit (n div 2) i" by (metis bit_and_iff bit_Suc)
      then show ?thesis using Suc by (simp add: bit_Suc)
    qed
    then show ?thesis using True by (intro exI [of _ 0]) (auto simp: bit_0)
  next
    case False
    then obtain m where m: "n = 2 * m" by (auto elim: evenE)
    then have "0 < m" using less.prems by simp
    then obtain k where k: "bit m k" "\<And>j. bit (m AND (m - 1)) j \<longleftrightarrow> bit m j \<and> j \<noteq> k"
      using less.IH [of m] m by auto
    have "(n - 1) div 2 = m - 1" using m \<open>0 < m\<close> by auto
    have "bit (n AND (n - 1)) j \<longleftrightarrow> bit n j \<and> j \<noteq> Suc k" for j
    proof (cases j)
      case 0
      then show ?thesis using m by (simp add: even_and_iff bit_0)
    next
      case (Suc i)
      have "n div 2 = m" using m by simp
      then have "bit (n AND (n - 1)) (Suc i) \<longleftrightarrow> bit m i \<and> bit (m - 1) i"
        using \<open>(n - 1) div 2 = m - 1\<close> by (metis bit_and_iff bit_Suc)
      then show ?thesis using Suc k(2) [of i] \<open>n div 2 = m\<close> by (simp add: bit_Suc bit_and_iff)
    qed
    then show ?thesis using k(1) m by (intro exI [of _ "Suc k"]) (auto simp: bit_Suc)
  qed
qed

lemma finite_bits: "finite {k. bit (v :: 'a::len word) k}"
  by (rule finite_subset [of _ "{..<LENGTH('a)}"]) (auto dest: bit_imp_le_length)

lemma bit_unat: "bit (unat w) j = bit (w :: 'a::len word) j"
  by (auto simp: bit_unsigned_iff dest: bit_imp_le_length)

lemma card_clear_lowest:
  fixes v :: "'a::len word"
  assumes "v \<noteq> 0"
  shows "card {k. bit v k} = Suc (card {k. bit (v AND (v - 1)) k})"
proof -
  obtain k where k: "bit (unat v) k" "\<And>j. bit (unat v AND (unat v - 1)) j \<longleftrightarrow> bit (unat v) j \<and> j \<noteq> k"
    using clear_lowest [of "unat v"] assms by (auto simp: unat_gt_0)
  have "unat (v AND (v - 1)) = unat v AND (unat v - 1)"
    using assms by (simp add: unsigned_and_eq unat_minus_one)
  then have e: "bit (v AND (v - 1)) j \<longleftrightarrow> bit v j \<and> j \<noteq> k" for j
    using k(2) [of j] by (metis bit_unat)
  have "bit v k" using k(1) by (simp only: bit_unat)
  then have "{j. bit v j} = insert k {j. bit (v AND (v - 1)) j}" using e by auto
  then show ?thesis using e finite_bits [of "v AND (v - 1)"] by (metis card_insert_disjoint mem_Collect_eq)
qed

text \<open>Clearing the lowest set bit leaves a smaller number.\<close>

lemma and_minus_one_less: "(v::'a::len word) \<noteq> 0 \<Longrightarrow> unat (v AND (v - 1)) < unat v"
proof -
  assume "v \<noteq> 0"
  then have "unat (v - 1) < unat v" by (simp add: unat_minus_one unat_gt_0 word_neq_0_conv)
  moreover have "v AND (v - 1) \<le> v - 1" by (metis word_and_le1)
  ultimately show ?thesis by (simp add: word_le_nat_alt)
qed

text \<open>Isolating the lowest set bit.\<close>

lemma minus_lowest: "(p :: 'a::len word) - (p AND - p) = p AND (p - 1)"
proof -
  have "(p AND (p - 1)) AND (p AND NOT (p - 1)) = 0" by (rule bit_word_eqI) (simp add: bit_and_iff bit_not_iff)
  then have "(p AND (p - 1)) + (p AND NOT (p - 1)) = (p AND (p - 1)) OR (p AND NOT (p - 1))"
    by (rule disjunctive_add_eq_or)
  also have "\<dots> = p" by (rule bit_word_eqI) (auto simp: bit_and_iff bit_or_iff bit_not_iff)
  finally have "(p AND (p - 1)) + (p AND NOT (p - 1)) = p" .
  moreover have "NOT (p - 1) = - p" by (simp add: not_eq_complement)
  ultimately show ?thesis by (simp add: algebra_simps)
qed

lemma lowest_bit:
  fixes p :: "'a::len word"
  assumes "p \<noteq> 0"
  obtains k where "bit p k" and "p AND - p = 2 ^ k" and "\<And>j. bit (p AND (p - 1)) j \<longleftrightarrow> bit p j \<and> j \<noteq> k"
proof -
  obtain k where k: "bit (unat p) k" "\<And>j. bit (unat p AND (unat p - 1)) j \<longleftrightarrow> bit (unat p) j \<and> j \<noteq> k"
    using clear_lowest [of "unat p"] assms by (auto simp: unat_gt_0)
  have "unat (p AND (p - 1)) = unat p AND (unat p - 1)"
    using assms by (simp add: unsigned_and_eq unat_minus_one)
  then have e: "bit (p AND (p - 1)) j \<longleftrightarrow> bit p j \<and> j \<noteq> k" for j using k(2) [of j] by (metis bit_unat)
  have pk: "bit p k" using k(1) by (simp only: bit_unat)
  have n: "NOT (p - 1) = - p" by (simp add: not_eq_complement)
  have "bit (p AND - p) j \<longleftrightarrow> j = k" for j
    using e [of j] pk unfolding n [symmetric] bit_and_iff bit_not_iff by (auto dest: bit_imp_le_length)
  then have "p AND - p = 2 ^ k" using pk
    by (intro bit_word_eqI) (auto simp: bit_exp_iff)
  then show thesis using that e pk by blast
qed

lemma card_bits_sum: "card {k. bit (v :: 'a::len word) k} = (\<Sum>k < LENGTH('a). of_bool (bit v k))"
proof -
  have "{k. bit v k} = {k \<in> {..<LENGTH('a)}. bit v k}" by (auto dest: bit_imp_le_length)
  then show ?thesis by (simp add: Int_def)
qed

section \<open>Sums\<close>

lemma fold_add_sum: "fold (\<lambda>i s. s + f i) [0..<n] (a :: 'a::comm_monoid_add) = a + (\<Sum>i<n. f i)"
  by (induction n arbitrary: a) (simp_all add: add.assoc)

section \<open>Streams of draws\<close>

text \<open>The values of \<open>n\<close> successive calls of a stateful source, and the state after them.\<close>

primrec draws :: "('s \<Rightarrow> 'v \<times> 's) \<Rightarrow> nat \<Rightarrow> 's \<Rightarrow> 'v list \<times> 's" where
  "draws f 0 s = ([], s)"
| "draws f (Suc n) s = (let (v, s1) = f s; (vs, s2) = draws f n s1 in (v # vs, s2))"

lemma length_draws [simp]: "length (fst (draws f n s)) = n"
  by (induction n arbitrary: s) (auto simp: Let_def split: prod.splits, metis fst_conv)

lemma draws_4: "draws f 4 s =
   (let (a, s) = f s; (b, s) = f s; (c, s) = f s; (d, s) = f s in ([a, b, c, d], s))"
  by (simp add: numeral_eq_Suc Let_def split_def)

lemma draws_2: "draws f 2 s = (let (a, s) = f s; (b, s) = f s in ([a, b], s))"
  by (simp add: numeral_eq_Suc Let_def split_def)

text \<open>
  A source that can be seeded: after seeding, what is drawn does not depend on
  anything that happened before.
\<close>

locale seeded_source =
  fixes seed :: "'k \<Rightarrow> 's \<Rightarrow> 's"
    and draw :: "'s \<Rightarrow> 'v \<times> 's"
    and sim :: "'s \<Rightarrow> 's \<Rightarrow> bool"
  assumes seed_sim: "sim (seed k s) (seed k t)"
    and draw_sim: "sim s t \<Longrightarrow> fst (draw s) = fst (draw t) \<and> sim (snd (draw s)) (snd (draw t))"
begin

lemma draws_sim:
  "sim s t \<Longrightarrow> fst (draws draw n s) = fst (draws draw n t) \<and>
    sim (snd (draws draw n s)) (snd (draws draw n t))"
  by (induction n arbitrary: s t) (force simp: Let_def split_def dest: draw_sim)+

lemma draws_replay:
  "fst (draws draw n (seed k s)) = fst (draws draw n (seed k t))"
  using draws_sim [OF seed_sim] by blast

end

end
