(* ===== verification/Mwc.thy ===== *)
theory Mwc
  imports Stress_Prelude "HOL-Library.Signed_Division"
begin

text \<open>
  The multiply-with-carry generator of mwc.c and of the two enclaves
  (companion.h, companion.c).  The state holds the two 32 bit halves, the
  counters of cached 8 and 16 bit values and the two function-local caches.
  The lemmas relate the 32 bit step to the Lehmer generator it implements,
  show that the caches hand out exactly the bytes of the drawn words, and that a
  reseeded generator repeats its outputs.
\<close>

section \<open>State and operations\<close>

definition MWC_SEED_Z :: u32 where "MWC_SEED_Z = 362436069"
definition MWC_SEED_W :: u32 where "MWC_SEED_W = 521288629"

record mwc_t =
  mwc_w :: u32
  mwc_z :: u32
  mwc_n8 :: u8
  mwc_n16 :: u8
  mwc_saved8 :: u32
  mwc_saved16 :: u32

definition mwc_init :: mwc_t where
  "mwc_init = \<lparr>mwc_w = MWC_SEED_W, mwc_z = MWC_SEED_Z, mwc_n8 = 0, mwc_n16 = 0,
    mwc_saved8 = 0, mwc_saved16 = 0\<rparr>"

definition mwc_flush :: "mwc_t \<Rightarrow> mwc_t" where
  "mwc_flush s = s\<lparr>mwc_n8 := 0, mwc_n16 := 0\<rparr>"

definition mwc_seed :: "u32 \<Rightarrow> u32 \<Rightarrow> mwc_t \<Rightarrow> mwc_t" where
  "mwc_seed w z s = mwc_flush (s\<lparr>mwc_w := w, mwc_z := z\<rparr>)"

definition mwc32 :: "mwc_t \<Rightarrow> u32 \<times> mwc_t" where
  "mwc32 s =
    (let z = 36969 * (mwc_z s AND 65535) + drop_bit 16 (mwc_z s);
         w = 18000 * (mwc_w s AND 65535) + drop_bit 16 (mwc_w s)
     in (push_bit 16 z + w, s\<lparr>mwc_z := z, mwc_w := w\<rparr>))"

definition mwc64 :: "mwc_t \<Rightarrow> u64 \<times> mwc_t" where
  "mwc64 s =
    (let (hi, s1) = mwc32 s; (lo, s2) = mwc32 s1
     in (push_bit 32 (ucast hi) OR ucast lo, s2))"

definition mwc16 :: "mwc_t \<Rightarrow> u16 \<times> mwc_t" where
  "mwc16 s =
    (let s' = (if mwc_n16 s \<noteq> 0
               then s\<lparr>mwc_n16 := mwc_n16 s - 1, mwc_saved16 := drop_bit 16 (mwc_saved16 s)\<rparr>
               else (case mwc32 (s\<lparr>mwc_n16 := 1\<rparr>) of (v, t) \<Rightarrow> t\<lparr>mwc_saved16 := v\<rparr>))
     in (ucast (mwc_saved16 s' AND 0xffff), s'))"

definition mwc8 :: "mwc_t \<Rightarrow> u8 \<times> mwc_t" where
  "mwc8 s =
    (let s' = (if mwc_n8 s \<noteq> 0
               then s\<lparr>mwc_n8 := mwc_n8 s - 1, mwc_saved8 := drop_bit 8 (mwc_saved8 s)\<rparr>
               else (case mwc32 (s\<lparr>mwc_n8 := 3\<rparr>) of (v, t) \<Rightarrow> t\<lparr>mwc_saved8 := v\<rparr>))
     in (ucast (mwc_saved8 s' AND 0xff), s'))"

text \<open>
  What \<open>mwc_reseed\<close> reads from the system: whether the no-rand-seed option is set,
  the time of day when the call succeeds, the distance between two addresses of
  the process, and the ids of the process and of its parent.
\<close>

record mwc_env =
  env_no_rand_seed :: bool
  env_tod :: "(u64 \<times> u64) option"
  env_addr_diff :: u64
  env_pid :: u64
  env_ppid :: u64

primrec mwc_skip :: "nat \<Rightarrow> mwc_t \<Rightarrow> mwc_t" where
  "mwc_skip 0 s = s"
| "mwc_skip (Suc n) s = mwc_skip n (snd (mwc32 s))"

definition mwc_reseed :: "mwc_env \<Rightarrow> mwc_t \<Rightarrow> mwc_t" where
  "mwc_reseed e s =
    mwc_flush
     (if env_no_rand_seed e then s\<lparr>mwc_w := MWC_SEED_W, mwc_z := MWC_SEED_Z\<rparr>
      else
        (let z0 = (case env_tod e of Some (sec, usec) \<Rightarrow> ucast (sec XOR usec) | None \<Rightarrow> 0);
             z1 = z0 + ucast (NOT (env_addr_diff e));
             w = ucast (env_pid e XOR push_bit 12 (env_ppid e))
         in mwc_skip (nat (sint z1 smod 1733)) (s\<lparr>mwc_z := z1, mwc_w := w\<rparr>)))"

text \<open>Inside the enclaves there is no time and no process id: the seed is fixed.\<close>

definition enclave_mwc_reseed :: "mwc_t \<Rightarrow> mwc_t" where
  "enclave_mwc_reseed s = mwc_flush (s\<lparr>mwc_w := MWC_SEED_W, mwc_z := MWC_SEED_Z\<rparr>)"

section \<open>The 32 bit step\<close>

text \<open>Each half multiplies its low 16 bits and adds the carry kept in the high ones.\<close>

definition mwc_half :: "nat \<Rightarrow> u32 \<Rightarrow> u32" where
  "mwc_half a x = of_nat a * (x AND 65535) + drop_bit 16 x"

lemma mwc_half_unat:
  assumes "a \<le> 65535"
  shows "unat (mwc_half a x) = a * (unat x mod 65536) + unat x div 65536"
proof -
  have m: "(65535 :: u32) = mask 16" by (simp add: mask_eq_exp_minus_1)
  have l: "unat (x AND 65535) = unat x mod 65536"
    unfolding m by (simp add: and_mask_unat)
  have h: "unat (drop_bit 16 x) = unat x div 65536"
    by (simp add: drop_bit_unat)
  have xb: "unat x < 65536 * 65536" using unsigned_less [of x] by simp
  have "a * (unat x mod 65536) \<le> 65535 * 65535"
    using assms by (intro mult_le_mono) auto
  moreover have "unat x div 65536 < 65536" using xb by (simp add: less_mult_imp_div_less)
  ultimately have b: "a * (unat x mod 65536) + unat x div 65536 < 2 ^ 32" by simp
  have "mwc_half a x = of_nat (a * (unat x mod 65536) + unat x div 65536)"
    unfolding mwc_half_def by (simp flip: l h)
  then show ?thesis using b by (simp add: unat_of_nat_small del: of_nat_add of_nat_mult)
qed

lemma lehmer_identity:
  fixes a b h l :: nat
  assumes "0 < a" "0 < b"
  shows "(a * l + h) * b = (a * b - 1) * l + (h * b + l)"
proof -
  obtain k where "a * b = Suc k" using assms by (cases "a * b") auto
  moreover have "(a * l + h) * b = (a * b) * l + h * b" by (simp add: algebra_simps)
  ultimately show ?thesis by (simp add: algebra_simps)
qed

lemma lehmer_step:
  assumes "a \<le> 65535" "0 < a"
  shows "unat (mwc_half a x) * 65536 mod (a * 65536 - 1) = unat x mod (a * 65536 - 1)"
proof -
  have "unat (mwc_half a x) * 65536 = (a * 65536 - 1) * (unat x mod 65536) + unat x"
    unfolding mwc_half_unat [OF assms(1)] by (subst lehmer_identity) (use assms in simp_all)
  then show ?thesis by simp
qed

lemma mwc_half_nonzero:
  assumes "a \<le> 65535" "0 < a" "x \<noteq> 0"
  shows "mwc_half a x \<noteq> 0"
proof
  assume "mwc_half a x = 0"
  then have "a * (unat x mod 65536) + unat x div 65536 = 0"
    using mwc_half_unat [OF assms(1), of x] by simp
  then have "unat x mod 65536 = 0" "unat x div 65536 = 0" using assms(2) by auto
  then have "unat x = 0" by (metis div_mult_mod_eq add.right_neutral mult_0)
  then show False using assms(3) by (simp add: unat_eq_0)
qed

lemma mwc32_fields:
  "mwc_z (snd (mwc32 s)) = mwc_half 36969 (mwc_z s)"
  "mwc_w (snd (mwc32 s)) = mwc_half 18000 (mwc_w s)"
  "mwc_n8 (snd (mwc32 s)) = mwc_n8 s"
  "mwc_n16 (snd (mwc32 s)) = mwc_n16 s"
  "mwc_saved8 (snd (mwc32 s)) = mwc_saved8 s"
  "mwc_saved16 (snd (mwc32 s)) = mwc_saved16 s"
  "fst (mwc32 s) = push_bit 16 (mwc_half 36969 (mwc_z s)) + mwc_half 18000 (mwc_w s)"
  by (simp_all add: mwc32_def mwc_half_def Let_def)

section \<open>Reproducibility\<close>

text \<open>Two states that no sequence of calls can tell apart.\<close>

definition mwc_sim :: "mwc_t \<Rightarrow> mwc_t \<Rightarrow> bool" where
  "mwc_sim s t \<longleftrightarrow> mwc_w s = mwc_w t \<and> mwc_z s = mwc_z t \<and>
    mwc_n8 s = mwc_n8 t \<and> mwc_n16 s = mwc_n16 t \<and>
    (mwc_n8 s \<noteq> 0 \<longrightarrow> mwc_saved8 s = mwc_saved8 t) \<and>
    (mwc_n16 s \<noteq> 0 \<longrightarrow> mwc_saved16 s = mwc_saved16 t)"

lemma mwc_seed_sim: "mwc_sim (mwc_seed w z s) (mwc_seed w z t)"
  by (simp add: mwc_sim_def mwc_seed_def mwc_flush_def)

lemma mwc32_sim:
  "mwc_sim s t \<Longrightarrow> fst (mwc32 s) = fst (mwc32 t) \<and> mwc_sim (snd (mwc32 s)) (snd (mwc32 t))"
  by (simp add: mwc_sim_def mwc32_fields)

lemma mwc64_sim:
  "mwc_sim s t \<Longrightarrow> fst (mwc64 s) = fst (mwc64 t) \<and> mwc_sim (snd (mwc64 s)) (snd (mwc64 t))"
  using mwc32_sim [of s t] mwc32_sim [of "snd (mwc32 s)" "snd (mwc32 t)"]
  by (simp add: mwc64_def Let_def split_def)

lemma mwc16_sim:
  "mwc_sim s t \<Longrightarrow> fst (mwc16 s) = fst (mwc16 t) \<and> mwc_sim (snd (mwc16 s)) (snd (mwc16 t))"
  by (auto simp: mwc_sim_def mwc16_def Let_def split_def mwc32_fields)

lemma mwc8_sim:
  "mwc_sim s t \<Longrightarrow> fst (mwc8 s) = fst (mwc8 t) \<and> mwc_sim (snd (mwc8 s)) (snd (mwc8 t))"
  by (auto simp: mwc_sim_def mwc8_def Let_def split_def mwc32_fields)

interpretation src8: seeded_source "\<lambda>(w, z). mwc_seed w z" mwc8 mwc_sim
  by unfold_locales (auto simp: mwc_seed_sim mwc8_sim split_def)

interpretation src16: seeded_source "\<lambda>(w, z). mwc_seed w z" mwc16 mwc_sim
  by unfold_locales (auto simp: mwc_seed_sim mwc16_sim split_def)

interpretation src32: seeded_source "\<lambda>(w, z). mwc_seed w z" mwc32 mwc_sim
  by unfold_locales (auto simp: mwc_seed_sim mwc32_sim split_def)

interpretation src64: seeded_source "\<lambda>(w, z). mwc_seed w z" mwc64 mwc_sim
  by unfold_locales (auto simp: mwc_seed_sim mwc64_sim split_def)

text \<open>A program of calls: its outputs, widened to 64 bits.\<close>

datatype mwc_call = Call8 | Call16 | Call32 | Call64

fun mwc_do :: "mwc_call \<Rightarrow> mwc_t \<Rightarrow> u64 \<times> mwc_t" where
  "mwc_do Call8 s = map_prod ucast id (mwc8 s)"
| "mwc_do Call16 s = map_prod ucast id (mwc16 s)"
| "mwc_do Call32 s = map_prod ucast id (mwc32 s)"
| "mwc_do Call64 s = mwc64 s"

primrec mwc_run :: "mwc_call list \<Rightarrow> mwc_t \<Rightarrow> u64 list \<times> mwc_t" where
  "mwc_run [] s = ([], s)"
| "mwc_run (c # cs) s = (let (v, s1) = mwc_do c s; (vs, s2) = mwc_run cs s1 in (v # vs, s2))"

lemma mwc_do_sim:
  "mwc_sim s t \<Longrightarrow> fst (mwc_do c s) = fst (mwc_do c t) \<and> mwc_sim (snd (mwc_do c s)) (snd (mwc_do c t))"
  using mwc8_sim mwc16_sim mwc32_sim mwc64_sim by (cases c) auto

lemma mwc_run_sim:
  "mwc_sim s t \<Longrightarrow> fst (mwc_run cs s) = fst (mwc_run cs t)"
  by (induction cs arbitrary: s t) (force simp: Let_def split_def dest: mwc_do_sim)+

section \<open>Caches\<close>

text \<open>At most three bytes and one half-word are ever cached.\<close>

definition mwc_inv :: "mwc_t \<Rightarrow> bool" where
  "mwc_inv s \<longleftrightarrow> mwc_n8 s \<le> 3 \<and> mwc_n16 s \<le> 1"

lemma mwc_inv_init: "mwc_inv mwc_init"
  by (simp add: mwc_inv_def mwc_init_def)

lemma mwc_inv_seed: "mwc_inv (mwc_seed w z s)"
  by (simp add: mwc_inv_def mwc_seed_def mwc_flush_def)

lemma mwc_inv_reseed: "mwc_inv (mwc_reseed e s)"
  by (simp add: mwc_inv_def mwc_reseed_def mwc_flush_def)

lemma mwc_inv_do: "mwc_inv s \<Longrightarrow> mwc_inv (snd (mwc_do c s))"
  by (cases c)
    (auto simp: mwc_inv_def mwc8_def mwc16_def mwc64_def Let_def split_def mwc32_fields word_pred_le)

lemma mwc_inv_run: "mwc_inv s \<Longrightarrow> mwc_inv (snd (mwc_run cs s))"
  by (induction cs arbitrary: s) (auto simp: Let_def split_def mwc_inv_do)

lemma mwc32_cache_update:
  "mwc32 (s\<lparr>mwc_n8 := k\<rparr>) = (fst (mwc32 s), (snd (mwc32 s))\<lparr>mwc_n8 := k\<rparr>)"
  "mwc32 (s\<lparr>mwc_n16 := k\<rparr>) = (fst (mwc32 s), (snd (mwc32 s))\<lparr>mwc_n16 := k\<rparr>)"
  by (simp_all add: mwc32_def Let_def)

lemma mwc8_fresh:
  "mwc_n8 s = 0 \<Longrightarrow> mwc8 s =
    (ucast (fst (mwc32 s)), (snd (mwc32 s))\<lparr>mwc_n8 := 3, mwc_saved8 := fst (mwc32 s)\<rparr>)"
  by (simp add: mwc8_def mwc32_cache_update ucast_low8)

lemma mwc8_cached:
  "mwc_n8 s \<noteq> 0 \<Longrightarrow> mwc8 s =
    (ucast (drop_bit 8 (mwc_saved8 s)),
     s\<lparr>mwc_n8 := mwc_n8 s - 1, mwc_saved8 := drop_bit 8 (mwc_saved8 s)\<rparr>)"
  by (simp add: mwc8_def ucast_low8)

lemma mwc16_fresh:
  "mwc_n16 s = 0 \<Longrightarrow> mwc16 s =
    (ucast (fst (mwc32 s)), (snd (mwc32 s))\<lparr>mwc_n16 := 1, mwc_saved16 := fst (mwc32 s)\<rparr>)"
  by (simp add: mwc16_def mwc32_cache_update ucast_low16)

lemma mwc16_cached:
  "mwc_n16 s \<noteq> 0 \<Longrightarrow> mwc16 s =
    (ucast (drop_bit 16 (mwc_saved16 s)),
     s\<lparr>mwc_n16 := mwc_n16 s - 1, mwc_saved16 := drop_bit 16 (mwc_saved16 s)\<rparr>)"
  by (simp add: mwc16_def ucast_low16)

lemma mwc8_four:
  assumes "mwc_n8 s = 0"
  shows "draws mwc8 4 s =
    (map (\<lambda>i. ucast (drop_bit (8 * i) (fst (mwc32 s)))) [0, 1, 2, 3],
     (snd (mwc32 s))\<lparr>mwc_n8 := 0, mwc_saved8 := drop_bit 24 (fst (mwc32 s))\<rparr>)"
  using assms by (simp add: draws_4 mwc8_fresh mwc8_cached)

lemma mwc16_two:
  assumes "mwc_n16 s = 0"
  shows "draws mwc16 2 s =
    (map (\<lambda>i. ucast (drop_bit (16 * i) (fst (mwc32 s)))) [0, 1],
     (snd (mwc32 s))\<lparr>mwc_n16 := 0, mwc_saved16 := drop_bit 16 (fst (mwc32 s))\<rparr>)"
  using assms by (simp add: draws_2 mwc16_fresh mwc16_cached)

section \<open>Properties\<close>

text \<open>
  C28: Each call of \<open>mwc32\<close> steps both halves of the state backwards through a Lehmer
  generator: multiplying the new half by 65536 modulo \<open>a * 65536 - 1\<close> gives back the old one,
  with \<open>a\<close> = 36969 for \<open>z\<close> and 18000 for \<open>w\<close>; no 32 bit overflow disturbs the recurrence.
\<close>

theorem mwc32_lehmer:
  "unat (mwc_z (snd (mwc32 s))) * 65536 mod (36969 * 65536 - 1)
     = unat (mwc_z s) mod (36969 * 65536 - 1)
   \<and> unat (mwc_w (snd (mwc32 s))) * 65536 mod (18000 * 65536 - 1)
     = unat (mwc_w s) mod (18000 * 65536 - 1)"
  unfolding mwc32_fields by (intro conjI lehmer_step) simp_all

text \<open>
  From an empty byte cache, four calls of \<open>mwc8\<close> step the generator exactly once and return
  the four bytes of the drawn word, lowest first, leaving the cache empty; the two calls of
  \<open>mwc16\<close> do the same with the half-words.
\<close>

theorem mwc_caches:
  assumes "mwc_n8 s = 0" "mwc_n16 s = 0"
  shows "draws mwc8 4 s =
      (map (\<lambda>i. ucast (drop_bit (8 * i) (fst (mwc32 s)))) [0, 1, 2, 3],
       (snd (mwc32 s))\<lparr>mwc_n8 := 0, mwc_saved8 := drop_bit 24 (fst (mwc32 s))\<rparr>)
    \<and> draws mwc16 2 s =
      (map (\<lambda>i. ucast (drop_bit (16 * i) (fst (mwc32 s)))) [0, 1],
       (snd (mwc32 s))\<lparr>mwc_n16 := 0, mwc_saved16 := drop_bit 16 (fst (mwc32 s))\<rparr>)"
  using assms mwc8_four mwc16_two by blast

theorem mwc_caches_witness:
  "mwc_n8 mwc_init = 0 \<and> mwc_n16 mwc_init = 0 \<and>
   draws mwc8 4 mwc_init =
      (map (\<lambda>i. ucast (drop_bit (8 * i) (fst (mwc32 mwc_init)))) [0, 1, 2, 3],
       (snd (mwc32 mwc_init))\<lparr>mwc_n8 := 0, mwc_saved8 := drop_bit 24 (fst (mwc32 mwc_init))\<rparr>)"
  using mwc_caches [of mwc_init] by (simp add: mwc_init_def)

text \<open>
  C29: Seeding makes the generator reproducible: whatever was drawn before, any sequence of
  8, 16, 32 and 64 bit calls made after \<open>mwc_seed w z\<close> returns the same values.
\<close>

theorem mwc_seed_replay:
  "fst (mwc_run cs (mwc_seed w z s)) = fst (mwc_run cs (mwc_seed w z t))"
  by (rule mwc_run_sim [OF mwc_seed_sim])

end
