(* ===== verification/C_Lib.thy ===== *)
theory C_Lib
  imports Stress_Prelude
begin

text \<open>
  The fragment of the C library that the option parser and the job file parser rely on, for
  the C locale: character classes, the integer conversions of \<open>sscanf\<close>, and decimal
  printing, with the lemmas that relate scanning to printing.  A C string is the list of the
  characters before its terminating NUL.
\<close>

section \<open>Character classes\<close>

definition isdigit :: "char \<Rightarrow> bool" where
  "isdigit c \<longleftrightarrow> 48 \<le> (of_char c :: nat) \<and> (of_char c :: nat) \<le> 57"

definition isspace :: "char \<Rightarrow> bool" where
  "isspace c \<longleftrightarrow> (of_char c :: nat) = 32 \<or> (9 \<le> (of_char c :: nat) \<and> (of_char c :: nat) \<le> 13)"

definition isupper :: "char \<Rightarrow> bool" where
  "isupper c \<longleftrightarrow> 65 \<le> (of_char c :: nat) \<and> (of_char c :: nat) \<le> 90"

definition tolower :: "char \<Rightarrow> char" where
  "tolower c = (if isupper c then char_of ((of_char c :: nat) + 32) else c)"

section \<open>Integer conversions\<close>

definition digit_val :: "char \<Rightarrow> nat" where
  "digit_val c = of_char c - 48"

definition digits_val :: "string \<Rightarrow> nat" where
  "digits_val ds = foldl (\<lambda>n c. 10 * n + digit_val c) 0 ds"

text \<open>
  The subject sequence of a decimal conversion with a field width: leading white space is
  skipped, then an optional sign and at least one digit are taken within the width.  The
  result is whether the number is negated, and its magnitude.
\<close>

definition scan_dec :: "nat option \<Rightarrow> string \<Rightarrow> (bool \<times> nat) option" where
  "scan_dec width str =
    (let s = dropWhile isspace str;
         f = (case width of None \<Rightarrow> s | Some n \<Rightarrow> take n s);
         (neg, r) = (case f of c # r \<Rightarrow> if c = CHR ''-'' then (True, r)
                                        else if c = CHR ''+'' then (False, r) else (False, f)
                     | [] \<Rightarrow> (False, []));
         ds = takeWhile isdigit r
     in if ds = [] then None else Some (neg, digits_val ds))"

text \<open>\<open>strtoul\<close> negates in unsigned arithmetic and saturates at the largest 64 bit value.\<close>

definition strtoul_val :: "bool \<times> nat \<Rightarrow> u64" where
  "strtoul_val p = (case p of (neg, m) \<Rightarrow>
    if 2 ^ 64 \<le> m then - 1 else if neg then - of_nat m else of_nat m)"

text \<open>\<open>strtol\<close> saturates at the two ends of the signed range.\<close>

definition strtol_val :: "bool \<times> nat \<Rightarrow> int" where
  "strtol_val p = (case p of (neg, m) \<Rightarrow>
    if neg then max (- (2 ^ 63)) (- int m) else min (2 ^ 63 - 1) (int m))"

definition sscanf_u32 :: "nat option \<Rightarrow> string \<Rightarrow> u32 option" where
  "sscanf_u32 width str = map_option (ucast \<circ> strtoul_val) (scan_dec width str)"

definition sscanf_u64 :: "nat option \<Rightarrow> string \<Rightarrow> u64 option" where
  "sscanf_u64 width str = map_option strtoul_val (scan_dec width str)"

definition sscanf_i32 :: "nat option \<Rightarrow> string \<Rightarrow> 32 word option" where
  "sscanf_i32 width str = map_option (word_of_int \<circ> strtol_val) (scan_dec width str)"

section \<open>Decimal printing\<close>

fun show_nat :: "nat \<Rightarrow> string" where
  "show_nat n = (if n < 10 then [char_of (48 + n)] else show_nat (n div 10) @ [char_of (48 + n mod 10)])"

declare show_nat.simps [simp del]

lemma digits_val_Nil [simp]: "digits_val [] = 0"
  by (simp add: digits_val_def)

lemma digits_val_snoc [simp]: "digits_val (ds @ [c]) = 10 * digits_val ds + digit_val c"
  by (simp add: digits_val_def)

lemma digit_char [simp]:
  assumes "d < 10"
  shows "isdigit (char_of (48 + d))" "digit_val (char_of (48 + d)) = d"
  using assms by (simp_all add: isdigit_def digit_val_def)

lemma show_nat_digits [simp]: "\<forall>c \<in> set (show_nat n). isdigit c"
  by (induction n rule: show_nat.induct) (subst show_nat.simps, auto)

lemma show_nat_nonempty [simp]: "show_nat n \<noteq> []"
  by (subst show_nat.simps) simp

lemma digits_val_show_nat [simp]: "digits_val (show_nat n) = n"
proof (induction n rule: show_nat.induct)
  case (1 n)
  show ?case
  proof (cases "n < 10")
    case True
    then show ?thesis
      by (subst show_nat.simps) (simp add: digits_val_def)
  next
    case False
    with 1 show ?thesis by (subst show_nat.simps) (simp add: del: mod_mult_div_eq)
  qed
qed

section \<open>Scanning digit strings\<close>

lemma isdigit_not_space [simp]: "isdigit c \<Longrightarrow> \<not> isspace c"
  by (simp add: isdigit_def isspace_def)

lemma isdigit_not_sign: "isdigit c \<Longrightarrow> c \<noteq> CHR ''-'' \<and> c \<noteq> CHR ''+''"
  by (auto simp: isdigit_def)

text \<open>What follows the digits is not looked at.\<close>

lemma scan_dec_digits:
  assumes "ds \<noteq> []" "\<forall>c \<in> set ds. isdigit c" "\<forall>c \<in> set ws. isspace c"
    and "rest = [] \<or> \<not> isdigit (hd rest)"
  shows "scan_dec None (ws @ ds @ rest) = Some (False, digits_val ds)"
proof -
  obtain c ds' where ds: "ds = c # ds'" using assms(1) by (cases ds) auto
  have dw: "dropWhile isspace (ws @ ds @ rest) = ds @ rest"
    using assms(2,3) ds by (subst dropWhile_append) auto
  have tw: "takeWhile isdigit (ds @ rest) = ds"
    using assms(2,4) by (cases rest) (auto simp: takeWhile_tail)
  have "c \<noteq> CHR ''-''" "c \<noteq> CHR ''+''" using assms(2) ds isdigit_not_sign by auto
  then show ?thesis
    using tw dw ds by (simp add: scan_dec_def Let_def)
qed

end
