(* ===== verification/Parse_Opts.thy ===== *)
theory Parse_Opts
  imports C_Lib
begin

text \<open>
  The option value parsers of parse-opts.c.  A failing parser either jumps back to
  \<open>main\<close> (\<open>longjmp\<close>), exits, or reads past the end of its scale table; each is a constructor of
  the error type.  Floating point conversion and arithmetic, used only for percentages, is a
  parameter of the definitions.
\<close>

section \<open>Errors and checks\<close>

datatype opt_error =
    Longjmp string
  | Exit_failure string
  | Out_of_bounds

type_synonym 'a parsed = "opt_error + 'a"

definition STRESS_PROCS_MAX :: int where "STRESS_PROCS_MAX = 4096"

definition check_value :: "string \<Rightarrow> 32 word \<Rightarrow> unit parsed" where
  "check_value msg val =
    (if sint val < 0 \<or> sint val > STRESS_PROCS_MAX
     then Inl (Longjmp (''Number of '' @ msg @ '' workers must be between 0 and 4096''))
     else Inr ())"

definition check_range :: "string \<Rightarrow> u64 \<Rightarrow> u64 \<Rightarrow> u64 \<Rightarrow> unit parsed" where
  "check_range opt val lo hi =
    (if val < lo \<or> val > hi then Inl (Longjmp (''out of range for '' @ opt)) else Inr ())"

definition check_range_bytes :: "string \<Rightarrow> u64 \<Rightarrow> u64 \<Rightarrow> u64 \<Rightarrow> unit parsed" where
  "check_range_bytes opt val lo hi =
    (if val < lo \<or> val > hi then Inl (Longjmp (''bytes out of range for '' @ opt)) else Inr ())"

section \<open>Plain numbers\<close>

fun positive_scan :: "bool \<Rightarrow> string \<Rightarrow> bool" where
  "positive_scan negative [] = True"
| "positive_scan negative (c # cs) =
    (if c = CHR ''-'' then positive_scan True cs
     else if isdigit c then \<not> negative
     else positive_scan negative cs)"

definition ensure_positive :: "string \<Rightarrow> unit parsed" where
  "ensure_positive str =
    (if positive_scan False str then Inr () else Inl (Longjmp (''Invalid negative number '' @ str)))"

definition invalid_number :: "string \<Rightarrow> opt_error" where
  "invalid_number str = Longjmp (''Invalid number '' @ str)"

definition get_uint32 :: "string \<Rightarrow> u32 parsed" where
  "get_uint32 str = (case ensure_positive str of Inl e \<Rightarrow> Inl e | Inr _ \<Rightarrow>
    (case sscanf_u32 (Some 12) str of None \<Rightarrow> Inl (invalid_number str) | Some v \<Rightarrow> Inr v))"

definition get_int32 :: "string \<Rightarrow> 32 word parsed" where
  "get_int32 str =
    (case sscanf_i32 (Some 12) str of None \<Rightarrow> Inl (invalid_number str) | Some v \<Rightarrow> Inr v)"

definition get_uint64 :: "string \<Rightarrow> u64 parsed" where
  "get_uint64 str = (case ensure_positive str of Inl e \<Rightarrow> Inl e | Inr _ \<Rightarrow>
    (case sscanf_u64 None str of None \<Rightarrow> Inl (invalid_number str) | Some v \<Rightarrow> Inr v))"

section \<open>Scaled numbers\<close>

type_synonym scale_t = "char \<times> u64"

text \<open>The scan of a scale table: a zero character terminates it, running off its end is undefined.\<close>

fun scale_find :: "string \<Rightarrow> char \<Rightarrow> scale_t list \<Rightarrow> u64 parsed" where
  "scale_find msg ch [] = Inl Out_of_bounds"
| "scale_find msg ch ((c, k) # scales) =
    (if c = CHR 0x00 then Inl (Exit_failure (''Illegal '' @ msg @ '' specifier''))
     else if ch = c then Inr k
     else scale_find msg ch scales)"

definition get_uint64_scale :: "string \<Rightarrow> scale_t list \<Rightarrow> string \<Rightarrow> u64 parsed" where
  "get_uint64_scale str scales msg =
    (case get_uint64 str of Inl e \<Rightarrow> Inl e | Inr val \<Rightarrow>
      (if length str = 0 then Inl (Longjmp ''Value is an invalid size'')
       else if isdigit (last str) then Inr val
       else (case scale_find msg (tolower (last str)) scales of
               Inl e \<Rightarrow> Inl e | Inr k \<Rightarrow> Inr (val * k))))"

definition byte_scales :: "scale_t list" where
  "byte_scales =
    [(CHR ''b'', 1), (CHR ''k'', push_bit 10 1), (CHR ''m'', push_bit 20 1),
     (CHR ''g'', push_bit 30 1), (CHR ''t'', push_bit 40 1), (CHR ''p'', push_bit 50 1),
     (CHR ''e'', push_bit 60 1), (CHR 0x00, 0)]"

definition get_uint64_byte :: "string \<Rightarrow> u64 parsed" where
  "get_uint64_byte str = get_uint64_scale str byte_scales ''length''"

text \<open>Floating point: scanning with \<open>%lf\<close>, the sign test, and \<open>(uint64_t)((double)(max * val) / (100.0 * instances))\<close>.\<close>

record 'd fp_ops =
  fp_scan :: "string \<Rightarrow> 'd option"
  fp_negative :: "'d \<Rightarrow> bool"
  fp_share :: "u64 \<Rightarrow> 'd \<Rightarrow> u32 \<Rightarrow> u64"

definition get_uint64_percent :: "'d fp_ops \<Rightarrow> string \<Rightarrow> u32 \<Rightarrow> u64 \<Rightarrow> string \<Rightarrow> u64 parsed" where
  "get_uint64_percent fp str instances max_v errmsg =
    (if length str > 1 \<and> last str = CHR ''%'' then
       (if max_v = 0 then Inl (Longjmp errmsg)
        else if instances < 1 then Inl (Longjmp ''Invalid number of instances'')
        else (case fp_scan fp str of
            None \<Rightarrow> Inl (Longjmp (''Invalid percentage '' @ str))
          | Some val \<Rightarrow>
              if fp_negative fp val then Inl (Longjmp (''Invalid percentage '' @ str))
              else Inr (fp_share fp max_v val instances)))
     else get_uint64_byte str)"

definition get_uint64_byte_memory :: "'d fp_ops \<Rightarrow> u64 \<Rightarrow> string \<Rightarrow> u32 \<Rightarrow> u64 parsed" where
  "get_uint64_byte_memory fp phys_mem str instances =
    get_uint64_percent fp str instances phys_mem ''Cannot determine physical memory size''"

definition get_uint64_byte_filesystem :: "'d fp_ops \<Rightarrow> u64 \<Rightarrow> string \<Rightarrow> u32 \<Rightarrow> u64 parsed" where
  "get_uint64_byte_filesystem fp bytes str instances =
    get_uint64_percent fp str instances bytes ''Cannot determine available space on file system''"

definition time_scales :: "scale_t list" where
  "time_scales =
    [(CHR ''s'', 1), (CHR ''m'', 60), (CHR ''h'', 3600), (CHR ''d'', 24 * 3600),
     (CHR ''w'', 24 * 3600 * 7), (CHR ''y'', 31556926)]"

definition get_uint64_time :: "string \<Rightarrow> u64 parsed" where
  "get_uint64_time str = get_uint64_scale str time_scales ''time''"

section \<open>What the plain parsers accept\<close>

lemma positive_scan_iff:
  "positive_scan neg str \<longleftrightarrow>
    (\<exists>c \<in> set str. isdigit c) \<longrightarrow> \<not> neg \<and> CHR ''-'' \<notin> set (takeWhile (\<lambda>c. \<not> isdigit c) str)"
  by (induction neg str rule: positive_scan.induct) (auto simp: isdigit_def)

lemma scan_dec_cases:
  assumes "scan_dec None str = Some (neg, m)"
  obtains (parts) ws sg ds rest where "str = ws @ sg @ ds @ rest" "\<forall>c \<in> set ws. isspace c"
    "sg = (if neg then ''-'' else []) \<or> (\<not> neg \<and> sg = ''+'')"
    "ds \<noteq> []" "\<forall>c \<in> set ds. isdigit c" "rest = [] \<or> \<not> isdigit (hd rest)" "m = digits_val ds"
proof -
  define s where "s = dropWhile isspace str"
  have str: "str = takeWhile isspace str @ s" by (simp add: s_def)
  have ws: "\<forall>c \<in> set (takeWhile isspace str). isspace c" by (auto dest: set_takeWhileD)
  have split: thesis
    if "s = sg @ r" "sg = (if neg then ''-'' else []) \<or> (\<not> neg \<and> sg = ''+'')"
      "takeWhile isdigit r \<noteq> []" "m = digits_val (takeWhile isdigit r)" for sg r
  proof -
    have "dropWhile isdigit r = [] \<or> \<not> isdigit (hd (dropWhile isdigit r))"
      using hd_dropWhile by blast
    moreover have "\<forall>c \<in> set (takeWhile isdigit r). isdigit c" by (auto dest: set_takeWhileD)
    moreover have "str = takeWhile isspace str @ sg @ takeWhile isdigit r @ dropWhile isdigit r"
      using str that(1) by simp
    ultimately show ?thesis using parts ws that(2-4) by blast
  qed
  show thesis
  proof (cases s)
    case Nil
    then show ?thesis using assms unfolding scan_dec_def s_def [symmetric] by simp
  next
    case (Cons c r)
    consider "neg" "c = CHR ''-''" | "\<not> neg" "c = CHR ''+''" | "\<not> neg" "c \<noteq> CHR ''-''" "c \<noteq> CHR ''+''"
      using assms Cons unfolding scan_dec_def s_def [symmetric] Let_def by (simp split: if_splits)
    then show ?thesis
      using assms Cons split [of "[c]" r] split [of "[]" s]
      unfolding scan_dec_def s_def [symmetric] Let_def by cases (simp_all split: if_splits)
  qed
qed

lemma isspace_not_digit: "isspace c \<Longrightarrow> \<not> isdigit c"
  by auto

lemma takeWhile_to_digits:
  assumes "\<forall>c \<in> set ws. isspace c" "\<not> isdigit g" "ds \<noteq> []" "\<forall>c \<in> set ds. isdigit c"
  shows "takeWhile (\<lambda>c. \<not> isdigit c) (ws @ g # ds @ rest) = ws @ [g]"
    "takeWhile (\<lambda>c. \<not> isdigit c) (ws @ ds @ rest) = ws"
  using assms by (cases ds; auto simp: isspace_not_digit takeWhile_append)+

lemma scan_dec_plus:
  assumes "ds \<noteq> []" "\<forall>c \<in> set ds. isdigit c" "\<forall>c \<in> set ws. isspace c"
    and "rest = [] \<or> \<not> isdigit (hd rest)"
  shows "scan_dec None (ws @ CHR ''+'' # ds @ rest) = Some (False, digits_val ds)"
proof -
  have dw: "dropWhile isspace (ws @ CHR ''+'' # ds @ rest) = CHR ''+'' # ds @ rest"
    using assms(3) by (subst dropWhile_append) (auto simp: isspace_def)
  have tw: "takeWhile isdigit (ds @ rest) = ds"
    using assms(2,4) by (cases rest) (auto simp: takeWhile_tail)
  show ?thesis using tw dw assms(1) by (simp add: scan_dec_def Let_def)
qed

lemma strtoul_pos: "strtoul_val (False, m) = of_nat (min (2 ^ 64 - 1) m)"
proof (cases "2 ^ 64 \<le> m")
  case True
  then have "min (2 ^ 64 - 1) m = 2 ^ 64 - 1" by simp
  then show ?thesis using True by (simp add: strtoul_val_def)
next
  case False
  then have "min (2 ^ 64 - 1) m = m" by simp
  then show ?thesis using False by (simp add: strtoul_val_def)
qed

text \<open>White space, an optional plus sign, the digits \<open>ds\<close>, then anything that is not a digit.\<close>

definition unsigned_text :: "string \<Rightarrow> string \<Rightarrow> bool" where
  "unsigned_text str ds \<longleftrightarrow> (\<exists>ws sg rest. str = ws @ sg @ ds @ rest \<and> list_all isspace ws \<and>
     sg \<in> {[], ''+''} \<and> ds \<noteq> [] \<and> list_all isdigit ds \<and> (rest = [] \<or> \<not> isdigit (hd rest)))"

lemma get_uint64_value:
  "get_uint64 str = Inr v \<longleftrightarrow>
    (\<exists>ds. unsigned_text str ds \<and> v = of_nat (min (2 ^ 64 - 1) (digits_val ds)))"
proof
  assume g: "get_uint64 str = Inr v"
  then have pos: "positive_scan False str"
    by (auto simp: get_uint64_def ensure_positive_def split: if_splits)
  with g obtain neg m where sc: "scan_dec None str = Some (neg, m)" and v: "v = strtoul_val (neg, m)"
    by (auto simp: get_uint64_def ensure_positive_def sscanf_u64_def split: option.splits)
  from sc obtain ws sg ds rest where p: "str = ws @ sg @ ds @ rest" "\<forall>c \<in> set ws. isspace c"
    "sg = (if neg then ''-'' else []) \<or> (\<not> neg \<and> sg = ''+'')"
    "ds \<noteq> []" "\<forall>c \<in> set ds. isdigit c" "rest = [] \<or> \<not> isdigit (hd rest)" "m = digits_val ds"
    by (rule scan_dec_cases)
  have "\<not> neg"
  proof
    assume neg
    then have sg: "sg = ''-''" using p by simp
    have "CHR ''-'' \<in> set (takeWhile (\<lambda>c. \<not> isdigit c) str)"
      using p sg takeWhile_to_digits(1) [of ws "CHR ''-''" ds rest] by (simp add: isdigit_def)
    moreover have "\<exists>c \<in> set str. isdigit c" using p by (cases ds) auto
    ultimately show False using pos positive_scan_iff by blast
  qed
  then show "\<exists>ds. unsigned_text str ds \<and> v = of_nat (min (2 ^ 64 - 1) (digits_val ds))"
    using p v strtoul_pos unfolding unsigned_text_def list_all_iff by (intro exI [of _ ds]) (auto split: if_splits)
next
  assume "\<exists>ds. unsigned_text str ds \<and> v = of_nat (min (2 ^ 64 - 1) (digits_val ds))"
  then obtain ws sg ds rest where p: "str = ws @ sg @ ds @ rest" "\<forall>c \<in> set ws. isspace c"
     "sg = [] \<or> sg = ''+''" "ds \<noteq> []" "\<forall>c \<in> set ds. isdigit c" "rest = [] \<or> \<not> isdigit (hd rest)"
     and v: "v = of_nat (min (2 ^ 64 - 1) (digits_val ds))"
    unfolding unsigned_text_def list_all_iff by blast
  have "scan_dec None str = Some (False, digits_val ds)"
    using p scan_dec_digits [of ds ws rest] scan_dec_plus [of ds ws rest] by force
  moreover have "\<not> isdigit (CHR ''+'')" "\<not> isspace (CHR ''-'')"
    by (simp_all add: isdigit_def isspace_def)
  then have "CHR ''-'' \<notin> set (takeWhile (\<lambda>c. \<not> isdigit c) str)"
    using p takeWhile_to_digits [of ws "CHR ''+''" ds rest] by auto
  ultimately show "get_uint64 str = Inr v"
    using v by (auto simp: get_uint64_def ensure_positive_def positive_scan_iff sscanf_u64_def strtoul_pos
       simp del: of_nat_min)
qed

section \<open>Scaled values\<close>

lemma get_uint64_decimal:
  assumes "n < 2 ^ 64" "rest = [] \<or> \<not> isdigit (hd rest)"
  shows "get_uint64 (show_nat n @ rest) = Inr (of_nat n)"
proof -
  have "unsigned_text (show_nat n @ rest) (show_nat n)"
    unfolding unsigned_text_def list_all_iff using assms(2)
    by (intro exI [of _ "[]"] exI [of _ rest]) simp
  moreover have "min (2 ^ 64 - 1) n = n" using assms(1) by simp
  ultimately show ?thesis
    using get_uint64_value [of "show_nat n @ rest" "of_nat n"] digits_val_show_nat by metis
qed

lemma get_uint64_scale_decimal:
  assumes "n < 2 ^ 64" "\<not> isdigit ch"
  shows "get_uint64_scale (show_nat n @ [ch]) scales msg =
    map_sum id (\<lambda>k. of_nat n * k) (scale_find msg (tolower ch) scales)"
  using get_uint64_decimal [of n "[ch]"] assms
  by (simp add: get_uint64_scale_def map_sum_def split: sum.split)

lemma get_uint64_scale_plain:
  assumes "n < 2 ^ 64"
  shows "get_uint64_scale (show_nat n) scales msg = Inr (of_nat n)"
proof -
  have "isdigit (last (show_nat n))" using show_nat_digits last_in_set show_nat_nonempty by blast
  then show ?thesis using get_uint64_decimal [of n "[]"] assms by (simp add: get_uint64_scale_def)
qed

definition byte_exponent :: "char \<Rightarrow> nat option" where
  "byte_exponent = map_of [(CHR ''b'', 0), (CHR ''k'', 10), (CHR ''m'', 20), (CHR ''g'', 30),
     (CHR ''t'', 40), (CHR ''p'', 50), (CHR ''e'', 60)]"

definition seconds_of :: "char \<Rightarrow> nat option" where
  "seconds_of = map_of [(CHR ''s'', 1), (CHR ''m'', 60), (CHR ''h'', 60 * 60),
     (CHR ''d'', 24 * 60 * 60), (CHR ''w'', 7 * 24 * 60 * 60), (CHR ''y'', 31556926)]"

lemma byte_scale_find:
  "scale_find msg ch byte_scales = (case byte_exponent ch of
     Some k \<Rightarrow> Inr (2 ^ k) | None \<Rightarrow> Inl (Exit_failure (''Illegal '' @ msg @ '' specifier'')))"
  by (simp add: byte_scales_def byte_exponent_def)

lemma time_scale_find:
  "scale_find msg ch time_scales = (case seconds_of ch of
     Some k \<Rightarrow> Inr (of_nat k) | None \<Rightarrow> Inl Out_of_bounds)"
  by (simp add: time_scales_def seconds_of_def)

section \<open>Properties\<close>

text \<open>
  C30: \<open>get_uint64\<close> succeeds exactly on white space, an optional plus sign, at least one digit and
  anything that does not start with a digit; the value is the number read, saturated at the largest
  64 bit value.  Every other string is rejected.
\<close>

theorem get_uint64_accepts:
  "get_uint64 str = Inr v \<longleftrightarrow>
    (\<exists>ds. unsigned_text str ds \<and> unat v = min (2 ^ 64 - 1) (digits_val ds))"
proof -
  have "(v = of_nat (min (2 ^ 64 - 1) m)) = (unat v = min (2 ^ 64 - 1) m)" for m
    by (rule eq_of_nat_iff_unat) (simp add: min.strict_coboundedI1)
  then show ?thesis unfolding get_uint64_value by simp
qed

text \<open>
  A decimal size with a one letter unit, in either case, is the number times the power of 1024
  the unit stands for, wrapping around at 64 bits; any other trailing character exits with an error.
\<close>

theorem get_uint64_byte_units:
  assumes "n < 2 ^ 64" "\<not> isdigit ch"
  shows "get_uint64_byte (show_nat n @ [ch]) = (case byte_exponent (tolower ch) of
      Some k \<Rightarrow> Inr (of_nat (n * 2 ^ k)) | None \<Rightarrow> Inl (Exit_failure ''Illegal length specifier''))
    \<and> get_uint64_byte (show_nat n) = Inr (of_nat n)"
  unfolding get_uint64_byte_def get_uint64_scale_decimal [OF assms] get_uint64_scale_plain [OF assms(1)]
    byte_scale_find by (simp split: option.split)

lemmas scan_eval = isdigit_def isupper_def tolower_def show_nat.simps char_of_def bit_0

theorem get_uint64_byte_units_witness:
  "get_uint64_byte ''3M'' = Inr 3145728"
  using get_uint64_byte_units [of 3 "CHR ''M''"]
  by (simp add: scan_eval byte_exponent_def)

text \<open>
  C31: A decimal time with a unit letter is the number of seconds, but the scale table of
  \<open>get_uint64_time\<close> has no terminating entry: for every other trailing character the scan runs past
  the end of the table.
\<close>

theorem get_uint64_time_units:
  assumes "n < 2 ^ 64" "\<not> isdigit ch"
  shows "get_uint64_time (show_nat n @ [ch]) = (case seconds_of (tolower ch) of
      Some k \<Rightarrow> Inr (of_nat (n * k)) | None \<Rightarrow> Inl Out_of_bounds)"
  unfolding get_uint64_time_def get_uint64_scale_decimal [OF assms] time_scale_find
  by (simp split: option.split)

theorem get_uint64_time_units_witness:
  "get_uint64_time ''10q'' = Inl Out_of_bounds \<and> get_uint64_time ''10h'' = Inr 36000"
  using get_uint64_time_units [of 10 "CHR ''q''"] get_uint64_time_units [of 10 "CHR ''h''"]
  by (simp add: scan_eval seconds_of_def)

end
