(* ===== verification/Settings.thy ===== *)
theory Settings
  imports Stress_Prelude
begin

text \<open>
  The option store of setting.c: a singly linked list with head and tail pointers, in a heap of
  \<open>setting_t\<close> nodes.  Every node remembers the stressor that was current when it was set.  The
  heap operations refine an append-only list of entries, and look-up is characterised as the last
  match among the entries that the current stressor sees.
\<close>

section \<open>Values and nodes\<close>

datatype setting_value =
    V_undefined
  | V_uint8 u8 | V_int8 "8 word"
  | V_uint16 u16 | V_int16 "16 word"
  | V_uint32 u32 | V_int32 "32 word"
  | V_uint64 u64 | V_int64 "64 word"
  | V_size u64 | V_ssize "64 word"
  | V_uint u32 | V_sint "32 word"
  | V_ulong u64 | V_slong "64 word"
  | V_off "64 word"
  | V_str string
  | V_boolean bool
  | V_uintptr u64

record setting_t =
  s_next :: "nat option"
  s_proc :: "nat option"
  s_name :: string
  s_val :: setting_value

record settings =
  s_heap :: "nat \<Rightarrow> setting_t option"
  setting_head :: "nat option"
  setting_tail :: "nat option"

datatype setting_error = Exit_not_success | Exit_no_resource

definition settings_init :: settings where
  "settings_init = \<lparr>s_heap = Map.empty, setting_head = None, setting_tail = None\<rparr>"

section \<open>Operations\<close>

text \<open>
  \<open>proc_current\<close> is the first argument (\<open>None\<close> is the null pointer); the next two are
  the results of \<open>calloc\<close> and of \<open>strdup\<close>.
\<close>

definition set_setting ::
  "nat option \<Rightarrow> nat option \<Rightarrow> bool \<Rightarrow> string \<Rightarrow> setting_value option \<Rightarrow> settings \<Rightarrow> setting_error + settings"
  where
  "set_setting proc_current mem dup_ok name value st =
    (case value of None \<Rightarrow> Inl Exit_not_success | Some v \<Rightarrow>
      (case mem of None \<Rightarrow> Inl Exit_no_resource | Some a \<Rightarrow>
        (if \<not> dup_ok then Inl Exit_no_resource
         else
          (let setting = \<lparr>s_next = None, s_proc = proc_current, s_name = name, s_val = v\<rparr>;
               h = (s_heap st)(a \<mapsto> setting)
           in case setting_tail st of
                Some t \<Rightarrow>
                  Inr (st\<lparr>s_heap := (case h t of Some n \<Rightarrow> h(t \<mapsto> n\<lparr>s_next := Some a\<rparr>) | None \<Rightarrow> h),
                          setting_tail := Some a\<rparr>)
              | None \<Rightarrow>
                  Inr (st\<lparr>s_heap := h, setting_head := Some a, setting_tail := Some a\<rparr>)))))"

text \<open>
  The scan of \<open>get_setting\<close>: the flags \<open>found\<close> and \<open>set\<close> (here \<open>isset\<close>) and the value written through the
  result pointer are its loop variables.  A dangling pointer has no result.
\<close>

partial_function (option) get_scan ::
  "(nat \<Rightarrow> setting_t option) \<Rightarrow> nat option \<Rightarrow> string \<Rightarrow> nat option \<Rightarrow> bool \<Rightarrow> bool \<Rightarrow>
    setting_value option \<Rightarrow> (bool \<times> setting_value option) option" where
  "get_scan h proc_current name cur found isset out =
    (case cur of None \<Rightarrow> Some (isset, out) | Some a \<Rightarrow>
      (case h a of None \<Rightarrow> None | Some s \<Rightarrow>
        (if (found \<or> s_proc s = proc_current) \<and> s_proc s \<noteq> proc_current then Some (isset, out)
         else if s_name s = name
         then get_scan h proc_current name (s_next s) (found \<or> s_proc s = proc_current) True
                (if s_val s = V_undefined then out else Some (s_val s))
         else get_scan h proc_current name (s_next s) (found \<or> s_proc s = proc_current) isset out)))"

declare get_scan.simps [code]

definition get_setting :: "nat option \<Rightarrow> string \<Rightarrow> settings \<Rightarrow> (bool \<times> setting_value option) option" where
  "get_setting proc_current name st =
    get_scan (s_heap st) proc_current name (setting_head st) False False None"

partial_function (option) free_scan ::
  "(nat \<Rightarrow> setting_t option) \<Rightarrow> nat option \<Rightarrow> (nat \<Rightarrow> setting_t option) option" where
  "free_scan h cur =
    (case cur of None \<Rightarrow> Some h | Some a \<Rightarrow>
      (case h a of None \<Rightarrow> None | Some s \<Rightarrow> free_scan (h(a := None)) (s_next s)))"

declare free_scan.simps [code]

definition free_settings :: "settings \<Rightarrow> settings option" where
  "free_settings st =
    (case free_scan (s_heap st) (setting_head st) of None \<Rightarrow> None
     | Some h \<Rightarrow> Some (st\<lparr>s_heap := h, setting_head := None, setting_tail := None\<rparr>))"

section \<open>Abstraction\<close>

type_synonym entry = "nat option \<times> string \<times> setting_value"

text \<open>The nodes reached from a pointer, in order, with the entries they hold.\<close>

fun nodes :: "(nat \<Rightarrow> setting_t option) \<Rightarrow> nat option \<Rightarrow> nat list \<Rightarrow> entry list \<Rightarrow> bool" where
  "nodes h p [] [] = (p = None)"
| "nodes h p (a # as) ((q, n, v) # es) = (p = Some a \<and>
    (case h a of None \<Rightarrow> False
     | Some s \<Rightarrow> s_proc s = q \<and> s_name s = n \<and> s_val s = v \<and> nodes h (s_next s) as es))"
| "nodes h p _ _ = False"

definition settings_rel :: "settings \<Rightarrow> nat list \<Rightarrow> entry list \<Rightarrow> bool" where
  "settings_rel st as es \<longleftrightarrow> nodes (s_heap st) (setting_head st) as es \<and> distinct as \<and>
    setting_tail st = (if as = [] then None else Some (last as))"

lemma nodes_cong:
  "(\<And>a. a \<in> set as \<Longrightarrow> h a = h' a) \<Longrightarrow> nodes h p as es = nodes h' p as es"
  by (induction h p as es rule: nodes.induct) (auto split: option.splits)

lemma nodes_allocated: "nodes h p as es \<Longrightarrow> a \<in> set as \<Longrightarrow> h a \<noteq> None"
  by (induction h p as es rule: nodes.induct) (auto split: option.splits)

lemma nodes_snoc:
  assumes "nodes h p as es" "as \<noteq> []" "distinct as" "a \<notin> set as" "h a = Some s" "s_next s = None"
    and "h (last as) = Some n"
  shows "nodes (h(last as \<mapsto> n\<lparr>s_next := Some a\<rparr>)) p (as @ [a]) (es @ [(s_proc s, s_name s, s_val s)])"
  using assms
proof (induction h p as es rule: nodes.induct)
  case (2 h p b bs q m v es)
  show ?case
  proof (cases "bs = []")
    case True
    with 2 show ?thesis by (cases es) (auto split: option.splits)
  next
    case False
    obtain sb where sb: "h b = Some sb" "s_proc sb = q" "s_name sb = m" "s_val sb = v"
      "nodes h (s_next sb) bs es" "p = Some b"
      using 2(2) by (auto split: option.splits)
    have "b \<noteq> last bs" using 2(4) False by auto
    then show ?thesis
      using 2 sb False by simp
  qed
qed auto

lemma settings_rel_init: "settings_rel settings_init [] []"
  by (simp add: settings_rel_def settings_init_def)

lemma set_setting_rel:
  assumes "settings_rel st as es" "s_heap st a = None"
  shows "\<exists>st'. set_setting pc (Some a) True name (Some v) st = Inr st' \<and>
    settings_rel st' (as @ [a]) (es @ [(pc, name, v)])"
proof -
  let ?s = "\<lparr>s_next = None, s_proc = pc, s_name = name, s_val = v\<rparr>"
  let ?h = "(s_heap st)(a \<mapsto> ?s)"
  have n: "nodes (s_heap st) (setting_head st) as es" "distinct as"
    and t: "setting_tail st = (if as = [] then None else Some (last as))"
    using assms(1) by (auto simp: settings_rel_def)
  have a: "a \<notin> set as" using nodes_allocated [OF n(1)] assms(2) by blast
  have n': "nodes ?h (setting_head st) as es"
    using n(1) a by (subst nodes_cong [of as _ "s_heap st"]) auto
  show ?thesis
  proof (cases "as = []")
    case True
    then have "es = []" using n(1) by (cases es) auto
    then show ?thesis using True t by (simp add: set_setting_def settings_rel_def)
  next
    case False
    then obtain m where m: "?h (last as) = Some m"
      using nodes_allocated [OF n' last_in_set] by blast
    show ?thesis
      using nodes_snoc [OF n' False n(2) a, of ?s m] False t a m n(2)
      by (simp add: set_setting_def settings_rel_def)
  qed
qed

section \<open>Look-up and release\<close>

text \<open>
  The entries the current stressor sees: everything before its first own entry, and the run of
  entries it set from there on.
\<close>

definition visible :: "nat option \<Rightarrow> entry list \<Rightarrow> entry list" where
  "visible pc es = takeWhile (\<lambda>e. fst e \<noteq> pc) es @
     takeWhile (\<lambda>e. fst e = pc) (dropWhile (\<lambda>e. fst e \<noteq> pc) es)"

text \<open>Whether a look-up succeeds, and the last defined value bound to the name.\<close>

definition lookup_in :: "string \<Rightarrow> entry list \<Rightarrow> bool \<times> setting_value option" where
  "lookup_in name es =
    (let ms = filter (\<lambda>e. fst (snd e) = name) es;
         vs = filter (\<lambda>v. v \<noteq> V_undefined) (map (snd \<circ> snd) ms)
     in (ms \<noteq> [], if vs = [] then None else Some (last vs)))"

definition merge_lookup where
  "merge_lookup a b = (fst a \<or> fst b, case snd b of None \<Rightarrow> snd a | Some v \<Rightarrow> Some v)"

lemma lookup_in_Nil [simp]: "lookup_in name [] = (False, None)"
  by (simp add: lookup_in_def)

lemma merge_lookup_unit [simp]: "merge_lookup a (False, None) = a"
  by (cases a) (simp add: merge_lookup_def)

lemma lookup_in_Cons:
  "merge_lookup (b, u) (lookup_in name ((q, n, v) # es)) =
   merge_lookup (if n = name then (True, if v = V_undefined then u else Some v) else (b, u)) (lookup_in name es)"
  by (auto simp: lookup_in_def merge_lookup_def Let_def)

lemma get_scan_run:
  "nodes h p as es \<Longrightarrow>
   get_scan h pc name p True b u = Some (merge_lookup (b, u) (lookup_in name (takeWhile (\<lambda>e. fst e = pc) es)))"
proof (induction h p as es arbitrary: b u rule: nodes.induct)
  case (1 h p)
  then show ?case by (simp add: get_scan.simps [of _ _ _ None])
next
  case (2 h p a as q n v es)
  then obtain s where s: "h a = Some s" "p = Some a" "s_proc s = q" "s_name s = n" "s_val s = v"
    "nodes h (s_next s) as es" by (auto split: option.splits)
  show ?case
    using s(1,3-) 2(1) [OF s(1) s(6)] unfolding s(2)
    by (subst get_scan.simps) (auto simp: lookup_in_Cons)
qed auto

lemma get_scan_visible:
  "nodes h p as es \<Longrightarrow>
   get_scan h pc name p False b u = Some (merge_lookup (b, u) (lookup_in name (visible pc es)))"
proof (induction h p as es arbitrary: b u rule: nodes.induct)
  case (1 h p)
  then show ?case by (simp add: get_scan.simps [of _ _ _ None] visible_def)
next
  case (2 h p a as q n v es)
  then obtain s where s: "h a = Some s" "p = Some a" "s_proc s = q" "s_name s = n" "s_val s = v"
    "nodes h (s_next s) as es" by (auto split: option.splits)
  show ?case
    using s(1,3-) 2(1) [OF s(1) s(6)] get_scan_run [OF s(6)] unfolding s(2)
    by (subst get_scan.simps) (auto simp: lookup_in_Cons visible_def)
qed auto

lemma merge_lookup_start [simp]: "merge_lookup (False, None) b = b"
  by (cases b) (simp add: merge_lookup_def split: option.split)

lemma get_setting_lookup:
  "settings_rel st as es \<Longrightarrow> get_setting pc name st = Some (lookup_in name (visible pc es))"
  unfolding settings_rel_def get_setting_def
  using get_scan_visible [of _ _ as es pc name False None] by simp

lemma free_scan_nodes:
  "nodes h p as es \<Longrightarrow> distinct as \<Longrightarrow> free_scan h p = Some (\<lambda>a. if a \<in> set as then None else h a)"
proof (induction as arbitrary: h p es)
  case Nil
  then show ?case by (cases es) (simp_all add: free_scan.simps)
next
  case (Cons a as)
  then obtain s es' where s: "h a = Some s" "p = Some a" "nodes h (s_next s) as es'"
    by (cases es) (auto split: option.splits)
  have "nodes (h(a := None)) (s_next s) as es'"
    using s(3) Cons.prems(2) by (subst nodes_cong [of as _ h]) auto
  then have "free_scan (h(a := None)) (s_next s) = Some (\<lambda>b. if b \<in> set as then None else (h(a := None)) b)"
    by (rule Cons.IH) (use Cons.prems(2) in simp)
  also have "(\<lambda>b. if b \<in> set as then None else (h(a := None)) b) =
      (\<lambda>b. if b \<in> set (a # as) then None else h b)" by auto
  finally show ?case
    unfolding s(2) by (subst free_scan.simps) (simp only: option.case s(1))
qed

lemma free_settings_rel:
  assumes "settings_rel st as es"
  shows "\<exists>st'. free_settings st = Some st' \<and> settings_rel st' [] [] \<and>
    s_heap st' = (\<lambda>a. if a \<in> set as then None else s_heap st a)"
  using assms free_scan_nodes [of "s_heap st" "setting_head st" as es]
  by (simp add: settings_rel_def free_settings_def)

section \<open>The store as an interface\<close>

text \<open>The entries of a stressor, if it has any, are the last ones.\<close>

definition own_last :: "nat option \<Rightarrow> entry list \<Rightarrow> bool" where
  "own_last pc es \<longleftrightarrow> list_all (\<lambda>e. fst e = pc) (dropWhile (\<lambda>e. fst e \<noteq> pc) es)"

lemma visible_own_last:
  assumes "own_last pc es"
  shows "visible pc es = es" "visible pc (es @ [(pc, e)]) = es @ [(pc, e)]"
proof -
  let ?f = "\<lambda>e :: entry. fst e \<noteq> pc" and ?g = "\<lambda>e :: entry. fst e = pc"
  have d: "list_all ?g (dropWhile ?f es)" using assms by (simp add: own_last_def)
  then have "takeWhile ?g (dropWhile ?f es) = dropWhile ?f es"
    unfolding list_all_iff takeWhile_eq_all_conv .
  then show "visible pc es = es" unfolding visible_def by (simp only: takeWhile_dropWhile_id)
  show "visible pc (es @ [(pc, e)]) = es @ [(pc, e)]"
  proof (cases "\<forall>x \<in> set es. ?f x")
    case True
    then show ?thesis by (simp add: visible_def takeWhile_append dropWhile_append)
  next
    case False
    then have "takeWhile ?f (es @ [(pc, e)]) = takeWhile ?f es"
      "dropWhile ?f (es @ [(pc, e)]) = dropWhile ?f es @ [(pc, e)]"
      by (auto simp: takeWhile_append dropWhile_append)
    moreover have "list_all ?g (dropWhile ?f es @ [(pc, e)])"
      using d by (simp only: list_all_append list.pred_inject fst_conv simp_thms)
    then have "takeWhile ?g (dropWhile ?f es @ [(pc, e)]) = dropWhile ?f es @ [(pc, e)]"
      unfolding list_all_iff takeWhile_eq_all_conv .
    ultimately show ?thesis
      unfolding visible_def by (simp only: append_assoc [symmetric] takeWhile_dropWhile_id)
  qed
qed

locale option_store =
  fixes rel :: "'s \<Rightarrow> entry list \<Rightarrow> bool"
    and fresh :: "nat \<Rightarrow> 's \<Rightarrow> bool"
    and put :: "nat option \<Rightarrow> nat \<Rightarrow> string \<Rightarrow> setting_value \<Rightarrow> 's \<Rightarrow> 's option"
    and get :: "nat option \<Rightarrow> string \<Rightarrow> 's \<Rightarrow> (bool \<times> setting_value option) option"
  assumes put_rel: "rel s es \<Longrightarrow> fresh a s \<Longrightarrow>
      \<exists>s'. put pc a name v s = Some s' \<and> rel s' (es @ [(pc, name, v)])"
    and get_rel: "rel s es \<Longrightarrow> get pc name s = Some (lookup_in name (visible pc es))"
begin

lemma put_then_get:
  assumes "rel s es" "fresh a s" "own_last pc es" "v \<noteq> V_undefined"
  shows "\<exists>s'. put pc a name v s = Some s' \<and> get pc name s' = Some (True, Some v) \<and>
    (\<forall>other. other \<noteq> name \<longrightarrow> get pc other s' = get pc other s)"
proof -
  obtain s' where s': "put pc a name v s = Some s'" "rel s' (es @ [(pc, name, v)])"
    using put_rel assms(1,2) by blast
  show ?thesis
    using s' assms(4) by (auto simp: get_rel [OF s'(2)] get_rel [OF assms(1)]
      visible_own_last [OF assms(3)] lookup_in_def Let_def)
qed

end

interpretation heap_store: option_store "\<lambda>st es. \<exists>as. settings_rel st as es"
  "\<lambda>a st. s_heap st a = None"
  "\<lambda>pc a name v st. case set_setting pc (Some a) True name (Some v) st of Inl _ \<Rightarrow> None | Inr st' \<Rightarrow> Some st'"
  get_setting
proof (unfold_locales, goal_cases)
  case (1 st es a pc name v)
  then obtain as where "settings_rel st as es" "s_heap st a = None" by blast
  from set_setting_rel [OF this, of pc name v] show ?case by auto
next
  case (2 st es pc name)
  then show ?case using get_setting_lookup by blast
qed

section \<open>Properties\<close>

text \<open>
  C14: The linked list refines a list of entries: setting appends one entry whatever the current
  stressor, look-up returns the last defined match among the entries visible to the current stressor
  and always terminates, and freeing releases exactly the nodes of the list and empties it.
\<close>

theorem settings_refine:
  assumes "settings_rel st as es" "s_heap st a = None"
  shows "(\<exists>st'. set_setting pc (Some a) True name (Some v) st = Inr st' \<and>
      settings_rel st' (as @ [a]) (es @ [(pc, name, v)]))
    \<and> get_setting pc name st = Some (lookup_in name (visible pc es))
    \<and> (\<exists>st'. free_settings st = Some st' \<and> settings_rel st' [] [] \<and>
      s_heap st' = (\<lambda>a. if a \<in> set as then None else s_heap st a))"
  using set_setting_rel [OF assms] get_setting_lookup [OF assms(1)] free_settings_rel [OF assms(1)]
  by blast

theorem settings_refine_witness:
  "settings_rel settings_init [] [] \<and>
   (\<exists>st'. set_setting (Some 4) (Some 7) True ''vm-bytes'' (Some (V_size 4096)) settings_init = Inr st' \<and>
      settings_rel st' [7] [(Some 4, ''vm-bytes'', V_size 4096)])"
  using settings_refine [of settings_init "[]" "[]" 7 "Some 4" "''vm-bytes''" "V_size 4096"] settings_rel_init
  by (simp add: settings_init_def)

text \<open>
  As long as the entries of the current stressor are the last ones, a setting that was just set
  is what look-up of its name returns, and no other name is affected.
\<close>

theorem set_then_get_setting:
  assumes "settings_rel st as es" "s_heap st a = None" "own_last pc es" "v \<noteq> V_undefined"
  shows "\<exists>st'. set_setting pc (Some a) True name (Some v) st = Inr st' \<and>
    get_setting pc name st' = Some (True, Some v) \<and>
    (\<forall>other. other \<noteq> name \<longrightarrow> get_setting pc other st' = get_setting pc other st)"
  using heap_store.put_then_get [of st es a pc v name] assms
  by (cases "set_setting pc (Some a) True name (Some v) st") (simp_all, blast+)

theorem set_then_get_setting_witness:
  "\<exists>st'. set_setting None (Some 3) True ''cpu-load'' (Some (V_sint 50)) settings_init = Inr st' \<and>
    get_setting None ''cpu-load'' st' = Some (True, Some (V_sint 50))"
  using set_then_get_setting [of settings_init "[]" "[]" 3 None "V_sint 50" "''cpu-load''"] settings_rel_init
  by (auto simp: settings_init_def own_last_def)

end
