(* ===== verification/Opt_Flags.thy ===== *)
theory Opt_Flags
  imports Stress_Prelude
begin

text \<open>
  The option bit masks of stress-ng.h, held in the 64 bit global \<open>g_opt_flags\<close>: the table of all flags, the
  flags that the other theories name, the composite masks, and the fact that each option has a bit of its own.
\<close>

section \<open>Flags\<close>

definition PR_ERROR :: u64 where "PR_ERROR = 0x00000000000001"
definition PR_INFO :: u64 where "PR_INFO = 0x00000000000002"
definition PR_DEBUG :: u64 where "PR_DEBUG = 0x00000000000004"
definition PR_FAIL :: u64 where "PR_FAIL = 0x00000000000008"
definition OPT_FLAGS_DRY_RUN :: u64 where "OPT_FLAGS_DRY_RUN = 0x00000000000020"
definition OPT_FLAGS_VM_KEEP :: u64 where "OPT_FLAGS_VM_KEEP = 0x00000000000080"
definition OPT_FLAGS_RANDOM :: u64 where "OPT_FLAGS_RANDOM = 0x00000000000100"
definition OPT_FLAGS_SET :: u64 where "OPT_FLAGS_SET = 0x00000000000200"
definition OPT_FLAGS_METRICS_BRIEF :: u64 where "OPT_FLAGS_METRICS_BRIEF = 0x00000000001000"
definition OPT_FLAGS_VERIFY :: u64 where "OPT_FLAGS_VERIFY = 0x00000000002000"
definition OPT_FLAGS_MMAP_MINCORE :: u64 where "OPT_FLAGS_MMAP_MINCORE = 0x00000000008000"
definition OPT_FLAGS_MINIMIZE :: u64 where "OPT_FLAGS_MINIMIZE = 0x00000080000000"
definition OPT_FLAGS_MAXIMIZE :: u64 where "OPT_FLAGS_MAXIMIZE = 0x00000100000000"
definition OPT_FLAGS_AGGRESSIVE :: u64 where "OPT_FLAGS_AGGRESSIVE = 0x00000400000000"
definition OPT_FLAGS_ALL :: u64 where "OPT_FLAGS_ALL = 0x00002000000000"
definition OPT_FLAGS_SEQUENTIAL :: u64 where "OPT_FLAGS_SEQUENTIAL = 0x00004000000000"
definition OPT_FLAGS_IGNITE_CPU :: u64 where "OPT_FLAGS_IGNITE_CPU = 0x00800000000000"
definition OPT_FLAGS_PATHOLOGICAL :: u64 where "OPT_FLAGS_PATHOLOGICAL = 0x01000000000000"
definition OPT_FLAGS_THRASH :: u64 where "OPT_FLAGS_THRASH = 0x04000000000000"
definition OPT_FLAGS_ABORT :: u64 where "OPT_FLAGS_ABORT = 0x10000000000000"

text \<open>All flags by name.\<close>

definition opt_flags :: "(string \<times> u64) list" where
  "opt_flags =
    [(''PR_ERROR'', PR_ERROR), (''PR_INFO'', PR_INFO),
     (''PR_DEBUG'', PR_DEBUG), (''PR_FAIL'', PR_FAIL),
     (''OPT_FLAGS_AFFINITY_RAND'', 0x10), (''OPT_FLAGS_DRY_RUN'', OPT_FLAGS_DRY_RUN),
     (''OPT_FLAGS_METRICS'', 0x40), (''OPT_FLAGS_VM_KEEP'', OPT_FLAGS_VM_KEEP),
     (''OPT_FLAGS_RANDOM'', OPT_FLAGS_RANDOM), (''OPT_FLAGS_SET'', OPT_FLAGS_SET),
     (''OPT_FLAGS_KEEP_NAME'', 0x400), (''OPT_FLAGS_UTIME_FSYNC'', 0x800),
     (''OPT_FLAGS_METRICS_BRIEF'', OPT_FLAGS_METRICS_BRIEF), (''OPT_FLAGS_VERIFY'', OPT_FLAGS_VERIFY),
     (''OPT_FLAGS_MMAP_MADVISE'', 0x4000), (''OPT_FLAGS_MMAP_MINCORE'', OPT_FLAGS_MMAP_MINCORE),
     (''OPT_FLAGS_TIMES'', 0x10000), (''OPT_FLAGS_CACHE_PREFETCH'', 0x20000),
     (''OPT_FLAGS_CACHE_FLUSH'', 0x40000), (''OPT_FLAGS_CACHE_FENCE'', 0x80000),
     (''OPT_FLAGS_MMAP_FILE'', 0x100000), (''OPT_FLAGS_MMAP_ASYNC'', 0x200000),
     (''OPT_FLAGS_MMAP_MPROTECT'', 0x400000), (''OPT_FLAGS_LOCKF_NONBLK'', 0x800000),
     (''OPT_FLAGS_MINCORE_RAND'', 0x1000000), (''OPT_FLAGS_BRK_NOTOUCH'', 0x2000000),
     (''OPT_FLAGS_HDD_SYNC'', 0x4000000), (''OPT_FLAGS_HDD_DSYNC'', 0x8000000),
     (''OPT_FLAGS_HDD_DIRECT'', 0x10000000), (''OPT_FLAGS_HDD_NOATIME'', 0x20000000),
     (''OPT_FLAGS_STACK_FILL'', 0x40000000), (''OPT_FLAGS_MINIMIZE'', OPT_FLAGS_MINIMIZE),
     (''OPT_FLAGS_MAXIMIZE'', OPT_FLAGS_MAXIMIZE), (''OPT_FLAGS_SYSLOG'', 0x200000000),
     (''OPT_FLAGS_AGGRESSIVE'', OPT_FLAGS_AGGRESSIVE), (''OPT_FLAGS_TIMER_RAND'', 0x800000000),
     (''OPT_FLAGS_TIMERFD_RAND'', 0x1000000000), (''OPT_FLAGS_ALL'', OPT_FLAGS_ALL),
     (''OPT_FLAGS_SEQUENTIAL'', OPT_FLAGS_SEQUENTIAL), (''OPT_FLAGS_PERF_STATS'', 0x8000000000),
     (''OPT_FLAGS_LOG_BRIEF'', 0x10000000000), (''OPT_FLAGS_THERMAL_ZONES'', 0x20000000000),
     (''OPT_FLAGS_TIMER_SLACK'', 0x40000000000), (''OPT_FLAGS_SOCKET_NODELAY'', 0x80000000000),
     (''OPT_FLAGS_UDP_LITE'', 0x100000000000), (''OPT_FLAGS_SEEK_PUNCH'', 0x200000000000),
     (''OPT_FLAGS_CACHE_NOAFF'', 0x400000000000), (''OPT_FLAGS_IGNITE_CPU'', OPT_FLAGS_IGNITE_CPU),
     (''OPT_FLAGS_PATHOLOGICAL'', OPT_FLAGS_PATHOLOGICAL), (''OPT_FLAGS_NO_RAND_SEED'', 0x2000000000000),
     (''OPT_FLAGS_THRASH'', OPT_FLAGS_THRASH), (''OPT_FLAGS_OOMABLE'', 0x8000000000000),
     (''OPT_FLAGS_ABORT'', OPT_FLAGS_ABORT), (''OPT_FLAGS_CPU_ONLINE_ALL'', 0x20000000000000),
     (''OPT_FLAGS_SGX_VM_KEEP'', 0x40000000000000)]"


section \<open>Masks\<close>

definition flag_mask :: "string list \<Rightarrow> u64" where
  "flag_mask ns = foldr (\<lambda>n m. the (map_of opt_flags n) OR m) ns 0"

definition PR_ALL :: u64 where
  "PR_ALL = PR_ERROR OR PR_INFO OR PR_DEBUG OR PR_FAIL"

definition OPT_FLAGS_CACHE_MASK :: u64 where
  "OPT_FLAGS_CACHE_MASK = flag_mask [''OPT_FLAGS_CACHE_FLUSH'', ''OPT_FLAGS_CACHE_FENCE'', ''OPT_FLAGS_CACHE_PREFETCH'']"

definition OPT_FLAGS_MINMAX_MASK :: u64 where
  "OPT_FLAGS_MINMAX_MASK = OPT_FLAGS_MINIMIZE OR OPT_FLAGS_MAXIMIZE"

definition OPT_FLAGS_AGGRESSIVE_MASK :: u64 where
  "OPT_FLAGS_AGGRESSIVE_MASK = flag_mask
    [''OPT_FLAGS_AFFINITY_RAND'', ''OPT_FLAGS_UTIME_FSYNC'', ''OPT_FLAGS_MMAP_MADVISE'', ''OPT_FLAGS_MMAP_MINCORE'',
     ''OPT_FLAGS_CACHE_FLUSH'', ''OPT_FLAGS_CACHE_FENCE'', ''OPT_FLAGS_MMAP_FILE'', ''OPT_FLAGS_MMAP_ASYNC'',
     ''OPT_FLAGS_MMAP_MPROTECT'', ''OPT_FLAGS_LOCKF_NONBLK'', ''OPT_FLAGS_MINCORE_RAND'', ''OPT_FLAGS_HDD_SYNC'',
     ''OPT_FLAGS_HDD_DSYNC'', ''OPT_FLAGS_HDD_DIRECT'', ''OPT_FLAGS_STACK_FILL'', ''OPT_FLAGS_CACHE_PREFETCH'',
     ''OPT_FLAGS_AGGRESSIVE'', ''OPT_FLAGS_IGNITE_CPU'']"

section \<open>Every flag is one bit\<close>

lemmas opt_flag_defs =
  PR_ERROR_def PR_INFO_def PR_DEBUG_def PR_FAIL_def
  OPT_FLAGS_DRY_RUN_def OPT_FLAGS_VM_KEEP_def OPT_FLAGS_RANDOM_def OPT_FLAGS_SET_def
  OPT_FLAGS_METRICS_BRIEF_def OPT_FLAGS_VERIFY_def OPT_FLAGS_MMAP_MINCORE_def OPT_FLAGS_MINIMIZE_def
  OPT_FLAGS_MAXIMIZE_def OPT_FLAGS_AGGRESSIVE_def OPT_FLAGS_ALL_def OPT_FLAGS_SEQUENTIAL_def
  OPT_FLAGS_IGNITE_CPU_def OPT_FLAGS_PATHOLOGICAL_def OPT_FLAGS_THRASH_def OPT_FLAGS_ABORT_def

lemma opt_flags_powers: "map snd opt_flags = map (\<lambda>i. push_bit i 1) [0..<55]"
  by (simp add: opt_flags_def opt_flag_defs upt_rec [of _ 55])

lemma opt_flags_disjoint:
  assumes "i < length opt_flags" "j < length opt_flags" "i \<noteq> j"
  shows "snd (opt_flags ! i) AND snd (opt_flags ! j) = 0"
proof -
  have l: "length opt_flags = 55" using arg_cong [OF opt_flags_powers, of length] by simp
  have "snd (opt_flags ! i) = push_bit i 1" if "i < 55" for i
    using arg_cong [OF opt_flags_powers, of "\<lambda>xs. xs ! i"] that by (simp add: l)
  then show ?thesis using assms l by (intro bit_eqI) (auto simp: bit_and_iff bit_exp_iff)
qed

end
