(* ===== verification/Job.thy ===== *)
theory Job
  imports C_Lib Opt_Flags
begin

text \<open>
  The job file parser of job.c: line reading, tokenising, the \<open>run\<close> command and the loop that
  turns each line into options.  The option parser it calls is a parameter; a parser that jumps to
  the error environment aborts the file like one that returns a failure.
\<close>

section \<open>Lines and tokens\<close>

definition MAX_ARGS :: nat where "MAX_ARGS = 64"

definition isblank :: "char \<Rightarrow> bool" where
  "isblank c \<longleftrightarrow> c = CHR '' '' \<or> c = CHR 0x09"

text \<open>The C string at the start of a buffer.\<close>

definition c_string :: "string \<Rightarrow> string" where
  "c_string buf = takeWhile (\<lambda>c. c \<noteq> CHR 0x00) buf"

definition chop :: "string \<Rightarrow> char \<Rightarrow> string" where
  "chop str ch = takeWhile (\<lambda>c. c \<noteq> ch) str"

text \<open>\<open>fgets\<close> into a buffer of \<open>n + 1\<close> bytes: what it stores, and the rest of the file.\<close>

fun fgets :: "nat \<Rightarrow> string \<Rightarrow> string \<times> string" where
  "fgets 0 inp = ([], inp)"
| "fgets (Suc n) [] = ([], [])"
| "fgets (Suc n) (c # inp) =
    (if c = CHR 0x0A then ([c], inp)
     else (case fgets n inp of (buf, rest) \<Rightarrow> (c # buf, rest)))"

lemma fgets_append: "fgets n inp = (buf, rest) \<Longrightarrow> inp = buf @ rest"
  by (induction n inp arbitrary: buf rest rule: fgets.induct) (auto split: if_splits prod.splits)

lemma fgets_shorter: "fgets (Suc n) (c # inp) = (buf, rest) \<Longrightarrow> length rest < Suc (length inp)"
  using fgets_append [of "Suc n" "c # inp" buf rest]
  by (cases buf) (auto split: if_splits prod.splits)

function fgets_lines :: "nat \<Rightarrow> string \<Rightarrow> string list" where
  "fgets_lines n [] = []"
| "fgets_lines n (c # inp) =
    (case fgets (Suc n) (c # inp) of (buf, rest) \<Rightarrow> buf # fgets_lines n rest)"
  by pat_completeness auto
termination
  by (relation "measure (length \<circ> snd)") (simp_all del: fgets.simps add: fgets_shorter [OF sym])

text \<open>
  The token loop: at most \<open>n\<close> further arguments are stored; the cursor is at a token or at the
  end of the string.
\<close>

function tokens :: "nat \<Rightarrow> string \<Rightarrow> string list" where
  "tokens n [] = []"
| "tokens 0 (c # cs) = []"
| "tokens (Suc n) (c # cs) =
    (let s = c # cs; rest = dropWhile (\<lambda>c. \<not> isblank c) s
     in takeWhile (\<lambda>c. \<not> isblank c) s #
        (if rest = [] then [] else tokens n (dropWhile isblank (tl rest))))"
  by pat_completeness auto
termination
  by (relation "measure fst") auto

definition tokenise :: "string \<Rightarrow> string list" where
  "tokenise buf = tokens (MAX_ARGS - 1) (dropWhile isblank buf)"

section \<open>The run command\<close>

definition RUN_SEQUENTIAL :: u32 where "RUN_SEQUENTIAL = 0x01"
definition RUN_PARALLEL :: u32 where "RUN_PARALLEL = 0x02"

text \<open>The result is the return code, the run flag of the job file and the option flags.\<close>

definition parse_run :: "string list \<Rightarrow> u32 \<Rightarrow> u64 \<Rightarrow> int \<times> u32 \<times> u64" where
  "parse_run argv flag opts =
    (if length argv < 3 then (0, flag, opts)
     else if argv ! 1 \<noteq> ''run'' then (0, flag, opts)
     else if argv ! 2 = ''sequential'' \<or> argv ! 2 = ''sequentially'' \<or> argv ! 2 = ''seq'' then
       (if flag AND RUN_PARALLEL \<noteq> 0 then (-1, flag, opts)
        else (1, flag OR RUN_SEQUENTIAL, opts OR OPT_FLAGS_SEQUENTIAL))
     else if argv ! 2 = ''parallel'' \<or> argv ! 2 = ''par'' \<or> argv ! 2 = ''together'' then
       (if flag AND RUN_SEQUENTIAL \<noteq> 0 then (-1, flag, opts)
        else (1, flag OR RUN_PARALLEL, (opts AND NOT OPT_FLAGS_SEQUENTIAL) OR OPT_FLAGS_ALL))
     else (-1, flag, opts))"

section \<open>The job file\<close>

datatype parse_outcome = PO_success | PO_failure | PO_longjmp

text \<open>The state of the parse: the global option flags, the line counter, and what the option parser keeps.\<close>

record 'o job_state =
  js_opt_flags :: u64
  js_lineno :: u32
  js_opts :: 'o

type_synonym 'o opts_parser = "string list \<Rightarrow> u64 \<times> 'o \<Rightarrow> parse_outcome \<times> u64 \<times> 'o"

text \<open>A line without its newline and its comment.\<close>

definition job_text :: "string \<Rightarrow> string" where
  "job_text buf = chop (chop (c_string buf) (CHR 0x0A)) (CHR ''#'')"

text \<open>One line: the return code (0 to go on, -1 to give up), the run flag, the state.\<close>

definition job_line :: "'o opts_parser \<Rightarrow> string \<Rightarrow> string \<Rightarrow> u32 \<Rightarrow> 'o job_state \<Rightarrow> int \<times> u32 \<times> 'o job_state" where
  "job_line parse_opts argv0 buf flag st0 =
    (let st = st0\<lparr>js_lineno := js_lineno st0 + 1\<rparr>; toks = tokenise (job_text buf)
     in if job_text buf = [] \<or> toks = [] then (0, flag, st)
        else if hd toks = ''job'' \<or> hd toks = ''j'' then (-1, flag, st)
        else (case parse_run (argv0 # toks) flag (js_opt_flags st) of (rc, flag', fl) \<Rightarrow>
          if rc < 0 then (-1, flag', st\<lparr>js_opt_flags := fl\<rparr>)
          else if rc = 1 then (0, flag', st\<lparr>js_opt_flags := fl\<rparr>)
          else (case parse_opts (argv0 # (''--'' @ hd toks) # tl toks) (fl, js_opts st) of (r, fl', o') \<Rightarrow>
            (if r = PO_success then 0 else -1, flag', st\<lparr>js_opt_flags := fl', js_opts := o'\<rparr>))))"

fun job_lines :: "'o opts_parser \<Rightarrow> string \<Rightarrow> string list \<Rightarrow> u32 \<Rightarrow> 'o job_state \<Rightarrow> int \<times> u32 \<times> 'o job_state" where
  "job_lines parse_opts argv0 [] flag st = (0, flag, st)"
| "job_lines parse_opts argv0 (buf # bufs) flag st =
    (case job_line parse_opts argv0 buf flag st of (rc, flag', st') \<Rightarrow>
      if rc < 0 then (rc, flag', st') else job_lines parse_opts argv0 bufs flag' st')"

text \<open>The file system maps a name to the contents of a readable file.\<close>

definition parse_jobfile ::
  "'o opts_parser \<Rightarrow> (string \<Rightarrow> string option) \<Rightarrow> string list \<Rightarrow> string option \<Rightarrow> 'o job_state \<Rightarrow> int \<times> 'o job_state"
  where
  "parse_jobfile parse_opts fopen argv jobfile st =
    (let run = (\<lambda>file. case job_lines parse_opts (argv ! 0) (fgets_lines 4094 file) 0 st of (rc, _, st') \<Rightarrow> (rc, st'))
     in case jobfile of
          None \<Rightarrow>
            (if length argv < 2 then (0, st)
             else (case fopen (argv ! 1) of None \<Rightarrow> (0, st) | Some file \<Rightarrow> run file))
        | Some name \<Rightarrow> (case fopen name of None \<Rightarrow> (-1, st) | Some file \<Rightarrow> run file))"

section \<open>Tokens\<close>

text \<open>The words of a line: its maximal runs of non-blank characters.\<close>

function line_words :: "string \<Rightarrow> string list" where
  "line_words [] = []"
| "line_words (c # cs) =
    (if isblank c then line_words cs
     else takeWhile (\<lambda>c. \<not> isblank c) (c # cs) # line_words (dropWhile (\<lambda>c. \<not> isblank c) cs))"
  by pat_completeness auto
termination
  by (relation "measure length") (auto simp: less_Suc_eq_le length_dropWhile_le)

lemma line_words_skip: "line_words (dropWhile isblank s) = line_words s"
  by (induction s) auto

lemma tokens_take:
  "s = [] \<or> \<not> isblank (hd s) \<Longrightarrow> tokens n s = take n (line_words s)"
proof (induction n s rule: tokens.induct)
  case (3 n c cs)
  let ?rest = "dropWhile (\<lambda>c. \<not> isblank c) (c # cs)"
  have c: "\<not> isblank c" using 3(2) by simp
  have "tokens n (dropWhile isblank (tl ?rest)) = take n (line_words ?rest)" if ne: "?rest \<noteq> []"
  proof -
    obtain b r where br: "?rest = b # r" using ne by (cases ?rest) auto
    have "isblank b" using hd_dropWhile [OF ne] br by auto
    moreover have "dropWhile isblank r = [] \<or> \<not> isblank (hd (dropWhile isblank r))"
      using hd_dropWhile by blast
    ultimately show ?thesis using 3(1) [OF refl refl ne] br by (simp add: line_words_skip)
  qed
  then show ?case using c by (cases "?rest = []") (simp_all add: Let_def del: dropWhile_eq_Nil_conv)
qed auto

lemma tokenise_words: "tokenise s = take 63 (line_words s)"
  unfolding tokenise_def MAX_ARGS_def
  using tokens_take [of "dropWhile isblank s" 63] hd_dropWhile [of isblank s]
  by (auto simp: line_words_skip)

section \<open>Runs of lines\<close>

lemma job_lines_append:
  "job_lines po a0 (xs @ ys) flag st =
    (case job_lines po a0 xs flag st of (rc, flag', st') \<Rightarrow>
      if rc < 0 then (rc, flag', st') else job_lines po a0 ys flag' st')"
  by (induction xs arbitrary: flag st) (auto split: prod.splits)

lemma job_line_rc: "fst (job_line po a0 buf flag st) \<in> {0, -1}"
  by (auto simp: job_line_def Let_def split: prod.splits)

lemma job_lines_rc: "fst (job_lines po a0 bufs flag st) \<in> {0, -1}"
proof (induction bufs arbitrary: flag st)
  case (Cons b bs)
  then show ?case using job_line_rc [of po a0 b flag st] by (auto split: prod.splits)
qed simp

lemma fgets_line:
  "length l \<le> n \<Longrightarrow> CHR 0x0A \<notin> set l \<Longrightarrow> fgets (Suc n) (l @ CHR 0x0A # rest) = (l @ [CHR 0x0A], rest)"
proof (induction l arbitrary: n)
  case (Cons c l)
  then obtain m where "n = Suc m" by (cases n) auto
  with Cons show ?case by auto
qed simp

lemma fgets_last:
  "length l \<le> n \<Longrightarrow> CHR 0x0A \<notin> set l \<Longrightarrow> fgets (Suc n) l = (l, [])"
proof (induction l arbitrary: n)
  case (Cons c l)
  then obtain m where "n = Suc m" by (cases n) auto
  with Cons show ?case by auto
qed simp

text \<open>A file whose lines fit the buffer is read line by line, whether or not the last one is terminated.\<close>

lemma fgets_lines_join_rest:
  assumes "length l \<le> n" "CHR 0x0A \<notin> set l"
  shows "fgets_lines n (l @ CHR 0x0A # rest) = (l @ [CHR 0x0A]) # fgets_lines n rest"
    "l \<noteq> [] \<Longrightarrow> fgets_lines n l = [l]"
  using fgets_line [OF assms, of rest] fgets_last [OF assms]
  by (cases l; simp del: fgets.simps)+

text \<open>A line that gives a run command of one of the two kinds.\<close>

definition run_line :: "string set \<Rightarrow> string \<Rightarrow> bool" where
  "run_line modes buf \<longleftrightarrow> (case tokenise (job_text buf) of
     cmd # mode # _ \<Rightarrow> cmd = ''run'' \<and> mode \<in> modes | _ \<Rightarrow> False)"

abbreviation seq_modes :: "string set" where
  "seq_modes \<equiv> {''sequential'', ''sequentially'', ''seq''}"

abbreviation par_modes :: "string set" where
  "par_modes \<equiv> {''parallel'', ''par'', ''together''}"

definition run_flags_ok :: "u32 \<Rightarrow> bool" where
  "run_flags_ok flag \<longleftrightarrow> flag \<in> {0, RUN_SEQUENTIAL, RUN_PARALLEL}"

lemmas run_defs = run_flags_ok_def RUN_SEQUENTIAL_def RUN_PARALLEL_def

lemma parse_run_flags:
  assumes "parse_run argv flag opts = (rc, flag', opts')" "run_flags_ok flag"
  shows "run_flags_ok flag'" "flag \<noteq> 0 \<Longrightarrow> flag' = flag"
  using assms by (auto simp: parse_run_def run_defs split: if_splits)

lemma job_line_flags:
  assumes "job_line po a0 buf flag st = (rc, flag', st')" "run_flags_ok flag"
  shows "run_flags_ok flag'" "flag \<noteq> 0 \<Longrightarrow> flag' = flag"
  using assms parse_run_flags
  by (auto simp: job_line_def Let_def split: if_splits prod.splits)

lemma run_flag_bits:
  "run_flags_ok flag \<Longrightarrow> (flag AND RUN_PARALLEL \<noteq> 0) = (flag = RUN_PARALLEL)"
  "run_flags_ok flag \<Longrightarrow> (flag AND RUN_SEQUENTIAL \<noteq> 0) = (flag = RUN_SEQUENTIAL)"
  "run_flags_ok flag \<Longrightarrow> flag \<noteq> RUN_PARALLEL \<Longrightarrow> flag OR RUN_SEQUENTIAL = RUN_SEQUENTIAL"
  "run_flags_ok flag \<Longrightarrow> flag \<noteq> RUN_SEQUENTIAL \<Longrightarrow> flag OR RUN_PARALLEL = RUN_PARALLEL"
  by (auto simp: run_defs)

lemma parse_run_modes:
  assumes "run_flags_ok flag"
  shows "mode \<in> seq_modes \<Longrightarrow> parse_run (a0 # ''run'' # mode # r) flag opts =
      (if flag = RUN_PARALLEL then (-1, flag, opts)
       else (1, RUN_SEQUENTIAL, opts OR OPT_FLAGS_SEQUENTIAL))"
    and "mode \<in> par_modes \<Longrightarrow> parse_run (a0 # ''run'' # mode # r) flag opts =
      (if flag = RUN_SEQUENTIAL then (-1, flag, opts)
       else (1, RUN_PARALLEL, (opts AND NOT OPT_FLAGS_SEQUENTIAL) OR OPT_FLAGS_ALL))"
  subgoal using run_flag_bits(1,3) [OF assms] unfolding parse_run_def by (simp only: insert_iff empty_iff) (elim disjE; simp)
  subgoal using run_flag_bits(2,4) [OF assms] unfolding parse_run_def by (simp only: insert_iff empty_iff) (elim disjE; simp)
  done

lemma job_line_run:
  assumes l: "job_line po a0 buf flag st = (rc, flag', st')" "\<not> rc < 0" and ok: "run_flags_ok flag"
  shows "run_line seq_modes buf \<Longrightarrow> flag' = RUN_SEQUENTIAL"
    "run_line par_modes buf \<Longrightarrow> flag' = RUN_PARALLEL"
proof -
  have *: "\<exists>mode r. tokenise (job_text buf) = ''run'' # mode # r \<and> mode \<in> modes \<and> job_text buf \<noteq> []"
    if "run_line modes buf" for modes
    using that by (cases "job_text buf") (auto simp: run_line_def tokenise_words split: list.splits)
  show "flag' = RUN_SEQUENTIAL" if "run_line seq_modes buf"
  proof -
    obtain mode r where t: "tokenise (job_text buf) = ''run'' # mode # r" "mode \<in> seq_modes" "job_text buf \<noteq> []"
      using * [OF \<open>run_line seq_modes buf\<close>] by blast
    show ?thesis using l parse_run_modes(1) [OF ok t(2)] t(1,3)
      by (auto simp: job_line_def Let_def split: if_splits)
  qed
  show "flag' = RUN_PARALLEL" if "run_line par_modes buf"
  proof -
    obtain mode r where t: "tokenise (job_text buf) = ''run'' # mode # r" "mode \<in> par_modes" "job_text buf \<noteq> []"
      using * [OF \<open>run_line par_modes buf\<close>] by blast
    show ?thesis using l parse_run_modes(2) [OF ok t(2)] t(1,3)
      by (auto simp: job_line_def Let_def split: if_splits)
  qed
qed

lemma job_lines_flags:
  assumes "job_lines po a0 bufs flag st = (rc, flag', st')" "run_flags_ok flag"
  shows "run_flags_ok flag' \<and> (flag \<noteq> 0 \<longrightarrow> flag' = flag)"
  using assms
proof (induction bufs arbitrary: flag st)
  case (Cons b bs)
  obtain r1 f1 s1 where l: "job_line po a0 b flag st = (r1, f1, s1)" by (cases "job_line po a0 b flag st")
  note fl = job_line_flags [OF l Cons.prems(2)]
  show ?case
  proof (cases "r1 < 0")
    case True
    then show ?thesis using l fl Cons.prems(1) by simp
  next
    case False
    then have "job_lines po a0 bs f1 s1 = (rc, flag', st')" using l Cons.prems(1) by simp
    from Cons.IH [OF this fl(1)] fl(2) show ?thesis by auto
  qed
qed simp

lemma job_lines_run:
  assumes "job_lines po a0 bufs flag st = (rc, flag', st')" "\<not> rc < 0" "run_flags_ok flag" "b \<in> set bufs"
  shows "(run_line seq_modes b \<longrightarrow> flag' = RUN_SEQUENTIAL) \<and> (run_line par_modes b \<longrightarrow> flag' = RUN_PARALLEL)"
  using assms
proof (induction bufs arbitrary: flag st)
  case (Cons c bs)
  obtain r1 f1 s1 where l: "job_line po a0 c flag st = (r1, f1, s1)" by (cases "job_line po a0 c flag st")
  with Cons.prems have r1: "\<not> r1 < 0" and rest: "job_lines po a0 bs f1 s1 = (rc, flag', st')"
    by (auto split: if_splits)
  have ok: "run_flags_ok f1" using job_line_flags(1) [OF l Cons.prems(3)] .
  note fl = job_lines_flags [OF rest ok] and jr = job_line_run [OF l r1 Cons.prems(3)]
  show ?case
  proof (cases "b \<in> set bs")
    case True
    then show ?thesis using Cons.IH [OF rest Cons.prems(2) ok] by blast
  next
    case False
    then have "b = c" using Cons.prems(4) by simp
    then show ?thesis using fl jr by (auto simp: run_defs)
  qed
qed simp

section \<open>Properties\<close>

text \<open>
  The destructive token loop of \<open>parse_jobfile\<close> yields the first 63 words of the line, a word
  being a maximal run of characters other than blank and tab.
\<close>

theorem tokenise_first_words: "tokenise buf = take 63 (line_words buf)"
  by (rule tokenise_words)

text \<open>
  A job file that contains both a sequential and a parallel run command, in any order and with
  anything around them, is rejected.
\<close>

theorem job_run_exclusive:
  assumes "fopen name = Some file"
    and "s \<in> set (fgets_lines 4094 file)" "run_line seq_modes s"
    and "p \<in> set (fgets_lines 4094 file)" "run_line par_modes p"
  shows "fst (parse_jobfile parse_opts fopen argv (Some name) st) = -1"
proof -
  obtain rc f st' where l: "job_lines parse_opts (argv ! 0) (fgets_lines 4094 file) 0 st = (rc, f, st')"
    by (cases "job_lines parse_opts (argv ! 0) (fgets_lines 4094 file) 0 st")
  have ok: "run_flags_ok 0" by (simp add: run_flags_ok_def)
  have "rc < 0"
  proof (rule ccontr)
    assume rc: "\<not> rc < 0"
    show False
      using job_lines_run [OF l rc ok assms(2)] job_lines_run [OF l rc ok assms(4)] assms(3,5)
      by (simp add: run_defs)
  qed
  then show ?thesis using job_lines_rc [of parse_opts "argv ! 0" "fgets_lines 4094 file" 0 st] l assms(1)
    by (simp add: parse_jobfile_def)
qed

lemmas job_eval = run_line_def job_text_def c_string_def chop_def tokenise_words isblank_def

lemma sample_job_lines:
  "fgets_lines 4094 (''run seq'' @ CHR 0x0A # ''cpu 4'' @ CHR 0x0A # ''run par'') =
    [''run seq'' @ [CHR 0x0A], ''cpu 4'' @ [CHR 0x0A], ''run par'']"
  using fgets_lines_join_rest(1) [of "''run seq''" 4094 "''cpu 4'' @ CHR 0x0A # ''run par''"]
    fgets_lines_join_rest(1) [of "''cpu 4''" 4094 "''run par''"]
    fgets_lines_join_rest(2) [of "''run par''" 4094]
  by (simp del: fgets_lines.simps)

theorem job_run_exclusive_witness:
  "fst (parse_jobfile (\<lambda>argv s. (PO_success, s))
     [''mix.job'' \<mapsto> ''run seq'' @ CHR 0x0A # ''cpu 4'' @ CHR 0x0A # ''run par'']
     [''stress-ng''] (Some ''mix.job'') \<lparr>js_opt_flags = 0, js_lineno = 0, js_opts = ()\<rparr>) = -1"
  by (rule job_run_exclusive [where s = "''run seq'' @ [CHR 0x0A]" and p = "''run par''", OF fun_upd_same])
    (simp_all only: sample_job_lines, simp_all add: job_eval)

end
