(* ===== verification/Vm_Mem.thy ===== *)
theory Vm_Mem
  imports Mwc Opt_Flags
begin

text \<open>
  The memory under test and the vocabulary the methods of stress-vm.c are written in: single
  accesses, the bit counting and rotation macros, the loop over a buffer with its two exits, page
  touching (mincore.c) and error reporting.

  The buffer is a list of bytes.  A cell function gives what a store leaves in a byte (the identity
  for sound memory, stuck-at faults otherwise); the fault injection hook of the source and the effect
  of row hammering are parameters of the same kind.  The keep-stressing flag may change at any
  moment, so it is a function of the number of times it was read.  Every access records
  whether it left the buffer.
\<close>

section \<open>Environment and state\<close>

record vm_env =
  vm_max_ops :: u64
  vm_keep :: "nat \<Rightarrow> bool"
  vm_cell :: "nat \<Rightarrow> u8 \<Rightarrow> u8"
  vm_inject :: "u8 list \<Rightarrow> u8 list"
  vm_hammer :: "nat \<Rightarrow> nat \<Rightarrow> u8 list \<Rightarrow> u8 list"
  vm_base :: u64
  vm_opt_flags :: u64
  vm_reseed_env :: mwc_env
  vm_page_size :: nat
  vm_vec_alloc :: bool
  vm_mincore :: "nat \<Rightarrow> (nat \<Rightarrow> bool) option"
  vm_swaps_alloc :: bool

record vm_st =
  vmem :: "u8 list"
  vmwc :: mwc_t
  vcount :: u64
  verrs :: u64
  vtick :: nat
  voob :: bool
  vfails :: "(string \<times> u64) list"
  gray_val :: u8
  incdec_val :: u8
  prime_incdec_val :: u8
  nybble_val :: u8
  write64_val :: u64
  rowhammer_val :: u32
  all_i :: nat

abbreviation vsz :: "vm_st \<Rightarrow> nat" where
  "vsz st \<equiv> length (vmem st)"

section \<open>Accesses\<close>

definition rd :: "u8 list \<Rightarrow> nat \<Rightarrow> u8" where
  "rd m i = (if i < length m then m ! i else 0)"

text \<open>A store, a read-modify-write, and \<open>bit_errors += (*p != val)\<close>, each noting its address.\<close>

definition vset :: "vm_env \<Rightarrow> nat \<Rightarrow> u8 \<Rightarrow> vm_st \<Rightarrow> vm_st" where
  "vset env i v st = st\<lparr>vmem := (vmem st)[i := vm_cell env i v], voob := voob st \<or> vsz st \<le> i\<rparr>"

definition vupd :: "vm_env \<Rightarrow> nat \<Rightarrow> (u8 \<Rightarrow> u8) \<Rightarrow> vm_st \<Rightarrow> vm_st" where
  "vupd env i f st = vset env i (f (rd (vmem st) i)) st"

definition vtest :: "nat \<Rightarrow> u8 \<Rightarrow> vm_st \<Rightarrow> vm_st" where
  "vtest i v st = st\<lparr>verrs := verrs st + of_bool (rd (vmem st) i \<noteq> v), voob := voob st \<or> vsz st \<le> i\<rparr>"

definition verr :: "u64 \<Rightarrow> vm_st \<Rightarrow> vm_st" where
  "verr n st = st\<lparr>verrs := verrs st + n\<rparr>"

text \<open>Eight byte accesses are little endian.\<close>

definition byte_n :: "nat \<Rightarrow> 'a::len word \<Rightarrow> u8" where
  "byte_n k v = ucast (drop_bit (8 * k) v)"

definition rd64 :: "u8 list \<Rightarrow> nat \<Rightarrow> u64" where
  "rd64 m i = foldr (\<lambda>k v. ucast (rd m (i + k)) OR push_bit 8 v) [0..<8] 0"

definition rd32 :: "u8 list \<Rightarrow> nat \<Rightarrow> u32" where
  "rd32 m i = foldr (\<lambda>k v. ucast (rd m (i + k)) OR push_bit 8 v) [0..<4] 0"

definition vset64 :: "vm_env \<Rightarrow> nat \<Rightarrow> u64 \<Rightarrow> vm_st \<Rightarrow> vm_st" where
  "vset64 env i v st = fold (\<lambda>k. vset env (i + k) (byte_n k v)) [0..<8] st"

definition vset32 :: "vm_env \<Rightarrow> nat \<Rightarrow> u32 \<Rightarrow> vm_st \<Rightarrow> vm_st" where
  "vset32 env i v st = fold (\<lambda>k. vset env (i + k) (byte_n k v)) [0..<4] st"

definition vread64 :: "nat \<Rightarrow> vm_st \<Rightarrow> u64 \<times> vm_st" where
  "vread64 i st = (rd64 (vmem st) i, st\<lparr>voob := voob st \<or> vsz st < i + 8\<rparr>)"

definition vread32 :: "nat \<Rightarrow> vm_st \<Rightarrow> u32 \<times> vm_st" where
  "vread32 i st = (rd32 (vmem st) i, st\<lparr>voob := voob st \<or> vsz st < i + 4\<rparr>)"

definition vmemset :: "vm_env \<Rightarrow> u8 \<Rightarrow> vm_st \<Rightarrow> vm_st" where
  "vmemset env v st = st\<lparr>vmem := map (\<lambda>i. vm_cell env i v) [0..<vsz st]\<rparr>"

section \<open>Macros\<close>

definition SET_AND_TEST :: "vm_env \<Rightarrow> nat \<Rightarrow> u8 \<Rightarrow> vm_st \<Rightarrow> vm_st" where
  "SET_AND_TEST env i v st = vtest i v (vset env i v st)"

definition ROR64 :: "u64 \<Rightarrow> u64" where
  "ROR64 v = drop_bit 1 v OR push_bit 63 (v AND 1)"

text \<open>The macro applied to a byte: widened to 64 bits, rotated there and truncated again.\<close>

definition ROR64_byte :: "u8 \<Rightarrow> u8" where
  "ROR64_byte v = ucast (ROR64 (ucast v))"

definition ROR8 :: "u8 \<Rightarrow> u8" where
  "ROR8 v = drop_bit 1 v OR push_bit 7 (v AND 1)"

definition INC_LO_NYBBLE :: "u8 \<Rightarrow> u8" where
  "INC_LO_NYBBLE v = (v AND 0xf0) OR ((v + 1) AND 0xf)"

definition INC_HI_NYBBLE :: "u8 \<Rightarrow> u8" where
  "INC_HI_NYBBLE v = (v AND 0x0f) OR ((v + 0xf0) AND 0xf0)"

definition UNSIGNED_ABS :: "u64 \<Rightarrow> u64 \<Rightarrow> u64" where
  "UNSIGNED_ABS a b = (if a > b then a - b else b - a)"

section \<open>Counting bits\<close>

function stress_vm_count_bits :: "u64 \<Rightarrow> u64" where
  "stress_vm_count_bits v = (if v = 0 then 0 else 1 + stress_vm_count_bits (v AND (v - 1)))"
  by pat_completeness auto
termination
  by (relation "measure unat") (auto intro: and_minus_one_less)

declare stress_vm_count_bits.simps [simp del]

section \<open>Loop control\<close>

definition read_keep :: "vm_env \<Rightarrow> vm_st \<Rightarrow> bool \<times> vm_st" where
  "read_keep env st = (vm_keep env (vtick st), st\<lparr>vtick := Suc (vtick st)\<rparr>)"

definition ops_done :: "vm_env \<Rightarrow> u64 \<Rightarrow> bool" where
  "ops_done env c \<longleftrightarrow> vm_max_ops env \<noteq> 0 \<and> vm_max_ops env \<le> c"

text \<open>
  The exits at the end of a loop body: \<open>if (!g_keep_stressing_flag)\<close>,
  \<open>c++; if (max_ops && c >= max_ops)\<close>, the second followed by the first, and the reverse order.
\<close>

definition exit_none :: "vm_st \<Rightarrow> bool \<times> vm_st" where
  "exit_none st = (False, st)"

definition exit_keep :: "vm_env \<Rightarrow> vm_st \<Rightarrow> bool \<times> vm_st" where
  "exit_keep env st = (case read_keep env st of (k, st') \<Rightarrow> (\<not> k, st'))"

definition exit_ops :: "vm_env \<Rightarrow> vm_st \<Rightarrow> bool \<times> vm_st" where
  "exit_ops env st = (let st' = st\<lparr>vcount := vcount st + 1\<rparr> in (ops_done env (vcount st'), st'))"

definition exit_ops_keep :: "vm_env \<Rightarrow> vm_st \<Rightarrow> bool \<times> vm_st" where
  "exit_ops_keep env st =
    (case exit_ops env st of (stop, st') \<Rightarrow> if stop then (True, st') else exit_keep env st')"

definition exit_keep_ops :: "vm_env \<Rightarrow> vm_st \<Rightarrow> bool \<times> vm_st" where
  "exit_keep_ops env st =
    (case exit_keep env st of (stop, st') \<Rightarrow> if stop then (True, st') else exit_ops env st')"

text \<open>A loop over positions: the result says whether it was left early.\<close>

fun vm_loop :: "('p \<Rightarrow> 's \<Rightarrow> 's) \<Rightarrow> ('s \<Rightarrow> bool \<times> 's) \<Rightarrow> 'p list \<Rightarrow> 's \<Rightarrow> bool \<times> 's" where
  "vm_loop body leave [] st = (False, st)"
| "vm_loop body leave (p # ps) st =
    (case leave (body p st) of (stop, st') \<Rightarrow> if stop then (True, st') else vm_loop body leave ps st')"

text \<open>\<open>for (ptr = buf; ptr < buf_end; ptr += k)\<close>\<close>

definition offsets :: "nat \<Rightarrow> nat \<Rightarrow> nat list" where
  "offsets k sz = map (\<lambda>n. n * k) [0..<(sz + k - 1) div k]"

section \<open>Page touching and reports\<close>

definition mincore_touch_pages_slow :: "vm_env \<Rightarrow> nat \<Rightarrow> vm_st \<Rightarrow> vm_st" where
  "mincore_touch_pages_slow env n_pages st =
    (let ps = map (\<lambda>i. i * vm_page_size env) [0..<n_pages]
     in fold (\<lambda>p. vupd env p (\<lambda>v. v - 1)) ps (fold (\<lambda>p. vupd env p (\<lambda>v. v + 1)) ps st))"

definition mincore_touch_pages :: "vm_env \<Rightarrow> vm_st \<Rightarrow> vm_st" where
  "mincore_touch_pages env st =
    (let n_pages = vsz st div vm_page_size env
     in if vm_opt_flags env AND OPT_FLAGS_MMAP_MINCORE = 0 then st
        else if n_pages < 1 then st
        else if \<not> vm_vec_alloc env then mincore_touch_pages_slow env n_pages st
        else (case vm_mincore env (vtick st) of
            None \<Rightarrow> mincore_touch_pages_slow env n_pages st
          | Some vec \<Rightarrow>
              (let ps = map (\<lambda>i. i * vm_page_size env) (filter (\<lambda>i. \<not> vec i) [0..<n_pages])
               in fold (\<lambda>p. vupd env p (\<lambda>v. v - 1)) ps (fold (\<lambda>p. vupd env p (\<lambda>v. v + 1)) ps st))))"

definition inject_random_bit_errors :: "vm_env \<Rightarrow> vm_st \<Rightarrow> vm_st" where
  "inject_random_bit_errors env st = st\<lparr>vmem := vm_inject env (vmem st)\<rparr>"

definition stress_vm_check :: "vm_env \<Rightarrow> string \<Rightarrow> vm_st \<Rightarrow> vm_st" where
  "stress_vm_check env name st =
    (if verrs st \<noteq> 0 \<and> vm_opt_flags env AND OPT_FLAGS_VERIFY \<noteq> 0
     then st\<lparr>vfails := vfails st @ [(name, verrs st)]\<rparr> else st)"

end
