(* ===== verification/Vm_Methods.thy ===== *)
theory Vm_Methods
  imports Vm_Mem
begin

text \<open>
  The memory test methods of stress-vm.c, in the order of the source.  A method takes the
  environment and the state and returns the number of bit errors it found with the new state; the
  two galloping pattern methods draw random positions until one is free and so may not return.
\<close>

section \<open>Shared pieces\<close>

text \<open>One pass after another, unless the first was aborted.\<close>

definition vm_then :: "bool \<times> 's \<Rightarrow> ('s \<Rightarrow> bool \<times> 's) \<Rightarrow> bool \<times> 's" where
  "vm_then r f = (case r of (stop, st) \<Rightarrow> if stop then (True, st) else f st)"

definition vm_go :: "'s \<Rightarrow> bool \<times> 's" where
  "vm_go st = (False, st)"

text \<open>The end of a method: report, return the number of bit errors.\<close>

definition vm_return :: "vm_env \<Rightarrow> string \<Rightarrow> vm_st \<Rightarrow> u64 \<times> vm_st" where
  "vm_return env name st = (let st' = stress_vm_check env name st in (verrs st', st'))"

definition vdraw :: "(mwc_t \<Rightarrow> 'v \<times> mwc_t) \<Rightarrow> vm_st \<Rightarrow> 'v \<times> vm_st" where
  "vdraw f st = (case f (vmwc st) of (v, m) \<Rightarrow> (v, st\<lparr>vmwc := m\<rparr>))"

definition vreseed :: "vm_env \<Rightarrow> vm_st \<Rightarrow> vm_st" where
  "vreseed env st = st\<lparr>vmwc := mwc_reseed (vm_reseed_env env) (vmwc st)\<rparr>"

definition vseed :: "u64 \<Rightarrow> u64 \<Rightarrow> vm_st \<Rightarrow> vm_st" where
  "vseed w z st = st\<lparr>vmwc := mwc_seed (ucast w) (ucast z) (vmwc st)\<rparr>"

text \<open>\<open>mwc_reseed(); w = mwc64(); z = mwc64();\<close>\<close>

definition vseeds :: "vm_env \<Rightarrow> vm_st \<Rightarrow> u64 \<times> u64 \<times> vm_st" where
  "vseeds env st =
    (let (w, st1) = vdraw mwc64 (vreseed env st); (z, st2) = vdraw mwc64 st1 in (w, z, st2))"

abbreviation errs0 :: "vm_st \<Rightarrow> vm_st" where
  "errs0 st \<equiv> st\<lparr>verrs := 0\<rparr>"

text \<open>Eight stores, or eight tests, of one value; and eight read-modify-writes.\<close>

definition vset8 :: "vm_env \<Rightarrow> nat \<Rightarrow> u8 \<Rightarrow> vm_st \<Rightarrow> vm_st" where
  "vset8 env p v st = fold (\<lambda>k. vset env (p + k) v) [0..<8] st"

definition vtest8 :: "nat \<Rightarrow> u8 \<Rightarrow> vm_st \<Rightarrow> vm_st" where
  "vtest8 p v st = fold (\<lambda>k. vtest (p + k) v) [0..<8] st"

definition vupd8 :: "vm_env \<Rightarrow> nat \<Rightarrow> (u8 \<Rightarrow> u8) \<Rightarrow> vm_st \<Rightarrow> vm_st" where
  "vupd8 env p f st = fold (\<lambda>k. vupd env (p + k) f) [0..<8] st"

text \<open>\<open>bit_errors += stress_vm_count_bits(f(*(ptr + k)))\<close> for eight 64 bit words.\<close>

definition vbits8 :: "(u64 \<Rightarrow> u64) \<Rightarrow> nat \<Rightarrow> vm_st \<Rightarrow> vm_st" where
  "vbits8 f p st = fold (\<lambda>k st. case vread64 (p + 8 * k) st of
     (x, st') \<Rightarrow> verr (stress_vm_count_bits (f x)) st') [0..<8] st"

section \<open>Moving inversion\<close>

definition minv_fill :: "vm_env \<Rightarrow> nat \<Rightarrow> vm_st \<Rightarrow> vm_st" where
  "minv_fill env p st = (case vdraw mwc64 st of (v, st') \<Rightarrow> vset64 env p v st')"

definition minv_test :: "(u64 \<Rightarrow> u64) \<Rightarrow> nat \<Rightarrow> vm_st \<Rightarrow> vm_st" where
  "minv_test f p st =
    (let (v, st1) = vdraw mwc64 st; (x, st2) = vread64 p st1 in verr (of_bool (x \<noteq> f v)) st2)"

definition minv_test_invert :: "vm_env \<Rightarrow> nat \<Rightarrow> vm_st \<Rightarrow> vm_st" where
  "minv_test_invert env p st =
    (let (v, st1) = vdraw mwc64 st; (x, st2) = vread64 p st1
     in vset64 env p (NOT v) (verr (of_bool (x \<noteq> v)) st2))"

definition stress_vm_moving_inversion :: "vm_env \<Rightarrow> vm_st \<Rightarrow> u64 \<times> vm_st" where
  "stress_vm_moving_inversion env st0 =
    (let ps = offsets 8 (vsz st0);
         (w, z, st1) = vseeds env st0;
         st2 = snd (vm_loop (minv_fill env) exit_none ps (vseed w z st1))
     in vm_return env ''moving inversion'' (snd
      (vm_then (vm_loop (minv_test_invert env) (exit_ops_keep env) ps (errs0 (vseed w z st2)))
      (\<lambda>st. vm_then (vm_loop (minv_test (\<lambda>v. NOT v)) (exit_ops_keep env) ps
          (errs0 (vseed w z (inject_random_bit_errors env (mincore_touch_pages env st)))))
      (\<lambda>st. vm_then (vm_loop (minv_fill env) (exit_ops env) (rev ps) (vseed w z st))
      (\<lambda>st. vm_then (vm_loop (minv_test_invert env) (exit_ops_keep env) (rev ps)
          (vseed w z (mincore_touch_pages env (inject_random_bit_errors env st))))
      (\<lambda>st. vm_loop (minv_test (\<lambda>v. NOT v)) (exit_keep env) (rev ps) (vseed w z st))))))))"

section \<open>Modulo X\<close>

text \<open>
  The second inner loop: the complement everywhere but at the pattern's place, for the block at
  \<open>ptr\<close>; the loop increment then skips one more stride.
\<close>

function modulo_fill :: "vm_env \<Rightarrow> nat \<Rightarrow> u8 \<Rightarrow> nat \<Rightarrow> nat \<Rightarrow> vm_st \<Rightarrow> bool \<times> vm_st" where
  "modulo_fill env i compliment sz ptr st =
    (if sz \<le> ptr then (False, st)
     else
      (let p1 = min (ptr + i) sz; p2 = p1 + 1; p3 = max p2 (min (p2 + (22 - i)) sz)
       in vm_then (vm_loop (\<lambda>p. vset env p compliment) (exit_ops env) [ptr..<p1] st)
         (\<lambda>st. vm_then (exit_keep env st)
         (\<lambda>st. vm_then (vm_loop (\<lambda>p. vset env p compliment) (exit_ops env) [p2..<p3] st)
         (\<lambda>st. vm_then (exit_keep env st)
         (\<lambda>st. modulo_fill env i compliment sz (p3 + 23) st))))))"
  by pat_completeness auto
termination
  by (relation "measure (\<lambda>(env, i, v, sz, ptr, st). sz - ptr)") (auto simp: max_def min_def)

declare modulo_fill.simps [simp del]

fun modulo_rounds :: "vm_env \<Rightarrow> u8 \<Rightarrow> u64 \<Rightarrow> nat list \<Rightarrow> vm_st \<Rightarrow> u64 \<times> vm_st" where
  "modulo_rounds env pattern counter [] st = vm_return env ''modulo X'' st"
| "modulo_rounds env pattern counter (i # is) st =
    (let sz = vsz st; ps = map (\<lambda>p. p + i) (offsets 23 (sz - i));
         (stop, st1) =
           vm_then (vm_loop (\<lambda>p. vset env p pattern) (exit_keep env) ps st)
             (\<lambda>st. modulo_fill env i (NOT pattern) sz 0 st)
     in if stop then vm_return env ''modulo X'' st1
        else
         (let (stop, st2) = vm_loop (\<lambda>p. vtest p pattern) (exit_keep env) ps (inject_random_bit_errors env st1)
          in if stop then (verrs st2, st2\<lparr>vcount := counter\<rparr>)
             else modulo_rounds env pattern counter is st2))"

definition stress_vm_modulo_x :: "vm_env \<Rightarrow> vm_st \<Rightarrow> u64 \<times> vm_st" where
  "stress_vm_modulo_x env st0 =
    (let (pattern, st1) = vdraw mwc8 (vreseed env (errs0 st0))
     in modulo_rounds env pattern (vcount st0) [0..<23] st1)"

section \<open>Walking bits\<close>

definition stress_vm_walking_one_data :: "vm_env \<Rightarrow> vm_st \<Rightarrow> u64 \<times> vm_st" where
  "stress_vm_walking_one_data env st0 =
    vm_return env ''walking one (data)'' (snd
      (vm_loop (\<lambda>p. fold (SET_AND_TEST env p) [0x01, 0x02, 0x04, 0x08, 0x10, 0x20, 0x40, 0x80])
        (exit_ops_keep env) [0..<vsz st0] (errs0 st0)))"

definition stress_vm_walking_zero_data :: "vm_env \<Rightarrow> vm_st \<Rightarrow> u64 \<times> vm_st" where
  "stress_vm_walking_zero_data env st0 =
    vm_return env ''walking zero (data)'' (snd
      (vm_loop (\<lambda>p. fold (SET_AND_TEST env p) [0xfe, 0xfd, 0xfb, 0xf7, 0xef, 0xdf, 0xbf, 0x7f])
        (exit_ops_keep env) [0..<vsz st0] (errs0 st0)))"

text \<open>
  The address walk from the byte at offset \<open>p\<close>: the loop runs its remaining iterations with the
  current mask; an address outside the buffer, or the byte itself, is skipped without shifting the
  mask.
\<close>

fun walk_addr :: "vm_env \<Rightarrow> (u64 \<Rightarrow> u64) \<Rightarrow> nat \<Rightarrow> nat \<Rightarrow> u64 \<Rightarrow> vm_st \<Rightarrow> vm_st" where
  "walk_addr env flip p 0 msk st = st"
| "walk_addr env flip p (Suc n) msk st =
    (let ptr = vm_base env + of_nat p;
         addr = ptr XOR flip msk
     in if addr < vm_base env \<or> vm_base env + of_nat (vsz st) \<le> addr \<or> addr = ptr
        then walk_addr env flip p n msk st
        else walk_addr env flip p n (push_bit 1 msk)
               (vtest p 0 (vset env (unat (addr - vm_base env)) 0xff st)))"

definition stress_vm_walking_one_addr :: "vm_env \<Rightarrow> vm_st \<Rightarrow> u64 \<times> vm_st" where
  "stress_vm_walking_one_addr env st0 =
    vm_return env ''walking one (address)'' (snd
      (vm_loop (\<lambda>p st. walk_addr env (\<lambda>msk. msk) p 63 1 (vset env p 0 st))
        (exit_ops_keep env) (offsets 256 (vsz st0)) (vmemset env 0 (errs0 st0))))"

text \<open>
  The smallest power of two that is at least \<open>sz\<close>.  Each round doubles \<open>m\<close>, so the 64 rounds
  given below are enough for every size up to \<open>2 ^ 63\<close>; beyond that the loop of the source does not end.
\<close>

fun pow2_above :: "nat \<Rightarrow> nat \<Rightarrow> u64 \<Rightarrow> u64" where
  "pow2_above sz 0 m = m"
| "pow2_above sz (Suc n) m = (if unat m < sz then pow2_above sz n (push_bit 1 m) else m)"

definition stress_vm_walking_zero_addr :: "vm_env \<Rightarrow> vm_st \<Rightarrow> u64 \<times> vm_st" where
  "stress_vm_walking_zero_addr env st0 =
    (let sz_mask = pow2_above (vsz st0) 64 1 - 1
     in vm_return env ''walking zero (address)'' (snd
      (vm_loop (\<lambda>p st. walk_addr env (\<lambda>msk. NOT msk AND sz_mask) p 63 1 (vset env p 0 st))
        (exit_ops_keep env) (offsets 256 (vsz st0)) (vmemset env 0 (errs0 st0)))))"

section \<open>Gray codes and increments\<close>

definition gray8 :: "u8 \<Rightarrow> u8" where
  "gray8 v = drop_bit 1 v XOR v"

text \<open>The fill loop; the result says whether the method returns from inside it.\<close>

fun gray_fill :: "vm_env \<Rightarrow> u8 \<Rightarrow> nat list \<Rightarrow> vm_st \<Rightarrow> bool \<times> vm_st" where
  "gray_fill env v [] st = (False, st)"
| "gray_fill env v (p # ps) st =
    (let (k, st1) = read_keep env st
     in if \<not> k then (True, st1)
        else (let (stop, st2) = exit_ops env (vset env p (gray8 v) st1)
              in if stop then (False, st2) else gray_fill env (v + 1) ps st2))"

fun gray_check :: "vm_env \<Rightarrow> u8 \<Rightarrow> nat list \<Rightarrow> vm_st \<Rightarrow> vm_st" where
  "gray_check env v [] st = st"
| "gray_check env v (p # ps) st =
    (let (k, st1) = read_keep env st
     in if \<not> k then st1 else gray_check env (v + 1) ps (vtest p (gray8 v) st1))"

definition stress_vm_gray :: "vm_env \<Rightarrow> vm_st \<Rightarrow> u64 \<times> vm_st" where
  "stress_vm_gray env st0 =
    (let (ret, st1) = gray_fill env (gray_val st0) [0..<vsz st0] (errs0 st0)
     in if ret then (0, st1\<lparr>vcount := vcount st0\<rparr>)
        else
         (let st2 = inject_random_bit_errors env (mincore_touch_pages env st1);
              st3 = gray_check env (gray_val st0) [0..<vsz st0] st2
          in vm_return env ''gray code'' (st3\<lparr>gray_val := gray_val st3 + 1\<rparr>)))"

definition stress_vm_incdec :: "vm_env \<Rightarrow> vm_st \<Rightarrow> u64 \<times> vm_st" where
  "stress_vm_incdec env st0 =
    (let val = incdec_val st0 + 1;
         ps = [0..<vsz st0];
         st1 = vmemset env 0 (errs0 (st0\<lparr>incdec_val := val\<rparr>));
         st2 = snd (vm_loop (\<lambda>p. vupd env p (\<lambda>b. b + val)) (exit_ops env) ps st1);
         st3 = inject_random_bit_errors env (mincore_touch_pages env st2);
         st4 = snd (vm_loop (\<lambda>p. vupd env p (\<lambda>b. b - val)) (exit_ops env) ps st3)
     in vm_return env ''incdec code'' (snd (vm_loop (\<lambda>p. vtest p 0) exit_none ps st4)))"

definition PRIME_64 :: u64 where "PRIME_64 = 0x8f0000000017116d"

text \<open>The offsets \<open>j % sz\<close> of a walk in prime steps: \<open>j = prime, j += prime\<close>.\<close>

fun prime_walk :: "nat \<Rightarrow> nat \<Rightarrow> u64 \<Rightarrow> nat list" where
  "prime_walk sz 0 j = []"
| "prime_walk sz (Suc n) j = unat j mod sz # prime_walk sz n (j + PRIME_64)"

definition stress_vm_prime_incdec :: "vm_env \<Rightarrow> vm_st \<Rightarrow> u64 \<times> vm_st" where
  "stress_vm_prime_incdec env st0 =
    (let sz = vsz st0; val = prime_incdec_val st0; ps = [0..<sz]
     in if sz > 2 ^ 63 then (0, st0)
        else
         (let st1 = vmemset env 0 (errs0 st0);
              st2 = snd (vm_loop (\<lambda>p. vupd env p (\<lambda>b. b + val)) (exit_ops env) ps st1);
              st3 = inject_random_bit_errors env (mincore_touch_pages env st2);
              st4 = snd (vm_loop (\<lambda>p. vupd env p (\<lambda>b. b - val)) (exit_ops env) (prime_walk sz sz PRIME_64) st3)
          in vm_return env ''prime-incdec'' (snd (vm_loop (\<lambda>p. vtest p 0) exit_none ps st4))))"

section \<open>Swapping chunks\<close>

definition vswap :: "vm_env \<Rightarrow> nat \<Rightarrow> nat \<Rightarrow> vm_st \<Rightarrow> vm_st" where
  "vswap env src dst st =
    (let tmp = rd (vmem st) src in vset env dst tmp (vset env src (rd (vmem st) dst) st))"

definition swap_chunk :: "vm_env \<Rightarrow> nat list \<Rightarrow> nat \<Rightarrow> vm_st \<Rightarrow> vm_st" where
  "swap_chunk env swaps i st = fold (\<lambda>k. vswap env (64 * i + k) (swaps ! i + k)) [0..<64] st"

definition swap_fill :: "vm_env \<Rightarrow> nat \<Rightarrow> vm_st \<Rightarrow> vm_st" where
  "swap_fill env p st =
    (case vdraw mwc8 st of (val, st') \<Rightarrow> fold (\<lambda>k. vset env (p + k) val) [0..<64] st')"

definition swap_test :: "nat \<Rightarrow> vm_st \<Rightarrow> vm_st" where
  "swap_test p st =
    (case vdraw mwc8 st of (val, st') \<Rightarrow> fold (\<lambda>k. vtest (p + k) val) [0..<64] st')"

text \<open>\<open>swaps[i] = (mwc64() % chunks) * chunk_sz\<close>\<close>

definition swap_offsets :: "nat \<Rightarrow> mwc_t \<Rightarrow> nat list \<times> mwc_t" where
  "swap_offsets chunks m =
    (case draws mwc64 chunks m of (vs, m') \<Rightarrow> (map (\<lambda>v. (unat v mod chunks) * 64) vs, m'))"

definition stress_vm_swap :: "vm_env \<Rightarrow> vm_st \<Rightarrow> u64 \<times> vm_st" where
  "stress_vm_swap env st0 =
    (let sz = vsz st0; chunks = sz div 64; ps = offsets 64 sz; is = [0..<length ps];
         (z1, w1, st1) = vseeds env (errs0 st0)
     in if \<not> vm_swaps_alloc env
        then (0, st1\<lparr>vfails := vfails st1 @ [(''calloc failed on vm_swap'', 0)]\<rparr>)
        else
         (let (swaps, st2) = vdraw (swap_offsets chunks) st1;
              st3 = snd (vm_loop (swap_fill env) exit_none ps (vseed w1 z1 st2))
          in vm_return env ''swap bytes'' (snd
            (vm_then (vm_loop (swap_chunk env swaps) (exit_ops_keep env) is st3)
            (\<lambda>st. vm_then (vm_loop (swap_chunk env swaps) (exit_ops_keep env) (rev is) st)
            (\<lambda>st. vm_loop swap_test (exit_keep env) ps
               (vseed w1 z1 (inject_random_bit_errors env (mincore_touch_pages env st)))))))))"

section \<open>Random patterns\<close>

definition rand_fill :: "vm_env \<Rightarrow> nat \<Rightarrow> vm_st \<Rightarrow> vm_st" where
  "rand_fill env p st = (case vdraw mwc8 st of (val, st') \<Rightarrow> vset8 env p val st')"

definition rand_test :: "(u8 \<Rightarrow> u8) \<Rightarrow> nat \<Rightarrow> vm_st \<Rightarrow> vm_st" where
  "rand_test f p st = (case vdraw mwc8 st of (val, st') \<Rightarrow> vtest8 p (f val) st')"

definition stress_vm_rand_set :: "vm_env \<Rightarrow> vm_st \<Rightarrow> u64 \<times> vm_st" where
  "stress_vm_rand_set env st0 =
    (let ps = offsets 8 (vsz st0);
         (w, z, st1) = vseeds env (errs0 st0)
     in vm_return env ''rand-set'' (snd
      (vm_then (vm_loop (rand_fill env) (exit_ops_keep env) ps (vseed w z st1))
      (\<lambda>st. vm_loop (rand_test id) (exit_keep env) ps
         (vseed w z (inject_random_bit_errors env (mincore_touch_pages env st)))))))"

definition stress_vm_ror :: "vm_env \<Rightarrow> vm_st \<Rightarrow> u64 \<times> vm_st" where
  "stress_vm_ror env st0 =
    (let ps = offsets 8 (vsz st0);
         (w, z, st1) = vseeds env (errs0 st0)
     in vm_return env ''ror'' (snd
      (vm_then (vm_loop (rand_fill env) (exit_ops_keep env) ps (vseed w z st1))
      (\<lambda>st. vm_then (vm_loop (\<lambda>p. vupd8 env p ROR64_byte) (exit_ops_keep env) ps (mincore_touch_pages env st))
      (\<lambda>st. vm_loop (rand_test ROR64_byte) (exit_keep env) ps
         (vseed w z (inject_random_bit_errors env (mincore_touch_pages env st))))))))"

text \<open>The value and its seven successive rotations.\<close>

definition ror8_seq :: "u8 \<Rightarrow> u8 list" where
  "ror8_seq v = map (\<lambda>k. (ROR8 ^^ k) v) [0..<8]"

definition flip_fill :: "vm_env \<Rightarrow> nat \<Rightarrow> vm_st \<Rightarrow> vm_st" where
  "flip_fill env p st =
    (case vdraw mwc8 st of (val, st') \<Rightarrow> fold (\<lambda>k. vset env (p + k) (ror8_seq val ! k)) [0..<8] st')"

definition flip_test :: "nat \<Rightarrow> vm_st \<Rightarrow> vm_st" where
  "flip_test p st =
    (case vdraw mwc8 st of (val, st') \<Rightarrow> fold (\<lambda>k. vtest (p + k) (ror8_seq val ! k)) [0..<8] st')"

fun flip_rounds :: "vm_env \<Rightarrow> nat list \<Rightarrow> nat \<Rightarrow> u8 \<Rightarrow> vm_st \<Rightarrow> bool \<times> vm_st" where
  "flip_rounds env ps 0 b st = (False, st)"
| "flip_rounds env ps (Suc n) b st =
    (let b' = ROR8 b
     in vm_then (vm_loop (\<lambda>p. vupd8 env p (\<lambda>v. v XOR b')) (exit_ops_keep env) ps st)
          (\<lambda>st. flip_rounds env ps n b' (mincore_touch_pages env st)))"

definition stress_vm_flip :: "vm_env \<Rightarrow> vm_st \<Rightarrow> u64 \<times> vm_st" where
  "stress_vm_flip env st0 =
    (let ps = offsets 8 (vsz st0);
         (w, z, st1) = vseeds env (errs0 st0)
     in vm_return env ''flip'' (snd
      (vm_then (vm_loop (flip_fill env) (exit_ops_keep env) ps (vseed w z st1))
      (\<lambda>st. vm_then (flip_rounds env ps 8 0x03 (mincore_touch_pages env st))
      (\<lambda>st. vm_loop flip_test (exit_keep env) ps (vseed w z (inject_random_bit_errors env st)))))))"

section \<open>Counting stuck bits\<close>

definition stress_vm_zero_one :: "vm_env \<Rightarrow> vm_st \<Rightarrow> u64 \<times> vm_st" where
  "stress_vm_zero_one env st0 =
    (let ps = offsets 64 (vsz st0);
         half = (\<lambda>v st. (inject_random_bit_errors env (mincore_touch_pages env (vmemset env v st)))
                    \<lparr>vcount := vcount st + of_nat (vsz st div 8)\<rparr>)
     in vm_return env ''zero-one'' (snd
      (vm_then (vm_loop (vbits8 id) (exit_keep env) ps (half 0 (errs0 st0)))
      (\<lambda>st. vm_loop (vbits8 (\<lambda>x. NOT x)) (exit_keep env) ps (half 0xff st)))))"

text \<open>
  Galloping pattern: draw an offset and a bit until the byte at the offset still has the background
  value, then change that bit.
\<close>

partial_function (option) galpat_place ::
  "vm_env \<Rightarrow> u8 \<Rightarrow> (nat \<Rightarrow> u8 \<Rightarrow> u8) \<Rightarrow> vm_st \<Rightarrow> vm_st option" where
  "galpat_place env background change st =
    (let st1 = snd (vdraw mwc64 st); st2 = snd (vdraw mwc32 st1);
         off = unat (fst (vdraw mwc64 st)) mod vsz st; b = unat (fst (vdraw mwc32 st1) AND 3)
     in if rd (vmem st2) off = background then Some (vupd env off (change b) st2)
        else galpat_place env background change st2)"

declare galpat_place.simps [code]

fun galpat_fill :: "vm_env \<Rightarrow> u8 \<Rightarrow> (nat \<Rightarrow> u8 \<Rightarrow> u8) \<Rightarrow> nat \<Rightarrow> vm_st \<Rightarrow> vm_st option" where
  "galpat_fill env background change 0 st = Some st"
| "galpat_fill env background change (Suc n) st =
    (case galpat_place env background change st of None \<Rightarrow> None
     | Some st1 \<Rightarrow> (case exit_ops env st1 of (stop, st2) \<Rightarrow>
         if stop then Some st2 else galpat_fill env background change n st2))"

text \<open>The set bits are counted in the error counter of the state, which starts at 0, and compared at the end.\<close>

definition galpat :: "vm_env \<Rightarrow> string \<Rightarrow> u8 \<Rightarrow> (nat \<Rightarrow> u8 \<Rightarrow> u8) \<Rightarrow> (u64 \<Rightarrow> u64) \<Rightarrow> vm_st \<Rightarrow> (u64 \<times> vm_st) option" where
  "galpat env name background change f st0 =
    (let bits_bad = vsz st0 div 4096
     in case galpat_fill env background change bits_bad (vreseed env (vmemset env background (errs0 st0))) of
          None \<Rightarrow> None
        | Some st1 \<Rightarrow>
           (let st2 = snd (vm_loop (vbits8 f) (exit_keep env) (offsets 64 (vsz st0))
                        (inject_random_bit_errors env (mincore_touch_pages env st1)));
                bits_set = verrs st2
            in Some (vm_return env name (st2\<lparr>verrs :=
                 if bits_set \<noteq> of_nat bits_bad then UNSIGNED_ABS bits_set (of_nat bits_bad) else 0\<rparr>))))"

definition stress_vm_galpat_zero :: "vm_env \<Rightarrow> vm_st \<Rightarrow> (u64 \<times> vm_st) option" where
  "stress_vm_galpat_zero env st0 =
    galpat env ''galpat-zero'' 0x00 (\<lambda>b v. v OR push_bit b 1) id st0"

definition stress_vm_galpat_one :: "vm_env \<Rightarrow> vm_st \<Rightarrow> (u64 \<times> vm_st) option" where
  "stress_vm_galpat_one env st0 =
    galpat env ''galpat-one'' 0xff (\<lambda>b v. v AND NOT (push_bit b 1)) (\<lambda>x. NOT x) st0"

section \<open>Nybbles and sums\<close>

definition stress_vm_inc_nybble :: "vm_env \<Rightarrow> vm_st \<Rightarrow> u64 \<times> vm_st" where
  "stress_vm_inc_nybble env st0 =
    (let ps = offsets 8 (vsz st0);
         val = INC_HI_NYBBLE (INC_LO_NYBBLE (nybble_val st0));
         st1 = vreseed env ((vmemset env (nybble_val st0) (errs0 st0))\<lparr>nybble_val := val\<rparr>)
     in vm_return env ''inc-nybble'' (snd
      (vm_then (vm_loop (\<lambda>p. vupd8 env p INC_LO_NYBBLE) (exit_ops_keep env) ps st1)
      (\<lambda>st. vm_then (vm_loop (\<lambda>p. vupd8 env p INC_HI_NYBBLE) (exit_ops_keep env) ps st)
      (\<lambda>st. vm_loop (\<lambda>p. vtest8 p val) (exit_keep env) ps
         (inject_random_bit_errors env (mincore_touch_pages env st)))))))"

text \<open>Eight 64 bit words per step; the step itself is 64 words.\<close>

definition sum_fill :: "vm_env \<Rightarrow> nat \<Rightarrow> vm_st \<Rightarrow> vm_st" where
  "sum_fill env p st = fold (\<lambda>k. minv_fill env (p + 8 * k)) [0..<8] st"

definition sum_test1 :: "nat \<Rightarrow> vm_st \<Rightarrow> vm_st" where
  "sum_test1 p st =
    (let (x, st1) = vread64 p st; (v, st2) = vdraw mwc64 st1
     in verr (stress_vm_count_bits (x XOR v)) st2)"

definition sum_test :: "nat \<Rightarrow> vm_st \<Rightarrow> vm_st" where
  "sum_test p st = fold (\<lambda>k. sum_test1 (p + 8 * k)) [0..<8] st"

definition stress_vm_rand_sum :: "vm_env \<Rightarrow> vm_st \<Rightarrow> u64 \<times> vm_st" where
  "stress_vm_rand_sum env st0 =
    (let ps = offsets 512 (vsz st0);
         (w, z, st1) = vseeds env (errs0 st0)
     in vm_return env ''rand-sum'' (snd
      (vm_then (vm_loop (sum_fill env) (exit_ops_keep env) ps (vseed w z st1))
      (\<lambda>st. vm_loop sum_test (exit_keep env) ps
         (vseed w z (inject_random_bit_errors env (mincore_touch_pages env st)))))))"

section \<open>Prime steps\<close>

text \<open>\<open>bit_errors += stress_vm_count_bits(buf[i])\<close> and \<open>bit_errors += 8 - stress_vm_count_bits(buf[i])\<close>\<close>

definition vcount_set :: "nat \<Rightarrow> vm_st \<Rightarrow> vm_st" where
  "vcount_set i st = (verr (stress_vm_count_bits (ucast (rd (vmem st) i))) st)
     \<lparr>voob := voob st \<or> vsz st \<le> i\<rparr>"

definition vcount_clear :: "nat \<Rightarrow> vm_st \<Rightarrow> vm_st" where
  "vcount_clear i st = (verr (8 - stress_vm_count_bits (ucast (rd (vmem st) i))) st)
     \<lparr>voob := voob st \<or> vsz st \<le> i\<rparr>"

fun prime_rounds :: "vm_env \<Rightarrow> (nat \<Rightarrow> u8 \<Rightarrow> u8) \<Rightarrow> nat list \<Rightarrow> nat list \<Rightarrow> vm_st \<Rightarrow> bool \<times> vm_st" where
  "prime_rounds env f ps [] st = (False, st)"
| "prime_rounds env f ps (j # js) st =
    vm_then (vm_loop (\<lambda>p. vupd env p (f j)) (exit_ops_keep env) ps st) (prime_rounds env f ps js)"

definition stress_vm_prime_zero :: "vm_env \<Rightarrow> vm_st \<Rightarrow> u64 \<times> vm_st" where
  "stress_vm_prime_zero env st0 =
    (let sz = vsz st0
     in if sz > 2 ^ 63 then (0, st0)
        else vm_return env ''prime-zero'' (snd
          (vm_then (prime_rounds env (\<lambda>j v. v AND NOT (push_bit j 1)) (prime_walk sz sz PRIME_64) [0..<8]
              (vmemset env 0xff (errs0 st0)))
          (\<lambda>st. vm_loop vcount_set exit_none [0..<sz]
             (inject_random_bit_errors env (mincore_touch_pages env st))))))"

definition stress_vm_prime_one :: "vm_env \<Rightarrow> vm_st \<Rightarrow> u64 \<times> vm_st" where
  "stress_vm_prime_one env st0 =
    (let sz = vsz st0
     in if sz > 2 ^ 63 then (0, st0)
        else vm_return env ''prime-one'' (snd
          (vm_then (prime_rounds env (\<lambda>j v. v OR push_bit j 1) (prime_walk sz sz PRIME_64) [0..<8]
              (vmemset env 0x00 (errs0 st0)))
          (\<lambda>st. vm_loop vcount_clear (exit_keep env) [0..<sz]
             (inject_random_bit_errors env (mincore_touch_pages env st))))))"

text \<open>The low byte of \<open>(i >> 1) ^ i\<close>.\<close>

definition gray_low :: "nat \<Rightarrow> u8" where
  "gray_low i = ucast (drop_bit 1 (of_nat i :: u64) XOR of_nat i)"

definition prime_gray_step :: "vm_env \<Rightarrow> (u8 \<Rightarrow> u8 \<Rightarrow> u8) \<Rightarrow> nat \<times> nat \<Rightarrow> vm_st \<Rightarrow> vm_st" where
  "prime_gray_step env f q st = (case q of (i, p) \<Rightarrow> vupd env p (f (gray_low i)) st)"

definition stress_vm_prime_gray_zero :: "vm_env \<Rightarrow> vm_st \<Rightarrow> u64 \<times> vm_st" where
  "stress_vm_prime_gray_zero env st0 =
    (let sz = vsz st0; qs = zip [0..<sz] (prime_walk sz sz PRIME_64)
     in if sz > 2 ^ 63 then (0, st0)
        else vm_return env ''prime-gray-zero'' (snd
          (vm_then (vm_loop (prime_gray_step env (\<lambda>g v. v AND g)) (exit_keep_ops env) qs
              (vmemset env 0xff (errs0 st0)))
          (\<lambda>st. vm_then (vm_loop (prime_gray_step env (\<lambda>g v. v AND NOT g)) (exit_keep_ops env) qs st)
          (\<lambda>st. vm_loop vcount_set (exit_keep env) [0..<sz]
             (inject_random_bit_errors env (mincore_touch_pages env st)))))))"

definition stress_vm_prime_gray_one :: "vm_env \<Rightarrow> vm_st \<Rightarrow> u64 \<times> vm_st" where
  "stress_vm_prime_gray_one env st0 =
    (let sz = vsz st0; qs = zip [0..<sz] (prime_walk sz sz PRIME_64)
     in if sz > 2 ^ 63 then (0, st0)
        else vm_return env ''prime-gray-one'' (snd
          (vm_then (vm_loop (prime_gray_step env (\<lambda>g v. v OR g)) (exit_keep_ops env) qs
              (vmemset env 0x00 (errs0 st0)))
          (\<lambda>st. vm_then (vm_loop (prime_gray_step env (\<lambda>g v. v OR NOT g)) (exit_keep_ops env) qs
              (mincore_touch_pages env st))
          (\<lambda>st. vm_loop vcount_clear (exit_keep env) [0..<sz]
             (inject_random_bit_errors env (mincore_touch_pages env st)))))))"

section \<open>Plain reads and writes\<close>

text \<open>
  \<open>i++; if (!g_keep_stressing_flag || (max_ops && i >= max_ops)) break;\<close> with the iteration
  count as loop variable; the body handles the 32 words of iteration \<open>i\<close>.
\<close>

fun blocks64 :: "vm_env \<Rightarrow> (nat \<Rightarrow> vm_st \<Rightarrow> vm_st) \<Rightarrow> nat \<Rightarrow> nat \<Rightarrow> vm_st \<Rightarrow> nat \<times> vm_st" where
  "blocks64 env body 0 i st = (i, st)"
| "blocks64 env body (Suc n) i st =
    (let st1 = fold (\<lambda>k. body (256 * i + 8 * k)) [0..<32] st;
         (k, st2) = read_keep env st1
     in if \<not> k \<or> ops_done env (of_nat (Suc i)) then (Suc i, st2) else blocks64 env body n (Suc i) st2)"

definition stress_vm_write64 :: "vm_env \<Rightarrow> vm_st \<Rightarrow> u64 \<times> vm_st" where
  "stress_vm_write64 env st0 =
    (let v = write64_val st0;
         (i, st1) = blocks64 env (\<lambda>p. vset64 env p v) (vsz st0 div 256) 0 st0
     in (0, st1\<lparr>vcount := vcount st1 + of_nat i, write64_val := v + 1\<rparr>))"

definition stress_vm_read64 :: "vm_env \<Rightarrow> vm_st \<Rightarrow> u64 \<times> vm_st" where
  "stress_vm_read64 env st0 =
    (let (i, st1) = blocks64 env (\<lambda>p st. snd (vread64 p st)) (vsz st0 div 256) 0 st0
     in (0, st1\<lparr>vcount := vcount st1 + of_nat i\<rparr>))"

section \<open>Row hammer\<close>

definition VM_ROWHAMMER_LOOPS :: u64 where "VM_ROWHAMMER_LOOPS = 1000000"

definition hammer_test :: "u32 \<Rightarrow> nat \<Rightarrow> vm_st \<Rightarrow> vm_st" where
  "hammer_test val p st = (case vread32 p st of (x, st') \<Rightarrow> verr (of_bool (x \<noteq> val)) st')"

definition stress_vm_rowhammer :: "vm_env \<Rightarrow> vm_st \<Rightarrow> u64 \<times> vm_st" where
  "stress_vm_rowhammer env st0 =
    (let n = vsz st0 div 4; val = rowhammer_val st0; ps = map (\<lambda>j. 4 * j) [0..<n]
     in if n = 0 then (0, st0)
        else
         (let st1 = fold (\<lambda>p. vset32 env p val) ps (mincore_touch_pages env (errs0 st0));
              (a0, st2) = vdraw mwc64 st1;
              (a1, st3) = vdraw mwc64 st2;
              st4 = st3\<lparr>vmem := vm_hammer env (4 * (unat (push_bit 12 a0) mod n)) (4 * (unat (push_bit 12 a1) mod n)) (vmem st3)\<rparr>;
              st5 = fold (hammer_test val) ps st4
          in vm_return env ''rowhammer''
               (st5\<lparr>vcount := vcount st5 + VM_ROWHAMMER_LOOPS,
                    rowhammer_val := drop_bit 31 val OR push_bit 1 val\<rparr>)))"

section \<open>The method table\<close>

type_synonym vm_method = "vm_env \<Rightarrow> vm_st \<Rightarrow> (u64 \<times> vm_st) option"

abbreviation total :: "(vm_env \<Rightarrow> vm_st \<Rightarrow> u64 \<times> vm_st) \<Rightarrow> vm_method" where
  "total f \<equiv> (\<lambda>env st. Some (f env st))"

definition vm_single_methods :: "(string \<times> vm_method) list" where
  "vm_single_methods =
    [(''flip'', total stress_vm_flip),
     (''galpat-0'', stress_vm_galpat_zero),
     (''galpat-1'', stress_vm_galpat_one),
     (''gray'', total stress_vm_gray),
     (''rowhammer'', total stress_vm_rowhammer),
     (''incdec'', total stress_vm_incdec),
     (''inc-nybble'', total stress_vm_inc_nybble),
     (''rand-set'', total stress_vm_rand_set),
     (''rand-sum'', total stress_vm_rand_sum),
     (''read64'', total stress_vm_read64),
     (''ror'', total stress_vm_ror),
     (''swap'', total stress_vm_swap),
     (''move-inv'', total stress_vm_moving_inversion),
     (''modulo-x'', total stress_vm_modulo_x),
     (''prime-0'', total stress_vm_prime_zero),
     (''prime-1'', total stress_vm_prime_one),
     (''prime-gray-0'', total stress_vm_prime_gray_zero),
     (''prime-gray-1'', total stress_vm_prime_gray_one),
     (''prime-incdec'', total stress_vm_prime_incdec),
     (''walk-0d'', total stress_vm_walking_zero_data),
     (''walk-1d'', total stress_vm_walking_one_data),
     (''walk-0a'', total stress_vm_walking_zero_addr),
     (''walk-1a'', total stress_vm_walking_one_addr),
     (''write64'', total stress_vm_write64),
     (''zero-one'', total stress_vm_zero_one)]"

text \<open>The static index \<open>i\<close> starts at 1 and goes back to 1 at the end of the table; entry 0 is this method.\<close>

definition stress_vm_all :: vm_method where
  "stress_vm_all env st =
    (case snd (vm_single_methods ! (all_i st - 1)) env st of None \<Rightarrow> None
     | Some (bit_errors, st') \<Rightarrow>
        Some (bit_errors, st'\<lparr>all_i := if length vm_single_methods < all_i st' + 1 then 1 else all_i st' + 1\<rparr>))"

definition vm_methods :: "(string \<times> vm_method) list" where
  "vm_methods = (''all'', stress_vm_all) # vm_single_methods"

end
