(* ===== verification/Vm_Loops.thy ===== *)
theory Vm_Loops
  imports Vm_Methods
begin

text \<open>
  Reasoning about the methods of \<open>Vm_Methods\<close>: what runs of accesses do to the buffer, an invariant
  rule for loops that may be left early, the streams of a reseeded generator, and the two rules the
  method proofs are made of, one for a pass that rewrites a grid of chunks and one for a pass that
  checks it.
\<close>

section \<open>Effects of runs of accesses\<close>

definition wr_range :: "u8 list \<Rightarrow> nat \<Rightarrow> nat \<Rightarrow> (nat \<Rightarrow> u8) \<Rightarrow> u8 list" where
  "wr_range m p n f = map (\<lambda>j. if p \<le> j \<and> j < p + n then f (j - p) else m ! j) [0..<length m]"

lemma length_wr_range [simp]: "length (wr_range m p n f) = length m"
  by (simp add: wr_range_def)

lemma rd_wr_range [simp]:
  "rd (wr_range m p n f) j = (if j < length m \<and> p \<le> j \<and> j < p + n then f (j - p) else rd m j)"
  by (simp add: wr_range_def rd_def)

lemma rd_update [simp]: "rd (m[i := v]) j = (if i = j \<and> i < length m then v else rd m j)"
  by (auto simp: rd_def nth_list_update)

lemma mem_eqI: "length m = length m' \<Longrightarrow> (\<And>j. j < length m \<Longrightarrow> rd m j = rd m' j) \<Longrightarrow> m = m'"
  by (rule nth_equalityI) (auto simp: rd_def)

lemma wr_range_0 [simp]: "wr_range m p 0 f = m"
  by (rule mem_eqI) auto

lemma wr_range_Suc:
  "(wr_range m p n f)[p + n := f n] = wr_range m p (Suc n) f"
  by (rule mem_eqI) (auto simp: le_Suc_eq less_Suc_eq)

lemma fold_upt_Suc: "fold g [0..<Suc n] s = g n (fold g [0..<n] s)"
  by simp

lemma oob_Suc: "(b \<or> 0 < n \<and> L < q \<or> L \<le> q) = (b \<or> L < Suc q)" for L q :: nat
  by auto

lemma fold_vset:
  "fold (\<lambda>k. vset env (p + k) (f k)) [0..<n] st =
    st\<lparr>vmem := wr_range (vmem st) p n (\<lambda>k. vm_cell env (p + k) (f k)),
       voob := voob st \<or> (0 < n \<and> vsz st < p + n)\<rparr>"
proof (induction n)
  case (Suc n)
  show ?case
    using wr_range_Suc [of "vmem st" p n "\<lambda>k. vm_cell env (p + k) (f k)"]
    by (simp only: fold_upt_Suc Suc) (auto simp: vset_def oob_Suc)
qed simp

lemma fold_vupd:
  "fold (\<lambda>k. vupd env (p + k) f) [0..<n] st =
    st\<lparr>vmem := wr_range (vmem st) p n (\<lambda>k. vm_cell env (p + k) (f (rd (vmem st) (p + k)))),
       voob := voob st \<or> (0 < n \<and> vsz st < p + n)\<rparr>"
proof (induction n)
  case (Suc n)
  show ?case
    using wr_range_Suc [of "vmem st" p n "\<lambda>k. vm_cell env (p + k) (f (rd (vmem st) (p + k)))"]
    by (simp only: fold_upt_Suc Suc) (auto simp: vupd_def vset_def oob_Suc)
qed simp

lemma fold_vtest:
  "fold (\<lambda>k. vtest (p + k) (f k)) [0..<n] st =
    st\<lparr>verrs := verrs st + (\<Sum>k<n. of_bool (rd (vmem st) (p + k) \<noteq> f k)),
       voob := voob st \<or> (0 < n \<and> vsz st < p + n)\<rparr>"
proof (induction n)
  case (Suc n)
  show ?case by (simp only: fold_upt_Suc Suc) (auto simp: vtest_def algebra_simps oob_Suc)
qed simp

lemmas run_effects = vset8_def vtest8_def vupd8_def vset64_def vset32_def fold_vset fold_vupd fold_vtest

section \<open>Loops\<close>

lemma vm_loop_inv:
  assumes "I 0 st"
    and "\<And>k st. k < length ps \<Longrightarrow> I k st \<Longrightarrow> I (Suc k) (snd (leave (body (ps ! k) st)))"
  obtains k where "k \<le> length ps" "I k (snd (vm_loop body leave ps st))"
    "\<not> fst (vm_loop body leave ps st) \<Longrightarrow> k = length ps"
proof -
  have "\<exists>k \<le> length ps. I k (snd (vm_loop body leave ps st)) \<and>
    (\<not> fst (vm_loop body leave ps st) \<longrightarrow> k = length ps)"
    using assms
  proof (induction ps arbitrary: st I)
    case (Cons p ps)
    obtain stop st' where l: "leave (body p st) = (stop, st')" by (cases "leave (body p st)")
    have 1: "I 1 st'" using Cons.prems(2) [of 0 st] Cons.prems(1) l by simp
    show ?case
    proof (cases stop)
      case True
      then show ?thesis using l 1 by (intro exI [of _ 1]) simp
    next
      case False
      have "\<exists>k \<le> length ps. I (Suc k) (snd (vm_loop body leave ps st')) \<and>
        (\<not> fst (vm_loop body leave ps st') \<longrightarrow> k = length ps)"
      proof (rule Cons.IH)
        show "I (Suc 0) st'" using 1 by simp
        show "\<And>k st. k < length ps \<Longrightarrow> I (Suc k) st \<Longrightarrow> I (Suc (Suc k)) (snd (leave (body (ps ! k) st)))"
          using Cons.prems(2) by force
      qed
      then obtain k where "k \<le> length ps" "I (Suc k) (snd (vm_loop body leave ps st'))"
        "\<not> fst (vm_loop body leave ps st') \<longrightarrow> k = length ps" by blast
      then show ?thesis using l False by (intro exI [of _ "Suc k"]) simp
    qed
  qed auto
  then show ?thesis using that by blast
qed

text \<open>An exit only touches the operation counter and the number of flag reads.\<close>

definition is_exit :: "(vm_st \<Rightarrow> bool \<times> vm_st) \<Rightarrow> bool" where
  "is_exit leave \<longleftrightarrow> (\<forall>st. \<exists>c t. snd (leave st) = st\<lparr>vcount := c, vtick := t\<rparr>)"

lemma is_exitE:
  assumes "is_exit leave"
  obtains c t where "snd (leave st) = st\<lparr>vcount := c, vtick := t\<rparr>"
  using assms unfolding is_exit_def by blast

lemma is_exitI:
  "(\<And>st. snd (leave st) = st\<lparr>vcount := c st, vtick := t st\<rparr>) \<Longrightarrow> is_exit leave"
  unfolding is_exit_def by blast

lemma exits_are_exits [simp, intro]:
  "is_exit exit_none" "is_exit (exit_keep env)" "is_exit (exit_ops env)"
  "is_exit (exit_ops_keep env)" "is_exit (exit_keep_ops env)"
  by (rule is_exitI [where c = vcount and t = vtick], simp add: exit_none_def)
    (rule is_exitI [where c = vcount and t = "\<lambda>st. Suc (vtick st)"], simp add: exit_keep_def read_keep_def,
     rule is_exitI [where c = "\<lambda>st. vcount st + 1" and t = vtick], simp add: exit_ops_def Let_def,
     rule is_exitI [where c = "\<lambda>st. vcount st + 1" and t = "\<lambda>st. if ops_done env (vcount st + 1) then vtick st else Suc (vtick st)"],
     simp add: exit_ops_keep_def exit_ops_def exit_keep_def read_keep_def Let_def,
     rule is_exitI [where c = "\<lambda>st. if vm_keep env (vtick st) then vcount st + 1 else vcount st" and t = "\<lambda>st. Suc (vtick st)"],
     simp add: exit_keep_ops_def exit_ops_def exit_keep_def read_keep_def Let_def)

section \<open>Sound memory\<close>

definition sound_mem :: "vm_env \<Rightarrow> bool" where
  "sound_mem env \<longleftrightarrow> (\<forall>i v. vm_cell env i v = v) \<and> (\<forall>m. vm_inject env m = m) \<and>
    (\<forall>a b m. vm_hammer env a b m = m) \<and> 0 < vm_page_size env"

lemma sound_memD [simp]:
  assumes "sound_mem env"
  shows "vm_cell env i v = v" "vm_inject env m = m" "vm_hammer env a b m = m" "0 < vm_page_size env"
  using assms by (simp_all add: sound_mem_def)

text \<open>What every pass keeps when it finds nothing: the size, the errors so far, the bounds flag, the reports.\<close>

definition ok_run :: "vm_st \<Rightarrow> vm_st \<Rightarrow> bool" where
  "ok_run st st' \<longleftrightarrow> vsz st' = vsz st \<and> verrs st' = verrs st \<and> voob st' = voob st \<and> vfails st' = vfails st"

lemma ok_run_refl [simp]: "ok_run st st"
  by (simp add: ok_run_def)

lemma ok_run_trans [trans]: "ok_run a b \<Longrightarrow> ok_run b c \<Longrightarrow> ok_run a c"
  by (simp add: ok_run_def)

lemma ok_run_exit: "is_exit leave \<Longrightarrow> ok_run st (snd (leave st))"
  by (erule is_exitE [of _ st]) (simp add: ok_run_def)

subsection \<open>Touching pages changes nothing\<close>

lemma touch_round_trip:
  assumes "sound_mem env" "distinct ps" "\<forall>p \<in> set ps. p < vsz st"
  shows "fold (\<lambda>p. vupd env p (\<lambda>v. v - 1)) ps (fold (\<lambda>p. vupd env p (\<lambda>v. v + 1)) ps st) = st"
proof -
  have pass: "fold (\<lambda>p. vupd env p f) ps st =
      st\<lparr>vmem := map (\<lambda>j. if j \<in> set ps then f (vmem st ! j) else vmem st ! j) [0..<vsz st]\<rparr>"
    if "distinct ps" "\<forall>p \<in> set ps. p < vsz st" for f st and ps
    using that
  proof (induction ps arbitrary: st)
    case Nil
    then show ?case by (simp add: map_nth)
  next
    case (Cons p ps)
    have "vupd env p f st = st\<lparr>vmem := (vmem st)[p := f (vmem st ! p)]\<rparr>"
      using Cons.prems assms(1) by (simp add: vupd_def vset_def rd_def)
    moreover have "map (\<lambda>j. if j \<in> set ps then f ((vmem st)[p := f (vmem st ! p)] ! j)
          else (vmem st)[p := f (vmem st ! p)] ! j) [0..<vsz st] =
        map (\<lambda>j. if j \<in> set (p # ps) then f (vmem st ! j) else vmem st ! j) [0..<vsz st]"
      using Cons.prems by (auto simp: nth_list_update)
    ultimately show ?case using Cons.IH [of "vupd env p f st"] Cons.prems
      by (simp del: map_eq_conv cong: if_cong)
  qed
  show ?thesis
    using assms by (simp add: pass) (rule vm_st.equality, auto intro!: nth_equalityI)
qed

lemma mincore_touch_pages_id:
  assumes "sound_mem env"
  shows "mincore_touch_pages env st = st"
proof -
  let ?pg = "vm_page_size env" and ?n = "vsz st div vm_page_size env"
  have pg: "0 < ?pg" using assms by simp
  have lt: "i * ?pg < vsz st" if "i < ?n" for i
  proof -
    have "i * ?pg < ?n * ?pg" using that pg by simp
    also have "\<dots> \<le> vsz st" by (rule div_times_less_eq_dividend)
    finally show ?thesis .
  qed
  have d: "distinct (map (\<lambda>i. i * ?pg) is)" if "distinct is" for "is"
    using that pg by (auto simp: distinct_map inj_on_def)
  have slow: "mincore_touch_pages_slow env ?n st = st"
    unfolding mincore_touch_pages_slow_def Let_def
    by (rule touch_round_trip [OF assms]) (auto intro: d lt)
  have fast: "fold (\<lambda>p. vupd env p (\<lambda>v. v - 1)) (map (\<lambda>i. i * ?pg) (filter (\<lambda>i. \<not> vec i) [0..<?n]))
      (fold (\<lambda>p. vupd env p (\<lambda>v. v + 1)) (map (\<lambda>i. i * ?pg) (filter (\<lambda>i. \<not> vec i) [0..<?n])) st) = st" for vec
    by (rule touch_round_trip [OF assms]) (auto intro: d lt)
  show ?thesis
    unfolding mincore_touch_pages_def Let_def using slow fast by (auto split: option.split)
qed

lemma inject_sound [simp]: "sound_mem env \<Longrightarrow> inject_random_bit_errors env st = st"
  by (simp add: inject_random_bit_errors_def)

section \<open>Streams of a reseeded generator\<close>

text \<open>The \<open>k\<close>-th value drawn after seeding, and the states reached after \<open>k\<close> draws.\<close>

definition stream :: "(mwc_t \<Rightarrow> 'v \<times> mwc_t) \<Rightarrow> u64 \<Rightarrow> u64 \<Rightarrow> nat \<Rightarrow> 'v" where
  "stream f w z k = fst (f (snd (draws f k (mwc_seed (ucast w) (ucast z) mwc_init))))"

definition at_draw :: "(mwc_t \<Rightarrow> 'v \<times> mwc_t) \<Rightarrow> u64 \<Rightarrow> u64 \<Rightarrow> nat \<Rightarrow> mwc_t \<Rightarrow> bool" where
  "at_draw f w z k m \<longleftrightarrow> mwc_sim m (snd (draws f k (mwc_seed (ucast w) (ucast z) mwc_init)))"

lemma draws_snoc: "snd (draws f (Suc k) s) = snd (f (snd (draws f k s)))"
  by (induction k arbitrary: s) (simp_all add: Let_def split_def)

lemma at_draw_0: "at_draw f w z 0 (mwc_seed (ucast w) (ucast z) m)"
  by (simp add: at_draw_def mwc_seed_sim)

lemma at_draw_step8:
  "at_draw mwc8 w z k m \<Longrightarrow> fst (mwc8 m) = stream mwc8 w z k \<and> at_draw mwc8 w z (Suc k) (snd (mwc8 m))"
  unfolding at_draw_def stream_def draws_snoc by (rule mwc8_sim)

lemma at_draw_step64:
  "at_draw mwc64 w z k m \<Longrightarrow> fst (mwc64 m) = stream mwc64 w z k \<and> at_draw mwc64 w z (Suc k) (snd (mwc64 m))"
  unfolding at_draw_def stream_def draws_snoc by (rule mwc64_sim)

section \<open>Passes over a grid of chunks\<close>

text \<open>Chunks of \<open>n\<close> bytes at the given offsets that fit the buffer and do not overlap.\<close>

definition grid :: "nat list \<Rightarrow> nat \<Rightarrow> nat \<Rightarrow> bool" where
  "grid ps n sz \<longleftrightarrow> (\<forall>j < length ps. ps ! j + n \<le> sz) \<and>
    (\<forall>j < length ps. \<forall>k < length ps. j \<noteq> k \<longrightarrow> ps ! j + n \<le> ps ! k \<or> ps ! k + n \<le> ps ! j)"

definition chunks :: "nat list \<Rightarrow> nat \<Rightarrow> (nat \<Rightarrow> nat \<Rightarrow> u8) \<Rightarrow> u8 list \<Rightarrow> bool" where
  "chunks ps n val m \<longleftrightarrow> (\<forall>j < length ps. \<forall>i < n. rd m (ps ! j + i) = val j i)"

lemma grid_offsets:
  assumes "k dvd sz" "0 < k" "n \<le> k"
  shows "grid (offsets k sz) n sz"
proof -
  have len: "(sz + k - 1) div k = sz div k"
  proof -
    obtain q where q: "sz = q * k" using assms(1) by (metis dvdE mult.commute)
    have "sz + k - 1 = (k - 1) + q * k" using q assms(2) by simp
    then have "(sz + k - 1) div k = ((k - 1) + q * k) div k" by (rule arg_cong)
    also have "\<dots> = q + (k - 1) div k" using assms(2) by (intro div_mult_self1) simp
    finally show ?thesis using q assms(2) by simp
  qed
  have "j * k + n \<le> sz" if "j < sz div k" for j
  proof -
    have "Suc j * k \<le> sz div k * k" using that by (intro mult_le_mono1) simp
    then show ?thesis using assms by simp
  qed
  moreover have "j * k + n \<le> j' * k" if "j < j'" for j j'
  proof -
    have "Suc j * k \<le> j' * k" using that by (intro mult_le_mono1) simp
    then show ?thesis using assms(3) by simp
  qed
  ultimately show ?thesis
    unfolding grid_def offsets_def len by (auto simp: linorder_neq_iff)
qed

lemma grid_rev: "grid ps n sz \<Longrightarrow> grid (rev ps) n sz"
  unfolding grid_def by (auto simp: rev_nth)

lemma grid_upt: "grid [0..<sz] 1 sz"
  by (auto simp: grid_def)

text \<open>
  A pass whose body, given that the chunk has the expected contents and the generator is at the
  matching draw, finds no error and leaves the new contents.
\<close>

lemma rw_pass:
  fixes body :: "nat \<Rightarrow> vm_st \<Rightarrow> vm_st"
  assumes g: "grid ps n (vsz st)" and ex: "is_exit leave"
    and P0: "P 0 (vmwc st)" and c0: "chunks ps n c (vmem st)"
    and step: "\<And>j s. j < length ps \<Longrightarrow> P j (vmwc s) \<Longrightarrow> vsz s = vsz st \<Longrightarrow>
      (\<forall>i < n. rd (vmem s) (ps ! j + i) = c j i) \<Longrightarrow>
      ok_run s (body (ps ! j) s) \<and> P (Suc j) (vmwc (body (ps ! j) s)) \<and>
      vmem (body (ps ! j) s) = wr_range (vmem s) (ps ! j) n (val j)"
  shows "ok_run st (snd (vm_loop body leave ps st))"
    and "\<not> fst (vm_loop body leave ps st) \<Longrightarrow> chunks ps n val (vmem (snd (vm_loop body leave ps st)))"
proof -
  define I where "I k (s :: vm_st) \<longleftrightarrow> ok_run st s \<and> P k (vmwc s) \<and>
     (\<forall>j < length ps. \<forall>i < n. rd (vmem s) (ps ! j + i) = (if j < k then val j i else c j i))" for k s
  obtain k where k: "k \<le> length ps" "I k (snd (vm_loop body leave ps st))"
    "\<not> fst (vm_loop body leave ps st) \<Longrightarrow> k = length ps"
  proof (rule vm_loop_inv [of I st ps leave body])
    show "I 0 st" using P0 c0 by (simp add: I_def chunks_def)
    fix k s assume k: "k < length ps" and I: "I k s"
    let ?s = "body (ps ! k) s"
    have sz: "vsz s = vsz st" using I by (simp add: I_def ok_run_def)
    have st: "ok_run s ?s" "P (Suc k) (vmwc ?s)" "vmem ?s = wr_range (vmem s) (ps ! k) n (val k)"
      using step [OF k, of s] I k sz by (auto simp: I_def)
    obtain ct t where l: "snd (leave ?s) = ?s\<lparr>vcount := ct, vtick := t\<rparr>"
      by (rule is_exitE [OF ex, of ?s])
    have "rd (vmem ?s) (ps ! j + i) = (if j < Suc k then val j i else c j i)" if "j < length ps" "i < n" for j i
    proof (cases "j = k")
      case True
      have "ps ! k + n \<le> vsz s" using g k sz by (simp add: grid_def)
      then show ?thesis using True that(2) by (simp add: st(3))
    next
      case False
      then have "ps ! j + n \<le> ps ! k \<or> ps ! k + n \<le> ps ! j" using g that(1) k by (simp add: grid_def)
      then have "rd (vmem ?s) (ps ! j + i) = rd (vmem s) (ps ! j + i)" using that(2) by (auto simp: st(3))
      moreover have "rd (vmem s) (ps ! j + i) = (if j < k then val j i else c j i)" using I that by (simp add: I_def)
      moreover have "(j < Suc k) = (j < k)" using False by auto
      ultimately show ?thesis by simp
    qed
    moreover have "ok_run st ?s" using I st(1) by (auto simp: I_def intro: ok_run_trans)
    ultimately show "I (Suc k) (snd (leave ?s))"
      using st(2) unfolding l by (simp add: I_def ok_run_def)
  qed blast
  show "ok_run st (snd (vm_loop body leave ps st))" using k(2) by (simp add: I_def)
  show "chunks ps n val (vmem (snd (vm_loop body leave ps st)))" if "\<not> fst (vm_loop body leave ps st)"
    using k(2,3) that by (simp add: I_def chunks_def)
qed

text \<open>A checking pass adds up the errors of the chunks it reaches.\<close>

lemma check_pass:
  fixes body :: "nat \<Rightarrow> vm_st \<Rightarrow> vm_st"
  assumes ex: "is_exit leave" and P0: "P 0 (vmwc st)"
    and step: "\<And>j s. j < length ps \<Longrightarrow> P j (vmwc s) \<Longrightarrow> vmem s = vmem st \<Longrightarrow>
      verrs (body (ps ! j) s) = verrs s + e j \<and> P (Suc j) (vmwc (body (ps ! j) s)) \<and>
      vmem (body (ps ! j) s) = vmem s \<and> voob (body (ps ! j) s) = voob s \<and> vfails (body (ps ! j) s) = vfails s"
  obtains k where "k \<le> length ps" "\<not> fst (vm_loop body leave ps st) \<Longrightarrow> k = length ps"
    "verrs (snd (vm_loop body leave ps st)) = verrs st + (\<Sum>j<k. e j)"
    "vmem (snd (vm_loop body leave ps st)) = vmem st" "voob (snd (vm_loop body leave ps st)) = voob st"
    "vfails (snd (vm_loop body leave ps st)) = vfails st"
proof -
  define I where "I k (s :: vm_st) \<longleftrightarrow> P k (vmwc s) \<and> vmem s = vmem st \<and> voob s = voob st \<and> vfails s = vfails st \<and>
     verrs s = verrs st + (\<Sum>j<k. e j)" for k s
  obtain k where k: "k \<le> length ps" "I k (snd (vm_loop body leave ps st))"
    "\<not> fst (vm_loop body leave ps st) \<Longrightarrow> k = length ps"
  proof (rule vm_loop_inv [of I st ps leave body])
    show "I 0 st" using P0 by (simp add: I_def)
    fix k s assume k: "k < length ps" and I: "I k s"
    obtain ct t where l: "snd (leave (body (ps ! k) s)) = (body (ps ! k) s)\<lparr>vcount := ct, vtick := t\<rparr>"
      by (rule is_exitE [OF ex, of "body (ps ! k) s"])
    show "I (Suc k) (snd (leave (body (ps ! k) s)))"
      using step [OF k, of s] I unfolding l by (simp add: I_def)
  qed blast
  then show ?thesis using that unfolding I_def by blast
qed

lemma check_pass_ok:
  fixes body :: "nat \<Rightarrow> vm_st \<Rightarrow> vm_st"
  assumes ex: "is_exit leave" and P0: "P 0 (vmwc st)"
    and step: "\<And>j s. j < length ps \<Longrightarrow> P j (vmwc s) \<Longrightarrow> vmem s = vmem st \<Longrightarrow>
      ok_run s (body (ps ! j) s) \<and> P (Suc j) (vmwc (body (ps ! j) s)) \<and> vmem (body (ps ! j) s) = vmem s"
  shows "ok_run st (snd (vm_loop body leave ps st))" "vmem (snd (vm_loop body leave ps st)) = vmem st"
  by (rule check_pass [of leave P st ps body "\<lambda>_. 0", OF ex P0]; use step in \<open>force simp: ok_run_def\<close>)+

end
