(* ===== verification/Vm_Sound.thy ===== *)
theory Vm_Sound
  imports Vm_Loops
begin

text \<open>
  No false alarms: on sound memory the test methods report no bit error, whatever the keep-stressing
  flag does and wherever the operation limit stops them, and they stay inside the buffer.
\<close>

section \<open>Clean runs\<close>

text \<open>A method run is clean when it reports no error and leaves size, bounds flag and reports alone.\<close>

definition clean :: "vm_st \<Rightarrow> u64 \<times> vm_st \<Rightarrow> bool" where
  "clean st r \<longleftrightarrow> fst r = 0 \<and> vsz (snd r) = vsz st \<and> voob (snd r) = voob st \<and> vfails (snd r) = vfails st"

lemma ok_then:
  "ok_run st (snd r) \<Longrightarrow> (\<not> fst r \<Longrightarrow> ok_run (snd r) (snd (f (snd r)))) \<Longrightarrow> ok_run st (snd (vm_then r f))"
  by (cases r) (auto simp: vm_then_def intro: ok_run_trans)

lemma clean_return: "ok_run (errs0 st0) st \<Longrightarrow> clean st0 (vm_return env name st)"
  by (simp add: clean_def vm_return_def stress_vm_check_def ok_run_def Let_def)

lemma vseeds_ok: "vseeds env st = (w, z, s) \<Longrightarrow> ok_run st s \<and> vmem s = vmem st"
  by (auto simp: vseeds_def vreseed_def vdraw_def ok_run_def Let_def split: prod.splits)

lemma vseed_ok [simp]:
  "ok_run st (vseed w z st)" "vmem (vseed w z st) = vmem st" "at_draw f w z 0 (vmwc (vseed w z st))"
  by (simp_all add: vseed_def ok_run_def at_draw_0)

lemma ok_run_sz: "ok_run st st' \<Longrightarrow> vsz st' = vsz st"
  by (simp add: ok_run_def)

lemma wr_range_cong: "(\<And>i. i < n \<Longrightarrow> f i = g i) \<Longrightarrow> wr_range m p n f = wr_range m p n g"
  by (rule mem_eqI) auto

lemma fold_vtest_ok:
  assumes "\<forall>k < n. rd (vmem st) (p + k) = f k" "p + n \<le> vsz st"
  shows "fold (\<lambda>k. vtest (p + k) (f k)) [0..<n] st = st"
proof -
  have "(\<Sum>k<n. of_bool (rd (vmem st) (p + k) \<noteq> f k) :: u64) = 0" using assms(1) by (intro sum.neutral) simp
  then show ?thesis using assms(2) by (simp only: fold_vtest) simp
qed

section \<open>Random patterns\<close>

lemma rand_fill_step:
  assumes "sound_mem env" "at_draw mwc8 w z j (vmwc s)" "p + 8 \<le> vsz s"
  shows "ok_run s (rand_fill env p s) \<and> at_draw mwc8 w z (Suc j) (vmwc (rand_fill env p s)) \<and>
    vmem (rand_fill env p s) = wr_range (vmem s) p 8 (\<lambda>_. stream mwc8 w z j)"
  using assms at_draw_step8 [OF assms(2)]
  by (simp add: rand_fill_def vdraw_def split_def run_effects ok_run_def)

lemma rand_test_step:
  assumes "at_draw mwc8 w z j (vmwc s)" "p + 8 \<le> vsz s"
    and "\<forall>i < 8. rd (vmem s) (p + i) = f (stream mwc8 w z j)"
  shows "ok_run s (rand_test f p s) \<and> at_draw mwc8 w z (Suc j) (vmwc (rand_test f p s)) \<and>
    vmem (rand_test f p s) = vmem s"
  using assms at_draw_step8 [OF assms(1)]
  by (simp add: rand_test_def vdraw_def split_def vtest8_def fold_vtest_ok ok_run_def)

lemma vupd8_step:
  assumes "sound_mem env" "p + 8 \<le> vsz s"
  shows "ok_run s (vupd8 env p f s)" "vmwc (vupd8 env p f s) = vmwc s"
    "vmem (vupd8 env p f s) = wr_range (vmem s) p 8 (\<lambda>i. f (rd (vmem s) (p + i)))"
  using assms by (simp_all add: run_effects ok_run_def)

lemma chunksD: "chunks ps n val m \<Longrightarrow> j < length ps \<Longrightarrow> i < n \<Longrightarrow> rd m (ps ! j + i) = val j i"
  by (simp add: chunks_def)

lemma gridD: "grid ps n sz \<Longrightarrow> j < length ps \<Longrightarrow> ps ! j + n \<le> sz"
  by (simp add: grid_def)

lemma chunks_refl: "chunks ps n (\<lambda>j i. rd m (ps ! j + i)) m"
  by (simp add: chunks_def)

text \<open>The three kinds of pass over eight byte chunks.\<close>

lemma rand_fill_pass:
  assumes "sound_mem env" "grid ps 8 (vsz st)" "is_exit leave" "at_draw mwc8 w z 0 (vmwc st)"
  shows "ok_run st (snd (vm_loop (rand_fill env) leave ps st))"
    "\<not> fst (vm_loop (rand_fill env) leave ps st) \<Longrightarrow>
      chunks ps 8 (\<lambda>j i. stream mwc8 w z j) (vmem (snd (vm_loop (rand_fill env) leave ps st)))"
proof -
  have step: "ok_run s (rand_fill env (ps ! j) s) \<and> at_draw mwc8 w z (Suc j) (vmwc (rand_fill env (ps ! j) s)) \<and>
      vmem (rand_fill env (ps ! j) s) = wr_range (vmem s) (ps ! j) 8 (\<lambda>i. stream mwc8 w z j)"
    if "j < length ps" "at_draw mwc8 w z j (vmwc s)" "vsz s = vsz st" for j s
    using rand_fill_step [OF assms(1) that(2)] gridD [OF assms(2) that(1)] that(3) by simp
  note * = rw_pass [where P = "at_draw mwc8 w z" and body = "rand_fill env" and val = "\<lambda>j i. stream mwc8 w z j",
     OF assms(2-4) chunks_refl]
  show "ok_run st (snd (vm_loop (rand_fill env) leave ps st))" by (rule *(1)) (use step in blast)
  show "chunks ps 8 (\<lambda>j i. stream mwc8 w z j) (vmem (snd (vm_loop (rand_fill env) leave ps st)))"
    if "\<not> fst (vm_loop (rand_fill env) leave ps st)"
    by (rule *(2)) (use step that in blast)+
qed

lemma vupd8_pass:
  assumes "sound_mem env" "grid ps 8 (vsz st)" "is_exit leave" "chunks ps 8 c (vmem st)"
  shows "ok_run st (snd (vm_loop (\<lambda>p. vupd8 env p f) leave ps st))"
    "\<not> fst (vm_loop (\<lambda>p. vupd8 env p f) leave ps st) \<Longrightarrow>
      chunks ps 8 (\<lambda>j i. f (c j i)) (vmem (snd (vm_loop (\<lambda>p. vupd8 env p f) leave ps st)))"
proof -
  have step: "ok_run s (vupd8 env (ps ! j) f s) \<and> True \<and>
      vmem (vupd8 env (ps ! j) f s) = wr_range (vmem s) (ps ! j) 8 (\<lambda>i. f (c j i))"
    if "j < length ps" "vsz s = vsz st" "\<forall>i < 8. rd (vmem s) (ps ! j + i) = c j i" for j s
    using vupd8_step [OF assms(1), of "ps ! j" s f] gridD [OF assms(2) that(1)] that(2,3)
    by (auto intro!: wr_range_cong)
  note * = rw_pass [where P = "\<lambda>_ _. True" and body = "\<lambda>p. vupd8 env p f" and val = "\<lambda>j i. f (c j i)",
     OF assms(2,3) TrueI assms(4)]
  show "ok_run st (snd (vm_loop (\<lambda>p. vupd8 env p f) leave ps st))" by (rule *(1)) (use step in blast)
  show "chunks ps 8 (\<lambda>j i. f (c j i)) (vmem (snd (vm_loop (\<lambda>p. vupd8 env p f) leave ps st)))"
    if "\<not> fst (vm_loop (\<lambda>p. vupd8 env p f) leave ps st)"
    by (rule *(2)) (use step that in blast)+
qed

lemma rand_test_pass:
  assumes "grid ps 8 (vsz st)" "is_exit leave" "at_draw mwc8 w z 0 (vmwc st)"
    "chunks ps 8 (\<lambda>j i. f (stream mwc8 w z j)) (vmem st)"
  shows "ok_run st (snd (vm_loop (rand_test f) leave ps st))"
  by (rule check_pass_ok [where P = "at_draw mwc8 w z", OF assms(2,3)])
    (rule rand_test_step, auto dest: gridD [OF assms(1)] chunksD [OF assms(4)])

lemma ok_run_vseed [simp]: "ok_run (vseed w z st) s = ok_run st s"
  by (simp add: ok_run_def vseed_def)

lemma rand_fill_seeded:
  assumes "sound_mem env" "grid ps 8 (vsz st)" "is_exit leave"
  shows "ok_run st (snd (vm_loop (rand_fill env) leave ps (vseed w z st)))"
    "\<not> fst (vm_loop (rand_fill env) leave ps (vseed w z st)) \<Longrightarrow>
      chunks ps 8 (\<lambda>j i. stream mwc8 w z j) (vmem (snd (vm_loop (rand_fill env) leave ps (vseed w z st))))"
  using rand_fill_pass [where st = "vseed w z st" and w = w and z = z, OF assms(1) _ assms(3)] assms(2)
  by auto

lemma rand_test_seeded:
  assumes "grid ps 8 (vsz st)" "is_exit leave" "chunks ps 8 (\<lambda>j i. f (stream mwc8 w z j)) (vmem st)"
  shows "ok_run st (snd (vm_loop (rand_test f) leave ps (vseed w z st)))"
  using rand_test_pass [where st = "vseed w z st" and w = w and z = z, OF _ assms(2)] assms(1,3)
  by auto

lemmas sound_frame = mincore_touch_pages_id inject_sound

lemma grid_run: "grid ps n (vsz st) \<Longrightarrow> ok_run st st' \<Longrightarrow> grid ps n (vsz st')"
  by (simp add: ok_run_def)

lemma seeds_cases:
  obtains w z s where "vseeds env st = (w, z, s)" "ok_run st s"
  using vseeds_ok by (metis prod_cases3)

lemma rand_set_clean:
  assumes s: "sound_mem env" and d: "8 dvd vsz st"
  shows "clean st (stress_vm_rand_set env st)"
proof -
  let ?ps = "offsets 8 (vsz st)"
  obtain w z s1 where v: "vseeds env (errs0 st) = (w, z, s1)" and s1: "ok_run (errs0 st) s1" by (rule seeds_cases)
  have g: "grid ?ps 8 (vsz s1)" using grid_offsets [OF d] ok_run_sz [OF s1] by simp
  let ?A = "vm_loop (rand_fill env) (exit_ops_keep env) ?ps (vseed w z s1)"
  note A = rand_fill_seeded [OF s g, of "exit_ops_keep env" w z, simplified]
  have "ok_run (snd ?A) (snd (vm_loop (rand_test id) (exit_keep env) ?ps (vseed w z (snd ?A))))" if "\<not> fst ?A"
    using rand_test_seeded [OF grid_run [OF g A(1)], of "exit_keep env" id w z] A(2) [OF that] by simp
  then show ?thesis
    unfolding stress_vm_rand_set_def Let_def v split_conv sound_frame [OF s]
    by (intro clean_return ok_run_trans [OF s1] ok_then A(1))
qed

lemma ror_clean:
  assumes s: "sound_mem env" and d: "8 dvd vsz st"
  shows "clean st (stress_vm_ror env st)"
proof -
  let ?ps = "offsets 8 (vsz st)"
  obtain w z s1 where v: "vseeds env (errs0 st) = (w, z, s1)" and s1: "ok_run (errs0 st) s1" by (rule seeds_cases)
  have g: "grid ?ps 8 (vsz s1)" using grid_offsets [OF d] ok_run_sz [OF s1] by simp
  let ?A = "vm_loop (rand_fill env) (exit_ops_keep env) ?ps (vseed w z s1)"
  note A = rand_fill_seeded [OF s g, of "exit_ops_keep env" w z, simplified]
  note gA = grid_run [OF g A(1)]
  let ?B = "vm_loop (\<lambda>p. vupd8 env p ROR64_byte) (exit_ops_keep env) ?ps (snd ?A)"
  note B = vupd8_pass [OF s gA exits_are_exits(4) [of env] A(2), of ROR64_byte]
  have "ok_run (snd ?B) (snd (vm_loop (rand_test ROR64_byte) (exit_keep env) ?ps (vseed w z (snd ?B))))"
    if "\<not> fst ?A" "\<not> fst ?B"
    using rand_test_seeded [OF grid_run [OF gA B(1) [OF that(1)]], of "exit_keep env" ROR64_byte w z] B(2) that by simp
  then show ?thesis
    unfolding stress_vm_ror_def Let_def v split_conv sound_frame [OF s]
    by (intro clean_return ok_run_trans [OF s1] ok_then A(1) B(1))
qed

subsection \<open>Flipping\<close>

lemma flip_fill_step:
  assumes "sound_mem env" "at_draw mwc8 w z j (vmwc s)" "p + 8 \<le> vsz s"
  shows "ok_run s (flip_fill env p s) \<and> at_draw mwc8 w z (Suc j) (vmwc (flip_fill env p s)) \<and>
    vmem (flip_fill env p s) = wr_range (vmem s) p 8 (\<lambda>i. ror8_seq (stream mwc8 w z j) ! i)"
  using assms at_draw_step8 [OF assms(2)]
  by (simp add: flip_fill_def vdraw_def split_def run_effects ok_run_def)

lemma flip_test_step:
  assumes "at_draw mwc8 w z j (vmwc s)" "p + 8 \<le> vsz s"
    and "\<forall>i < 8. rd (vmem s) (p + i) = ror8_seq (stream mwc8 w z j) ! i"
  shows "ok_run s (flip_test p s) \<and> at_draw mwc8 w z (Suc j) (vmwc (flip_test p s)) \<and>
    vmem (flip_test p s) = vmem s"
  using assms at_draw_step8 [OF assms(1)]
  by (simp add: flip_test_def vdraw_def split_def fold_vtest_ok ok_run_def)

lemma flip_fill_seeded:
  assumes s: "sound_mem env" and g: "grid ps 8 (vsz st)" and ex: "is_exit leave"
  shows "ok_run st (snd (vm_loop (flip_fill env) leave ps (vseed w z st)))"
    "\<not> fst (vm_loop (flip_fill env) leave ps (vseed w z st)) \<Longrightarrow>
      chunks ps 8 (\<lambda>j i. ror8_seq (stream mwc8 w z j) ! i) (vmem (snd (vm_loop (flip_fill env) leave ps (vseed w z st))))"
proof -
  have g': "grid ps 8 (vsz (vseed w z st))" using g by simp
  have step: "ok_run s (flip_fill env (ps ! j) s) \<and> at_draw mwc8 w z (Suc j) (vmwc (flip_fill env (ps ! j) s)) \<and>
      vmem (flip_fill env (ps ! j) s) = wr_range (vmem s) (ps ! j) 8 (\<lambda>i. ror8_seq (stream mwc8 w z j) ! i)"
    if "j < length ps" "at_draw mwc8 w z j (vmwc s)" "vsz s = vsz (vseed w z st)" for j s
    using flip_fill_step [OF s that(2)] gridD [OF g' that(1)] that(3) by simp
  note * = rw_pass [where P = "at_draw mwc8 w z" and body = "flip_fill env"
     and val = "\<lambda>j i. ror8_seq (stream mwc8 w z j) ! i", OF g' ex vseed_ok(3) chunks_refl]
  have "ok_run (vseed w z st) (snd (vm_loop (flip_fill env) leave ps (vseed w z st)))" by (rule *(1)) (use step in blast)
  then show "ok_run st (snd (vm_loop (flip_fill env) leave ps (vseed w z st)))" by (rule ok_run_trans [OF vseed_ok(1)])
  show "chunks ps 8 (\<lambda>j i. ror8_seq (stream mwc8 w z j) ! i) (vmem (snd (vm_loop (flip_fill env) leave ps (vseed w z st))))"
    if "\<not> fst (vm_loop (flip_fill env) leave ps (vseed w z st))"
    by (rule *(2)) (use step that in blast)+
qed

lemma flip_test_seeded:
  assumes "grid ps 8 (vsz st)" "is_exit leave" "chunks ps 8 (\<lambda>j i. ror8_seq (stream mwc8 w z j) ! i) (vmem st)"
  shows "ok_run st (snd (vm_loop flip_test leave ps (vseed w z st)))"
proof -
  have "ok_run (vseed w z st) (snd (vm_loop flip_test leave ps (vseed w z st)))"
    by (rule check_pass_ok [where P = "at_draw mwc8 w z", OF assms(2) vseed_ok(3)])
      (rule flip_test_step, auto dest: gridD [OF assms(1)] chunksD [OF assms(3)])
  then show ?thesis by simp
qed

text \<open>The bits that the rounds have flipped an odd number of times.\<close>

fun flip_acc :: "nat \<Rightarrow> u8 \<Rightarrow> u8" where
  "flip_acc 0 b = 0"
| "flip_acc (Suc n) b = ROR8 b XOR flip_acc n (ROR8 b)"

lemma flip_acc_8: "flip_acc 8 0x03 = 0"
  by code_simp

lemma flip_rounds_chunks:
  assumes s: "sound_mem env" and "grid ps 8 (vsz st)" "chunks ps 8 c (vmem st)"
  shows "ok_run st (snd (flip_rounds env ps n b st)) \<and> (\<not> fst (flip_rounds env ps n b st) \<longrightarrow>
      chunks ps 8 (\<lambda>j i. c j i XOR flip_acc n b) (vmem (snd (flip_rounds env ps n b st))))"
  using assms(2,3)
proof (induction n arbitrary: b st c)
  case (Suc n)
  let ?A = "vm_loop (\<lambda>p. vupd8 env p (\<lambda>v. v XOR ROR8 b)) (exit_ops_keep env) ps st"
  note A = vupd8_pass [OF s Suc.prems(1) exits_are_exits(4) [of env] Suc.prems(2), of "\<lambda>v. v XOR ROR8 b"]
  show ?case
  proof (cases "fst ?A")
    case True
    then show ?thesis using A(1) by (simp add: vm_then_def Let_def split_def)
  next
    case False
    from Suc.IH [OF grid_run [OF Suc.prems(1) A(1)] A(2) [OF False], of "ROR8 b"] ok_run_trans [OF A(1)] False
    show ?thesis by (auto simp: vm_then_def Let_def split_def mincore_touch_pages_id [OF s] xor.assoc)
  qed
qed simp

lemma flip_clean:
  assumes s: "sound_mem env" and d: "8 dvd vsz st"
  shows "clean st (stress_vm_flip env st)"
proof -
  let ?ps = "offsets 8 (vsz st)"
  obtain w z s1 where v: "vseeds env (errs0 st) = (w, z, s1)" and s1: "ok_run (errs0 st) s1" by (rule seeds_cases)
  have g: "grid ?ps 8 (vsz s1)" using grid_offsets [OF d] ok_run_sz [OF s1] by simp
  let ?A = "vm_loop (flip_fill env) (exit_ops_keep env) ?ps (vseed w z s1)"
  note A = flip_fill_seeded [OF s g exits_are_exits(4) [of env], of w z]
  note gA = grid_run [OF g A(1)]
  let ?B = "flip_rounds env ?ps 8 3 (snd ?A)"
  note B = flip_rounds_chunks [OF s gA A(2), of 8 3]
  have "ok_run (snd ?B) (snd (vm_loop flip_test (exit_keep env) ?ps (vseed w z (snd ?B))))"
    if "\<not> fst ?A" "\<not> fst ?B"
    using flip_test_seeded [OF grid_run [OF gA conjunct1 [OF B]], of "exit_keep env" w z] B that
    by (simp add: flip_acc_8)
  then show ?thesis
    unfolding stress_vm_flip_def Let_def v split_conv sound_frame [OF s]
    by (intro clean_return ok_run_trans [OF s1] ok_then A(1) conjunct1 [OF B])
qed

section \<open>Nybbles\<close>

lemma vmemset_ok:
  assumes "sound_mem env"
  shows "ok_run st (vmemset env v st)" "vmwc (vmemset env v st) = vmwc st"
    "i < vsz st \<Longrightarrow> rd (vmem (vmemset env v st)) i = v"
  using assms by (simp_all add: vmemset_def ok_run_def rd_def)

lemma vtest8_pass:
  assumes "grid ps 8 (vsz st)" "is_exit leave" "chunks ps 8 (\<lambda>j i. v) (vmem st)"
  shows "ok_run st (snd (vm_loop (\<lambda>p. vtest8 p v) leave ps st))"
  by (rule check_pass_ok [where P = "\<lambda>_ _. True", OF assms(2) TrueI])
    (auto simp: vtest8_def fold_vtest_ok gridD [OF assms(1)] chunksD [OF assms(3)])

lemma inc_nybble_clean:
  assumes s: "sound_mem env" and d: "8 dvd vsz st"
  shows "clean st (stress_vm_inc_nybble env st)"
proof -
  let ?ps = "offsets 8 (vsz st)" and ?v = "nybble_val st"
  let ?val = "INC_HI_NYBBLE (INC_LO_NYBBLE ?v)"
  let ?s1 = "vreseed env ((vmemset env ?v (errs0 st))\<lparr>nybble_val := ?val\<rparr>)"
  have s1: "ok_run (errs0 st) ?s1" using vmemset_ok(1) [OF s, of "errs0 st" ?v] by (simp add: vreseed_def ok_run_def)
  have g: "grid ?ps 8 (vsz ?s1)" using grid_offsets [OF d] ok_run_sz [OF s1] by simp
  have c: "chunks ?ps 8 (\<lambda>j i. ?v) (vmem ?s1)"
    unfolding chunks_def using vmemset_ok(3) [OF s, of _ "errs0 st" ?v] gridD [OF g] ok_run_sz [OF s1]
    by (force simp: vreseed_def)
  let ?A = "vm_loop (\<lambda>p. vupd8 env p INC_LO_NYBBLE) (exit_ops_keep env) ?ps ?s1"
  note A = vupd8_pass [OF s g exits_are_exits(4) [of env] c, of INC_LO_NYBBLE]
  note gA = grid_run [OF g A(1)]
  let ?B = "vm_loop (\<lambda>p. vupd8 env p INC_HI_NYBBLE) (exit_ops_keep env) ?ps (snd ?A)"
  note B = vupd8_pass [OF s gA exits_are_exits(4) [of env] A(2), of INC_HI_NYBBLE]
  have "ok_run (snd ?B) (snd (vm_loop (\<lambda>p. vtest8 p ?val) (exit_keep env) ?ps (snd ?B)))"
    if "\<not> fst ?A" "\<not> fst ?B"
    by (rule vtest8_pass [OF grid_run [OF gA B(1) [OF that(1)]] exits_are_exits(2) B(2) [OF that]])
  then show ?thesis
    unfolding stress_vm_inc_nybble_def Let_def sound_frame [OF s]
    by (intro clean_return ok_run_trans [OF s1] ok_then A(1) B(1))
qed

section \<open>Words of eight bytes\<close>

lemma bit_bytes:
  "bit (foldr (\<lambda>k v. ucast (g k) OR push_bit 8 v) [a..<b] 0 :: 'a::len word) n \<longleftrightarrow>
    n < LENGTH('a) \<and> n div 8 < b - a \<and> bit (g (a + n div 8) :: u8) (n mod 8)"
proof (induction "b - a" arbitrary: a n)
  case (Suc k)
  then have ab: "a < b" by simp
  have IH: "bit (foldr (\<lambda>k v. ucast (g k) OR push_bit 8 v) [Suc a..<b] 0 :: 'a::len word) n \<longleftrightarrow>
      n < LENGTH('a) \<and> n div 8 < b - Suc a \<and> bit (g (Suc a + n div 8)) (n mod 8)" for n
    using Suc(1) [of "Suc a"] Suc(2) by simp
  show ?case
  proof (cases "n < 8")
    case True
    then show ?thesis using ab unfolding upt_conv_Cons [OF ab] by (auto simp: bit_or_iff bit_push_bit_iff bit_unsigned_iff)
  next
    case False
    then obtain m where m: "n = m + 8" by (metis add.commute le_Suc_ex not_less)
    have "\<not> bit (ucast (g a) :: 'a::len word) n" using False by (auto simp: bit_unsigned_iff dest: bit_imp_le_length)
    moreover have "(m + 8) div 8 = Suc (m div 8)" "(m + 8) mod 8 = m mod 8" by simp_all
    ultimately show ?thesis
      using IH [of m] ab unfolding m upt_conv_Cons [OF ab] by (auto simp: bit_or_iff bit_push_bit_iff)
  qed
qed simp

lemma bit_rd64: "bit (rd64 m i) n \<longleftrightarrow> n < 64 \<and> bit (rd m (i + n div 8)) (n mod 8)"
  using bit_bytes [where 'a = 64, of "\<lambda>k. rd m (i + k)" 0 8 n] by (auto simp: rd64_def)

lemma bit_byte_n: "bit (byte_n k v) n \<longleftrightarrow> n < 8 \<and> bit (v :: 'a::len word) (8 * k + n)"
  by (auto simp: byte_n_def bit_unsigned_iff bit_drop_bit_eq dest: bit_imp_le_length)

lemma rd64_bytes:
  assumes "\<forall>i < 8. rd m (p + i) = byte_n i v"
  shows "rd64 m p = v"
proof (rule bit_word_eqI)
  fix n assume "n < LENGTH(64)"
  then have "n div 8 < 8" by simp
  then show "bit (rd64 m p) n = bit v n"
    using assms \<open>n < LENGTH(64)\<close> by (simp add: bit_rd64 bit_byte_n)
qed

section \<open>Moving inversion\<close>

lemma minv_fill_step:
  assumes "sound_mem env" "at_draw mwc64 w z j (vmwc s)" "p + 8 \<le> vsz s"
  shows "ok_run s (minv_fill env p s) \<and> at_draw mwc64 w z (Suc j) (vmwc (minv_fill env p s)) \<and>
    vmem (minv_fill env p s) = wr_range (vmem s) p 8 (\<lambda>i. byte_n i (stream mwc64 w z j))"
  using assms at_draw_step64 [OF assms(2)]
  by (simp add: minv_fill_def vdraw_def split_def run_effects ok_run_def)

lemma minv_test_step:
  assumes "at_draw mwc64 w z j (vmwc s)" "p + 8 \<le> vsz s"
    and "\<forall>i < 8. rd (vmem s) (p + i) = byte_n i (f (stream mwc64 w z j))"
  shows "ok_run s (minv_test f p s) \<and> at_draw mwc64 w z (Suc j) (vmwc (minv_test f p s)) \<and>
    vmem (minv_test f p s) = vmem s"
  using assms at_draw_step64 [OF assms(1)] rd64_bytes [OF assms(3)]
  by (simp add: minv_test_def vdraw_def split_def vread64_def verr_def ok_run_def)

lemma minv_test_invert_step:
  assumes "sound_mem env" "at_draw mwc64 w z j (vmwc s)" "p + 8 \<le> vsz s"
    and "\<forall>i < 8. rd (vmem s) (p + i) = byte_n i (stream mwc64 w z j)"
  shows "ok_run s (minv_test_invert env p s) \<and> at_draw mwc64 w z (Suc j) (vmwc (minv_test_invert env p s)) \<and>
    vmem (minv_test_invert env p s) = wr_range (vmem s) p 8 (\<lambda>i. byte_n i (NOT (stream mwc64 w z j)))"
  using assms at_draw_step64 [OF assms(2)] rd64_bytes [OF assms(4)]
  by (simp add: minv_test_invert_def vdraw_def split_def vread64_def verr_def run_effects ok_run_def)

abbreviation words :: "nat list \<Rightarrow> (nat \<Rightarrow> u64) \<Rightarrow> vm_st \<Rightarrow> bool" where
  "words ps v st \<equiv> chunks ps 8 (\<lambda>j i. byte_n i (v j)) (vmem st)"

lemma minv_fill_pass:
  assumes s: "sound_mem env" and g: "grid ps 8 (vsz st)" and ex: "is_exit leave"
    and d: "at_draw mwc64 w z 0 (vmwc st)"
  shows "ok_run st (snd (vm_loop (minv_fill env) leave ps st))"
    "\<not> fst (vm_loop (minv_fill env) leave ps st) \<Longrightarrow> words ps (stream mwc64 w z) (snd (vm_loop (minv_fill env) leave ps st))"
proof -
  have step: "ok_run s (minv_fill env (ps ! j) s) \<and> at_draw mwc64 w z (Suc j) (vmwc (minv_fill env (ps ! j) s)) \<and>
      vmem (minv_fill env (ps ! j) s) = wr_range (vmem s) (ps ! j) 8 (\<lambda>i. byte_n i (stream mwc64 w z j))"
    if "j < length ps" "at_draw mwc64 w z j (vmwc s)" "vsz s = vsz st" for j s
    using minv_fill_step [OF s that(2)] gridD [OF g that(1)] that(3) by simp
  note * = rw_pass [where P = "at_draw mwc64 w z" and body = "minv_fill env"
     and val = "\<lambda>j i. byte_n i (stream mwc64 w z j)", OF g ex d chunks_refl]
  show "ok_run st (snd (vm_loop (minv_fill env) leave ps st))" by (rule *(1)) (use step in blast)
  show "words ps (stream mwc64 w z) (snd (vm_loop (minv_fill env) leave ps st))"
    if "\<not> fst (vm_loop (minv_fill env) leave ps st)"
    by (rule *(2)) (use step that in blast)+
qed

lemma minv_test_pass:
  assumes "grid ps 8 (vsz st)" "is_exit leave" "at_draw mwc64 w z 0 (vmwc st)"
    "words ps (\<lambda>j. f (stream mwc64 w z j)) st"
  shows "ok_run st (snd (vm_loop (minv_test f) leave ps st))"
  by (rule check_pass_ok [where P = "at_draw mwc64 w z", OF assms(2,3)])
    (rule minv_test_step, auto dest: gridD [OF assms(1)] chunksD [OF assms(4)])

lemma minv_test_invert_pass:
  assumes s: "sound_mem env" and g: "grid ps 8 (vsz st)" and ex: "is_exit leave"
    and d: "at_draw mwc64 w z 0 (vmwc st)" and c: "words ps (stream mwc64 w z) st"
  shows "ok_run st (snd (vm_loop (minv_test_invert env) leave ps st))"
    "\<not> fst (vm_loop (minv_test_invert env) leave ps st) \<Longrightarrow>
      words ps (\<lambda>j. NOT (stream mwc64 w z j)) (snd (vm_loop (minv_test_invert env) leave ps st))"
proof -
  have step: "ok_run s (minv_test_invert env (ps ! j) s) \<and> at_draw mwc64 w z (Suc j) (vmwc (minv_test_invert env (ps ! j) s)) \<and>
      vmem (minv_test_invert env (ps ! j) s) = wr_range (vmem s) (ps ! j) 8 (\<lambda>i. byte_n i (NOT (stream mwc64 w z j)))"
    if "j < length ps" "at_draw mwc64 w z j (vmwc s)" "vsz s = vsz st"
      "\<forall>i < 8. rd (vmem s) (ps ! j + i) = byte_n i (stream mwc64 w z j)" for j s
    using minv_test_invert_step [OF s that(2) _ that(4)] gridD [OF g that(1)] that(3) by simp
  note * = rw_pass [where P = "at_draw mwc64 w z" and body = "minv_test_invert env"
     and val = "\<lambda>j i. byte_n i (NOT (stream mwc64 w z j))", OF g ex d c]
  show "ok_run st (snd (vm_loop (minv_test_invert env) leave ps st))" by (rule *(1)) (use step in blast)
  show "words ps (\<lambda>j. NOT (stream mwc64 w z j)) (snd (vm_loop (minv_test_invert env) leave ps st))"
    if "\<not> fst (vm_loop (minv_test_invert env) leave ps st)"
    by (rule *(2)) (use step that in blast)+
qed

lemma vm_loop_none: "\<not> fst (vm_loop body exit_none ps st)"
  by (induction ps arbitrary: st) (simp_all add: exit_none_def)

lemma ok_run_errs0:
  "ok_run a b \<Longrightarrow> ok_run (errs0 a) (errs0 b)"
  "verrs b = 0 \<Longrightarrow> ok_run a b \<Longrightarrow> ok_run a (errs0 b)"
  by (simp_all add: ok_run_def)

lemma minv_fill_invert_test:
  assumes s: "sound_mem env" and g: "grid ps 8 (vsz st)"
  shows "ok_run st (snd
    (vm_then (vm_loop (minv_fill env) (exit_ops env) ps (vseed w z st))
    (\<lambda>st. vm_then (vm_loop (minv_test_invert env) (exit_ops_keep env) ps (vseed w z st))
    (\<lambda>st. vm_loop (minv_test (\<lambda>v. NOT v)) (exit_keep env) ps (vseed w z st)))))"
proof -
  let ?A = "vm_loop (minv_fill env) (exit_ops env) ps (vseed w z st)"
  have g0: "grid ps 8 (vsz (vseed w z st))" using g by simp
  note A = minv_fill_pass [OF s g0 exits_are_exits(3) [of env] vseed_ok(3), simplified]
  have gA: "grid ps 8 (vsz (vseed w z (snd ?A)))" using grid_run [OF g A(1)] by simp
  let ?B = "vm_loop (minv_test_invert env) (exit_ops_keep env) ps (vseed w z (snd ?A))"
  have B: "ok_run (snd ?A) (snd ?B)" "\<not> fst ?B \<Longrightarrow> words ps (\<lambda>j. NOT (stream mwc64 w z j)) (snd ?B)"
    if "\<not> fst ?A"
    using minv_test_invert_pass [OF s gA exits_are_exits(4) [of env] vseed_ok(3)] A(2) [OF that] by simp_all
  have C: "ok_run (snd ?B) (snd (vm_loop (minv_test (\<lambda>v. NOT v)) (exit_keep env) ps (vseed w z (snd ?B))))"
    if "\<not> fst ?A" "\<not> fst ?B"
  proof -
    have "grid ps 8 (vsz (vseed w z (snd ?B)))" using grid_run [OF grid_run [OF g A(1)] B(1) [OF that(1)]] by simp
    from minv_test_pass [OF this exits_are_exits(2) [of env] vseed_ok(3), of "\<lambda>v. NOT v"] B(2) [OF that]
    show ?thesis by simp
  qed
  show ?thesis by (intro ok_then A(1) B(1) C)
qed

lemma moving_inversion_clean:
  assumes s: "sound_mem env" and d: "8 dvd vsz st"
  shows "clean st (stress_vm_moving_inversion env st)"
proof -
  let ?ps = "offsets 8 (vsz st)"
  obtain w z s1 where v: "vseeds env st = (w, z, s1)" and s1: "ok_run st s1" by (rule seeds_cases)
  have g: "grid ?ps 8 (vsz st)" using grid_offsets [OF d] by simp
  have g1: "grid ?ps 8 (vsz (vseed w z s1))" using grid_run [OF g s1] by simp
  let ?F = "vm_loop (minv_fill env) exit_none ?ps (vseed w z s1)"
  note F = minv_fill_pass [OF s g1 exits_are_exits(1) vseed_ok(3)]
  let ?s2 = "errs0 (vseed w z (snd ?F))"
  have "ok_run st (snd ?F)" using ok_run_trans [OF s1] F(1) by simp
  then have r: "ok_run (errs0 st) ?s2" by (simp add: ok_run_def vseed_def)
  have g2: "grid ?ps 8 (vsz ?s2)" using g ok_run_sz [OF r] by simp
  have c2: "words ?ps (stream mwc64 w z) ?s2" using F(2) [OF vm_loop_none] by simp
  have d2: "at_draw mwc64 w z 0 (vmwc ?s2)" using vseed_ok(3) [of mwc64 w z "snd ?F"] by simp
  let ?A = "vm_loop (minv_test_invert env) (exit_ops_keep env) ?ps ?s2"
  note A = minv_test_invert_pass [OF s g2 exits_are_exits(4) [of env] d2 c2]
  let ?sA = "errs0 (vseed w z (snd ?A))"
  have rA: "ok_run (snd ?A) ?sA" using A(1) by (simp add: ok_run_def vseed_def)
  note gA = grid_run [OF g2 A(1)]
  have dA: "at_draw mwc64 w z 0 (vmwc ?sA)" using vseed_ok(3) [of mwc64 w z "snd ?A"] by simp
  let ?B = "vm_loop (minv_test (\<lambda>v. NOT v)) (exit_ops_keep env) ?ps ?sA"
  have B: "ok_run (snd ?A) (snd ?B)" if "\<not> fst ?A"
    using ok_run_trans [OF rA minv_test_pass [OF grid_run [OF gA rA] exits_are_exits(4) [of env] dA, of "\<lambda>v. NOT v"]]
      A(2) [OF that] by simp
  show ?thesis
    unfolding stress_vm_moving_inversion_def Let_def v split_conv sound_frame [OF s]
    by (intro clean_return ok_run_trans [OF r] ok_then A(1) B minv_fill_invert_test [OF s]
        grid_rev grid_run [OF gA B])
qed

section \<open>Random sums\<close>

lemma sum_fill_word:
  assumes "sound_mem env" "at_draw mwc64 w z (8 * j) (vmwc s)" "p + 64 \<le> vsz s" "n \<le> 8"
  shows "ok_run s (fold (\<lambda>k. minv_fill env (p + 8 * k)) [0..<n] s) \<and>
    at_draw mwc64 w z (8 * j + n) (vmwc (fold (\<lambda>k. minv_fill env (p + 8 * k)) [0..<n] s)) \<and>
    vmem (fold (\<lambda>k. minv_fill env (p + 8 * k)) [0..<n] s) =
      wr_range (vmem s) p (8 * n) (\<lambda>i. byte_n (i mod 8) (stream mwc64 w z (8 * j + i div 8)))"
  using assms(4)
proof (induction n)
  case 0
  then show ?case using assms by simp
next
  case (Suc n)
  let ?f = "fold (\<lambda>k. minv_fill env (p + 8 * k)) [0..<n] s"
  have IH: "ok_run s ?f" "at_draw mwc64 w z (8 * j + n) (vmwc ?f)"
    "vmem ?f = wr_range (vmem s) p (8 * n) (\<lambda>i. byte_n (i mod 8) (stream mwc64 w z (8 * j + i div 8)))"
    using Suc by auto
  have b: "p + 8 * n + 8 \<le> vsz ?f" using ok_run_sz [OF IH(1)] assms(3) Suc.prems by simp
  note st = minv_fill_step [OF assms(1) IH(2) b]
  have "wr_range (wr_range (vmem s) p (8 * n) (\<lambda>i. byte_n (i mod 8) (stream mwc64 w z (8 * j + i div 8))))
      (p + 8 * n) 8 (\<lambda>i. byte_n i (stream mwc64 w z (8 * j + n))) =
      wr_range (vmem s) p (8 * Suc n) (\<lambda>i. byte_n (i mod 8) (stream mwc64 w z (8 * j + i div 8)))"
  proof (rule mem_eqI, simp, goal_cases)
    case (1 i)
    then show ?case
    proof (cases "p + 8 * n \<le> i \<and> i < p + 8 * Suc n")
      case True
      then obtain r where r: "i = p + 8 * n + r" "r < 8" by (metis add_diff_cancel_left' le_add_diff_inverse mult_Suc_right nat_add_left_cancel_less add.assoc add.commute)
      have "(8 * n + r) div 8 = n" "(8 * n + r) mod 8 = r" using r(2) by simp_all
      then show ?thesis using 1 r by simp
    next
      case False
      then show ?thesis using 1 by auto
    qed
  qed
  then show ?case using st IH by (auto intro: ok_run_trans)
qed

lemma count_bits_0 [simp]: "stress_vm_count_bits 0 = 0"
  by (subst stress_vm_count_bits.simps) simp

lemma sum_test1_step:
  assumes "at_draw mwc64 w z k (vmwc s)" "p + 8 \<le> vsz s" "rd64 (vmem s) p = stream mwc64 w z k"
  shows "ok_run s (sum_test1 p s) \<and> at_draw mwc64 w z (Suc k) (vmwc (sum_test1 p s)) \<and> vmem (sum_test1 p s) = vmem s"
  using assms at_draw_step64 [OF assms(1)]
  by (simp add: sum_test1_def vread64_def vdraw_def split_def verr_def ok_run_def)

lemma sum_test_word:
  assumes "at_draw mwc64 w z (8 * j) (vmwc s)" "p + 64 \<le> vsz s" "n \<le> 8"
    and "\<forall>i < 64. rd (vmem s) (p + i) = byte_n (i mod 8) (stream mwc64 w z (8 * j + i div 8))"
  shows "ok_run s (fold (\<lambda>k. sum_test1 (p + 8 * k)) [0..<n] s) \<and>
    at_draw mwc64 w z (8 * j + n) (vmwc (fold (\<lambda>k. sum_test1 (p + 8 * k)) [0..<n] s)) \<and>
    vmem (fold (\<lambda>k. sum_test1 (p + 8 * k)) [0..<n] s) = vmem s"
  using assms(3)
proof (induction n)
  case (Suc n)
  let ?f = "fold (\<lambda>k. sum_test1 (p + 8 * k)) [0..<n] s"
  have IH: "ok_run s ?f" "at_draw mwc64 w z (8 * j + n) (vmwc ?f)" "vmem ?f = vmem s"
    using Suc by auto
  have "rd (vmem s) (p + 8 * n + i) = byte_n i (stream mwc64 w z (8 * j + n))" if "i < 8" for i
  proof -
    have "rd (vmem s) (p + (8 * n + i)) = byte_n ((8 * n + i) mod 8) (stream mwc64 w z (8 * j + (8 * n + i) div 8))"
      using assms(4) that Suc.prems by simp
    then show ?thesis using that by (simp add: add.assoc)
  qed
  then have "rd64 (vmem ?f) (p + 8 * n) = stream mwc64 w z (8 * j + n)" by (simp add: IH(3) rd64_bytes)
  moreover have "p + 8 * n + 8 \<le> vsz ?f" using ok_run_sz [OF IH(1)] assms(2) Suc.prems by simp
  ultimately show ?case
    using sum_test1_step [OF IH(2)] IH(1,3) by (auto intro: ok_run_trans)
qed (use assms in simp)

lemma rand_sum_clean:
  assumes s: "sound_mem env" and d: "512 dvd vsz st"
  shows "clean st (stress_vm_rand_sum env st)"
proof -
  let ?ps = "offsets 512 (vsz st)"
  obtain w z s1 where v: "vseeds env (errs0 st) = (w, z, s1)" and s1: "ok_run (errs0 st) s1" by (rule seeds_cases)
  let ?P = "\<lambda>j. at_draw mwc64 w z (8 * j)"
  let ?val = "\<lambda>j i. byte_n (i mod 8) (stream mwc64 w z (8 * j + i div 8))"
  have g: "grid ?ps 64 (vsz s1)" using grid_offsets [OF d] ok_run_sz [OF s1] by simp
  have P0: "?P 0 (vmwc (vseed w z st'))" for st' by simp
  let ?A = "vm_loop (sum_fill env) (exit_ops_keep env) ?ps (vseed w z s1)"
  have step: "ok_run s (sum_fill env (?ps ! j) s) \<and> ?P (Suc j) (vmwc (sum_fill env (?ps ! j) s)) \<and>
      vmem (sum_fill env (?ps ! j) s) = wr_range (vmem s) (?ps ! j) 64 (?val j)"
    if "j < length ?ps" "?P j (vmwc s)" "vsz s = vsz s1" for j s
    using sum_fill_word [OF s that(2), of "?ps ! j" 8] gridD [OF g that(1)] that(3) by (simp add: sum_fill_def add.commute)
  note * = rw_pass [where P = ?P and body = "sum_fill env" and val = ?val and st = "vseed w z s1",
     simplified, OF g exits_are_exits(4) [of env] chunks_refl]
  have A: "ok_run s1 (snd ?A)" by (rule *(1)) (use step in simp)
  have cA: "chunks ?ps 64 ?val (vmem (snd ?A))" if "\<not> fst ?A" by (rule *(2)) (use step that in simp_all)
  note gA = grid_run [OF g A]
  have "ok_run (vseed w z (snd ?A)) (snd (vm_loop sum_test (exit_keep env) ?ps (vseed w z (snd ?A))))" if "\<not> fst ?A"
  proof (rule check_pass_ok [where P = ?P, OF exits_are_exits(2) P0])
    fix j and s :: vm_st assume j: "j < length ?ps" "?P j (vmwc s)" "vmem s = vmem (vseed w z (snd ?A))"
    have "?ps ! j + 64 \<le> vsz s" using gridD [OF gA j(1)] j(3) by simp
    moreover have "\<forall>i < 64. rd (vmem s) (?ps ! j + i) = ?val j i" using chunksD [OF cA [OF that] j(1)] j(3) by simp
    ultimately show "ok_run s (sum_test (?ps ! j) s) \<and> ?P (Suc j) (vmwc (sum_test (?ps ! j) s)) \<and> vmem (sum_test (?ps ! j) s) = vmem s"
      using sum_test_word [OF j(2), of "?ps ! j" 8] by (simp add: sum_test_def add.commute)
  qed
  then show ?thesis
    unfolding stress_vm_rand_sum_def Let_def v split_conv sound_frame [OF s]
    by (intro clean_return ok_run_trans [OF s1] ok_then A) simp
qed

section \<open>Swapping\<close>

text \<open>A pass whose body acts on the buffer alone.\<close>

lemma mem_pass:
  fixes body :: "'p \<Rightarrow> vm_st \<Rightarrow> vm_st"
  assumes ex: "is_exit leave"
    and step: "\<And>p s. p \<in> set ps \<Longrightarrow> vsz s = vsz st \<Longrightarrow> ok_run s (body p s) \<and> vmem (body p s) = f p (vmem s)"
  shows "ok_run st (snd (vm_loop body leave ps st))"
    and "\<not> fst (vm_loop body leave ps st) \<Longrightarrow> vmem (snd (vm_loop body leave ps st)) = fold f ps (vmem st)"
proof -
  define I where "I k (s :: vm_st) \<longleftrightarrow> ok_run st s \<and> vmem s = fold f (take k ps) (vmem st)" for k s
  obtain k where k: "k \<le> length ps" "I k (snd (vm_loop body leave ps st))"
    "\<not> fst (vm_loop body leave ps st) \<Longrightarrow> k = length ps"
  proof (rule vm_loop_inv [of I st ps leave body])
    show "I 0 st" by (simp add: I_def)
    fix k s assume k: "k < length ps" and I: "I k s"
    obtain ct t where l: "snd (leave (body (ps ! k) s)) = (body (ps ! k) s)\<lparr>vcount := ct, vtick := t\<rparr>"
      by (rule is_exitE [OF ex, of "body (ps ! k) s"])
    have "vsz s = vsz st" using I unfolding I_def ok_run_def by blast
    then have b: "ok_run s (body (ps ! k) s)" "vmem (body (ps ! k) s) = f (ps ! k) (vmem s)"
      using step [OF nth_mem [OF k]] by blast+
    then have "ok_run st (body (ps ! k) s)" using I ok_run_trans by (auto simp: I_def)
    then show "I (Suc k) (snd (leave (body (ps ! k) s)))"
      using I k b(2) unfolding l I_def by (simp add: ok_run_def take_Suc_conv_app_nth)
  qed blast
  show "ok_run st (snd (vm_loop body leave ps st))" using k(2) by (simp add: I_def)
  show "vmem (snd (vm_loop body leave ps st)) = fold f ps (vmem st)" if "\<not> fst (vm_loop body leave ps st)"
    using k(2,3) that by (simp add: I_def)
qed

text \<open>Exchanging the first \<open>n\<close> bytes of two chunks.\<close>

definition swap_mem :: "nat \<Rightarrow> nat \<Rightarrow> nat \<Rightarrow> u8 list \<Rightarrow> u8 list" where
  "swap_mem n a b m = map (\<lambda>j. if a \<le> j \<and> j < a + n then rd m (b + (j - a))
     else if b \<le> j \<and> j < b + n then rd m (a + (j - b)) else m ! j) [0..<length m]"

lemma length_swap_mem [simp]: "length (swap_mem n a b m) = length m"
  by (simp add: swap_mem_def)

lemma rd_swap_mem:
  "rd (swap_mem n a b m) j = (if j < length m then
     (if a \<le> j \<and> j < a + n then rd m (b + (j - a))
      else if b \<le> j \<and> j < b + n then rd m (a + (j - b)) else rd m j) else 0)"
  by (simp add: swap_mem_def rd_def)

lemma swap_mem_step:
  assumes "a = b \<or> a + 64 \<le> b \<or> b + 64 \<le> a" "n < 64" "a + 64 \<le> length m" "b + 64 \<le> length m"
  shows "((swap_mem n a b m)[a + n := rd (swap_mem n a b m) (b + n)])[b + n := rd (swap_mem n a b m) (a + n)] =
    swap_mem (Suc n) a b m"
proof (rule mem_eqI, simp, goal_cases)
  case (1 j)
  then show ?case using assms by (auto simp: rd_swap_mem less_Suc_eq)
qed

lemma swap_chunk_mem:
  assumes s: "sound_mem env" and d: "64 * i = swaps ! i \<or> 64 * i + 64 \<le> swaps ! i \<or> swaps ! i + 64 \<le> 64 * i"
    and "64 * i + 64 \<le> vsz st" "swaps ! i + 64 \<le> vsz st"
  shows "swap_chunk env swaps i st = st\<lparr>vmem := swap_mem 64 (64 * i) (swaps ! i) (vmem st)\<rparr>"
proof -
  have "fold (\<lambda>k. vswap env (64 * i + k) (swaps ! i + k)) [0..<n] st =
      st\<lparr>vmem := swap_mem n (64 * i) (swaps ! i) (vmem st)\<rparr>" if "n \<le> 64" for n
    using that
  proof (induction n)
    case 0
    have "swap_mem 0 (64 * i) (swaps ! i) (vmem st) = vmem st" by (rule mem_eqI) (auto simp: rd_swap_mem)
    then show ?case by simp
  next
    case (Suc n)
    then have IH: "fold (\<lambda>k. vswap env (64 * i + k) (swaps ! i + k)) [0..<n] st =
      st\<lparr>vmem := swap_mem n (64 * i) (swaps ! i) (vmem st)\<rparr>" and n: "n < 64" by auto
    show ?case
      using swap_mem_step [OF d n assms(3,4)] s assms(3,4) n
      by (simp only: fold_upt_Suc IH) (simp add: vswap_def vset_def)
  qed
  then show ?thesis by (simp add: swap_chunk_def)
qed

lemma rd_swapped:
  assumes "a = b \<or> a + 64 \<le> b \<or> b + 64 \<le> a" "a + 64 \<le> length m" "b + 64 \<le> length m"
  shows "k < 64 \<Longrightarrow> rd (swap_mem 64 a b m) (a + k) = rd m (b + k)"
    "k < 64 \<Longrightarrow> rd (swap_mem 64 a b m) (b + k) = rd m (a + k)"
    "\<not> (a \<le> j \<and> j < a + 64) \<Longrightarrow> \<not> (b \<le> j \<and> j < b + 64) \<Longrightarrow> j < length m \<Longrightarrow> rd (swap_mem 64 a b m) j = rd m j"
  using assms by (auto simp: rd_swap_mem)

lemma swap_mem_involution:
  assumes "a = b \<or> a + 64 \<le> b \<or> b + 64 \<le> a" "a + 64 \<le> length m" "b + 64 \<le> length m"
  shows "swap_mem 64 a b (swap_mem 64 a b m) = m"
proof (rule mem_eqI, simp, goal_cases)
  case (1 j)
  note r = rd_swapped [OF assms] rd_swapped [of a b "swap_mem 64 a b m", simplified, OF assms]
  consider (a) k where "j = a + k" "k < 64" | (b) k where "j = b + k" "k < 64"
    | (n) "\<not> (a \<le> j \<and> j < a + 64)" "\<not> (b \<le> j \<and> j < b + 64)"
    by (metis le_add_diff_inverse nat_add_left_cancel_less)
  then show ?case using 1 by cases (simp_all add: r)
qed

lemma fold_involutions:
  assumes "\<And>i m. i \<in> set xs \<Longrightarrow> Q m \<Longrightarrow> Q (f i m) \<and> f i (f i m) = m" "Q m"
  shows "fold f (rev xs) (fold f xs m) = m"
  using assms
proof (induction xs arbitrary: m)
  case (Cons i xs)
  then have "fold f (rev xs) (fold f xs (f i m)) = f i m" by simp
  then show ?case using Cons.prems by simp
qed simp

lemma swap_fill_step:
  assumes "sound_mem env" "at_draw mwc8 w z j (vmwc s)" "p + 64 \<le> vsz s"
  shows "ok_run s (swap_fill env p s) \<and> at_draw mwc8 w z (Suc j) (vmwc (swap_fill env p s)) \<and>
    vmem (swap_fill env p s) = wr_range (vmem s) p 64 (\<lambda>_. stream mwc8 w z j)"
  using assms at_draw_step8 [OF assms(2)]
  by (simp add: swap_fill_def vdraw_def split_def run_effects ok_run_def)

lemma swap_test_step:
  assumes "at_draw mwc8 w z j (vmwc s)" "p + 64 \<le> vsz s"
    and "\<forall>i < 64. rd (vmem s) (p + i) = stream mwc8 w z j"
  shows "ok_run s (swap_test p s) \<and> at_draw mwc8 w z (Suc j) (vmwc (swap_test p s)) \<and>
    vmem (swap_test p s) = vmem s"
  using assms at_draw_step8 [OF assms(1)]
  by (simp add: swap_test_def vdraw_def split_def fold_vtest_ok ok_run_def)

lemma swap_fill_seeded:
  assumes s: "sound_mem env" and g: "grid ps 64 (vsz st)" and ex: "is_exit leave"
  shows "ok_run st (snd (vm_loop (swap_fill env) leave ps (vseed w z st)))"
    "\<not> fst (vm_loop (swap_fill env) leave ps (vseed w z st)) \<Longrightarrow>
      chunks ps 64 (\<lambda>j i. stream mwc8 w z j) (vmem (snd (vm_loop (swap_fill env) leave ps (vseed w z st))))"
proof -
  have g': "grid ps 64 (vsz (vseed w z st))" using g by simp
  have step: "ok_run s (swap_fill env (ps ! j) s) \<and> at_draw mwc8 w z (Suc j) (vmwc (swap_fill env (ps ! j) s)) \<and>
      vmem (swap_fill env (ps ! j) s) = wr_range (vmem s) (ps ! j) 64 (\<lambda>i. stream mwc8 w z j)"
    if "j < length ps" "at_draw mwc8 w z j (vmwc s)" "vsz s = vsz (vseed w z st)" for j s
    using swap_fill_step [OF s that(2)] gridD [OF g' that(1)] that(3) by simp
  note * = rw_pass [where P = "at_draw mwc8 w z" and body = "swap_fill env"
     and val = "\<lambda>j i. stream mwc8 w z j", OF g' ex vseed_ok(3) chunks_refl]
  have "ok_run (vseed w z st) (snd (vm_loop (swap_fill env) leave ps (vseed w z st)))" by (rule *(1)) (use step in blast)
  then show "ok_run st (snd (vm_loop (swap_fill env) leave ps (vseed w z st)))" by simp
  show "chunks ps 64 (\<lambda>j i. stream mwc8 w z j) (vmem (snd (vm_loop (swap_fill env) leave ps (vseed w z st))))"
    if "\<not> fst (vm_loop (swap_fill env) leave ps (vseed w z st))"
    by (rule *(2)) (use step that in blast)+
qed

lemma swap_test_seeded:
  assumes "grid ps 64 (vsz st)" "is_exit leave" "chunks ps 64 (\<lambda>j i. stream mwc8 w z j) (vmem st)"
  shows "ok_run st (snd (vm_loop swap_test leave ps (vseed w z st)))"
proof -
  have "ok_run (vseed w z st) (snd (vm_loop swap_test leave ps (vseed w z st)))"
    by (rule check_pass_ok [where P = "at_draw mwc8 w z", OF assms(2) vseed_ok(3)])
      (rule swap_test_step, auto dest: gridD [OF assms(1)] chunksD [OF assms(3)])
  then show ?thesis by simp
qed

text \<open>The drawn offsets are whole chunks inside the buffer.\<close>

definition chunk_offsets :: "nat list \<Rightarrow> nat \<Rightarrow> bool" where
  "chunk_offsets swaps n \<longleftrightarrow> length swaps = n \<and> (\<forall>o' \<in> set swaps. \<exists>t < n. o' = 64 * t)"

lemma chunk_offsetsE:
  assumes "chunk_offsets swaps n" "i < n"
  obtains t where "t < n" "swaps ! i = 64 * t"
  using assms unfolding chunk_offsets_def by (metis nth_mem)

lemma swap_offsets_chunks: "chunk_offsets (fst (swap_offsets n m)) n"
  by (auto simp: swap_offsets_def chunk_offsets_def split_def)
     (metis length_draws length_pos_if_in_set mod_less_divisor mult.commute)

lemma swap_pass:
  assumes s: "sound_mem env" and c: "chunk_offsets swaps n" and n: "vsz st = 64 * n" and ex: "is_exit leave"
    and xs: "set xs \<subseteq> {0..<n}"
  shows "ok_run st (snd (vm_loop (swap_chunk env swaps) leave xs st))"
    "\<not> fst (vm_loop (swap_chunk env swaps) leave xs st) \<Longrightarrow>
      vmem (snd (vm_loop (swap_chunk env swaps) leave xs st)) =
      fold (\<lambda>i. swap_mem 64 (64 * i) (swaps ! i)) xs (vmem st)"
proof -
  have step: "ok_run u (swap_chunk env swaps i u) \<and>
      vmem (swap_chunk env swaps i u) = swap_mem 64 (64 * i) (swaps ! i) (vmem u)"
    if "i \<in> set xs" "vsz u = vsz st" for i u
  proof -
    have "i < n" using that xs by auto
    with c obtain t where t: "t < n" "swaps ! i = 64 * t" by (rule chunk_offsetsE)
    then have "64 * i = swaps ! i \<or> 64 * i + 64 \<le> swaps ! i \<or> swaps ! i + 64 \<le> 64 * i"
      by (cases i t rule: linorder_cases) auto
    from swap_chunk_mem [OF s this] t \<open>i < n\<close> that(2) n show ?thesis by (simp add: ok_run_def)
  qed
  show "ok_run st (snd (vm_loop (swap_chunk env swaps) leave xs st))"
    by (rule mem_pass(1) [OF ex, where f = "\<lambda>i. swap_mem 64 (64 * i) (swaps ! i)"]) (use step in blast)
  show "vmem (snd (vm_loop (swap_chunk env swaps) leave xs st)) = fold (\<lambda>i. swap_mem 64 (64 * i) (swaps ! i)) xs (vmem st)"
    if "\<not> fst (vm_loop (swap_chunk env swaps) leave xs st)"
    by (rule mem_pass(2) [OF ex, where f = "\<lambda>i. swap_mem 64 (64 * i) (swaps ! i)"]) (use step that in blast)+
qed

text \<open>Undoing the swaps in reverse order restores the buffer.\<close>

lemma swaps_undone:
  assumes c: "chunk_offsets swaps n" and n: "length m = 64 * n"
  shows "fold (\<lambda>i. swap_mem 64 (64 * i) (swaps ! i)) (rev [0..<n])
    (fold (\<lambda>i. swap_mem 64 (64 * i) (swaps ! i)) [0..<n] m) = m"
proof (rule fold_involutions [where Q = "\<lambda>m. length m = 64 * n"])
  fix i and m :: "u8 list" assume "i \<in> set [0..<n]" and m: "length m = 64 * n"
  then have "i < n" by simp
  with c obtain t where t: "t < n" "swaps ! i = 64 * t" by (rule chunk_offsetsE)
  then have "64 * i = swaps ! i \<or> 64 * i + 64 \<le> swaps ! i \<or> swaps ! i + 64 \<le> 64 * i"
      by (cases i t rule: linorder_cases) auto
  from swap_mem_involution [OF this, of m] t m \<open>i < n\<close>
  show "length (swap_mem 64 (64 * i) (swaps ! i) m) = 64 * n \<and>
      swap_mem 64 (64 * i) (swaps ! i) (swap_mem 64 (64 * i) (swaps ! i) m) = m" by simp
qed (rule n)

lemma swap_clean:
  assumes s: "sound_mem env" and a: "vm_swaps_alloc env" and d: "64 dvd vsz st"
  shows "clean st (stress_vm_swap env st)"
proof -
  obtain n where n: "vsz st = 64 * n" using d by blast
  let ?ps = "offsets 64 (vsz st)"
  have len: "length ?ps = n" using n by (simp add: offsets_def)
  obtain z w s1 where v: "vseeds env (errs0 st) = (z, w, s1)" and s1: "ok_run (errs0 st) s1" by (rule seeds_cases)
  obtain swaps s2 where d2: "vdraw (swap_offsets n) s1 = (swaps, s2)" by (cases "vdraw (swap_offsets n) s1")
  have c: "chunk_offsets swaps n" and r2: "ok_run s1 s2"
    using d2 swap_offsets_chunks [of n "vmwc s1"] by (auto simp: vdraw_def ok_run_def split: prod.splits)
  have g: "grid ?ps 64 (vsz s2)" using grid_offsets [OF d] ok_run_sz [OF ok_run_trans [OF s1 r2]] by simp
  let ?F = "vm_loop (swap_fill env) exit_none ?ps (vseed w z s2)"
  note F = swap_fill_seeded [OF s g exits_are_exits(1), of w z]
  have nF: "vsz (snd ?F) = 64 * n" using ok_run_sz [OF ok_run_trans [OF s1 ok_run_trans [OF r2 F(1)]]] n by simp
  let ?A = "vm_loop (swap_chunk env swaps) (exit_ops_keep env) [0..<n] (snd ?F)"
  note A = swap_pass [OF s c nF exits_are_exits(4) [of env], of "[0..<n]", simplified]
  have nA: "vsz (snd ?A) = 64 * n" using nF ok_run_sz [OF A(1)] by simp
  let ?B = "vm_loop (swap_chunk env swaps) (exit_ops_keep env) (rev [0..<n]) (snd ?A)"
  note B = swap_pass [OF s c nA exits_are_exits(4) [of env], of "rev [0..<n]", simplified]
  have "ok_run (snd ?B) (snd (vm_loop swap_test (exit_keep env) ?ps (vseed w z (snd ?B))))"
    if "\<not> fst ?A" "\<not> fst ?B"
  proof (rule swap_test_seeded)
    show "grid ?ps 64 (vsz (snd ?B))" by (rule grid_run [OF grid_run [OF grid_run [OF g F(1)] A(1)] B(1)])
    have "vmem (snd ?B) = vmem (snd ?F)"
      using A(2) [OF that(1)] B(2) [OF that(2)] swaps_undone [OF c nF] by simp
    then show "chunks ?ps 64 (\<lambda>j i. stream mwc8 w z j) (vmem (snd ?B))" using F(2) [OF vm_loop_none] by simp
  qed simp
  moreover have "vsz st div 64 = n" "(\<not> vm_swaps_alloc env) = False" using n a by simp_all
  ultimately show ?thesis
    unfolding stress_vm_swap_def Let_def v split_conv sound_frame [OF s] len
    by (simp only: if_False d2 split_conv)
      (intro clean_return ok_run_trans [OF s1] ok_run_trans [OF r2] ok_run_trans [OF F(1)] ok_then A(1) B(1))
qed

end
