(* ===== verification/Vm_Sound_Bytes.thy ===== *)
theory Vm_Sound_Bytes
  imports Vm_Sound
begin

text \<open>
  The methods that work byte by byte or in prime steps: no false alarms on sound memory.  Those that
  check the whole buffer after filling it are alarm free only if the operation limit does not cut
  the filling short, so their lemmas assume that there is no limit.
\<close>

section \<open>Passes over single bytes\<close>

lemma ok_pass:
  fixes body :: "'p \<Rightarrow> vm_st \<Rightarrow> vm_st"
  assumes ex: "is_exit leave"
    and step: "\<And>p s. p \<in> set ps \<Longrightarrow> vsz s = vsz st \<Longrightarrow> ok_run s (body p s)"
  shows "ok_run st (snd (vm_loop body leave ps st))"
proof -
  obtain k where "k \<le> length ps" "ok_run st (snd (vm_loop body leave ps st))"
  proof (rule vm_loop_inv [of "\<lambda>_. ok_run st" st ps leave body])
    fix k s assume k: "k < length ps" and I: "ok_run st s"
    obtain ct t where l: "snd (leave (body (ps ! k) s)) = (body (ps ! k) s)\<lparr>vcount := ct, vtick := t\<rparr>"
      by (rule is_exitE [OF ex, of "body (ps ! k) s"])
    have "ok_run s (body (ps ! k) s)" using step [OF nth_mem [OF k]] ok_run_sz [OF I] by simp
    from ok_run_trans [OF I this] show "ok_run st (snd (leave (body (ps ! k) s)))"
      unfolding l by (simp add: ok_run_def)
  qed auto
  then show ?thesis by simp
qed

lemma fold_ok:
  assumes "\<And>p s. p \<in> set ps \<Longrightarrow> vsz s = vsz st \<Longrightarrow> ok_run s (body p s)"
  shows "ok_run st (fold body ps st)"
  using assms
proof (induction ps arbitrary: st)
  case (Cons p ps)
  have "ok_run st (body p st)" using Cons.prems by simp
  moreover have "ok_run (body p st) (fold body ps (body p st))"
    by (rule Cons.IH) (use Cons.prems ok_run_sz [OF \<open>ok_run st (body p st)\<close>] in simp)
  ultimately show ?case by (auto intro: ok_run_trans)
qed simp

lemma fold_as_loop: "fold body ps st = snd (vm_loop body exit_none ps st)"
  by (induction ps arbitrary: st) (simp_all add: exit_none_def)

lemma set_and_test_ok:
  "sound_mem env \<Longrightarrow> p < vsz s \<Longrightarrow> ok_run s (SET_AND_TEST env p v s)"
  by (simp add: SET_AND_TEST_def vset_def vtest_def ok_run_def)

lemma walking_data_clean:
  assumes s: "sound_mem env"
  shows "clean st (stress_vm_walking_one_data env st)" "clean st (stress_vm_walking_zero_data env st)"
proof -
  have "ok_run (errs0 st) (snd (vm_loop (\<lambda>p. fold (SET_AND_TEST env p) vs) (exit_ops_keep env) [0..<vsz st] (errs0 st)))" for vs
    by (rule ok_pass [OF exits_are_exits(4)]) (rule fold_ok, rule set_and_test_ok [OF s], simp)
  then show "clean st (stress_vm_walking_one_data env st)" "clean st (stress_vm_walking_zero_data env st)"
    unfolding stress_vm_walking_one_data_def stress_vm_walking_zero_data_def by (intro clean_return; blast)+
qed

subsection \<open>Address walks\<close>

lemma walk_addr_ok:
  assumes s: "sound_mem env" and fit: "unat (vm_base env) + vsz st < 2 ^ 64" and p: "p < vsz st"
    and z: "rd (vmem st) p = 0"
  shows "ok_run st (walk_addr env flip p n msk st)"
  using fit p z
proof (induction n arbitrary: msk st)
  case (Suc n)
  define base where "base = vm_base env"
  define addr where "addr = (base + of_nat p) XOR flip msk"
  show ?case
  proof (cases "addr < base \<or> base + of_nat (vsz st) \<le> addr \<or> addr = base + of_nat p")
    case True
    then show ?thesis using Suc by (simp add: Let_def addr_def base_def)
  next
    case False
    let ?q = "unat (addr - base)"
    have up: "unat (base + of_nat k) = unat base + k" if "k \<le> vsz st" for k
      using that Suc.prems(1) by (simp add: unat_word_ariths unat_of_nat base_def take_bit_nat_eq_self)
    have q: "?q = unat addr - unat base" using False by (simp add: unat_sub word_le_nat_alt word_less_nat_alt)
    have "unat base \<le> unat addr" "unat addr < unat base + vsz st"
      using False up [of "vsz st"] by (simp_all add: word_le_nat_alt word_less_nat_alt)
    then have "?q < vsz st" by (simp add: q less_diff_conv2)
    moreover have "?q \<noteq> p"
    proof
      assume "?q = p"
      then have "unat addr = unat (base + of_nat p)"
        using \<open>unat base \<le> unat addr\<close> up [of p] Suc.prems(2) q by simp
      then show False using False word_unat_eq_iff by blast
    qed
    ultimately have "ok_run st (vtest p 0 (vset env ?q 0xff st))"
      "vmem (vtest p 0 (vset env ?q 0xff st)) = (vmem st)[?q := 0xff]"
      using s Suc.prems by (simp_all add: vtest_def vset_def ok_run_def)
    moreover from this \<open>?q \<noteq> p\<close> have "ok_run (vtest p 0 (vset env ?q 0xff st))
        (walk_addr env flip p n (push_bit 1 msk) (vtest p 0 (vset env ?q 0xff st)))"
      using Suc by simp
    ultimately show ?thesis using False by (auto simp: Let_def addr_def base_def intro: ok_run_trans)
  qed
qed simp

lemma offsets_less:
  assumes "p \<in> set (offsets k sz)" "0 < k"
  shows "p < sz"
proof -
  obtain n where n: "n < (sz + k - 1) div k" "p = n * k"
    using assms(1) unfolding offsets_def set_map set_upt by (elim imageE) (metis atLeastLessThan_iff)
  then have "Suc n * k \<le> (sz + k - 1) div k * k" by (intro mult_le_mono1) simp
  also have "\<dots> \<le> sz + k - 1" by (rule div_times_less_eq_dividend)
  finally show ?thesis using n(2) assms(2) by simp
qed

lemma walking_addr_clean:
  assumes s: "sound_mem env" and fit: "unat (vm_base env) + vsz st < 2 ^ 64"
  shows "clean st (stress_vm_walking_one_addr env st)" "clean st (stress_vm_walking_zero_addr env st)"
proof -
  let ?s = "vmemset env 0 (errs0 st)"
  have r: "ok_run (errs0 st) ?s" by (rule vmemset_ok [OF s])
  have lt: "p < vsz st" if "p \<in> set (offsets 256 (vsz st))" for p
    using offsets_less [OF that] by simp
  have "ok_run ?s (snd (vm_loop (\<lambda>p st. walk_addr env flip p 63 1 (vset env p 0 st)) (exit_ops_keep env)
      (offsets 256 (vsz st)) ?s))" for flip
  proof (rule ok_pass [OF exits_are_exits(4)])
    fix p and u :: vm_st assume p: "p \<in> set (offsets 256 (vsz st))" and u: "vsz u = vsz ?s"
    have sz: "vsz u = vsz st" using u ok_run_sz [OF r] by simp
    have v: "ok_run u (vset env p 0 u)" "rd (vmem (vset env p 0 u)) p = 0"
      using s lt [OF p] sz by (simp_all add: vset_def ok_run_def)
    have "ok_run (vset env p 0 u) (walk_addr env flip p 63 1 (vset env p 0 u))"
      by (rule walk_addr_ok [OF s _ _ v(2)]) (use fit sz lt [OF p] ok_run_sz [OF v(1)] in simp_all)
    then show "ok_run u (walk_addr env flip p 63 1 (vset env p 0 u))" by (rule ok_run_trans [OF v(1)])
  qed
  then show "clean st (stress_vm_walking_one_addr env st)" "clean st (stress_vm_walking_zero_addr env st)"
    unfolding stress_vm_walking_one_addr_def stress_vm_walking_zero_addr_def Let_def
    by (intro clean_return ok_run_trans [OF r]; blast)+
qed

section \<open>Gray codes\<close>

lemma no_limit: "vm_max_ops env = 0 \<Longrightarrow> \<not> ops_done env c"
  by (simp add: ops_done_def)

lemma gray_fill_ok:
  assumes s: "sound_mem env" and m: "vm_max_ops env = 0" and "b \<le> vsz st"
  shows "ok_run st (snd (gray_fill env v [a..<b] st)) \<and> (\<not> fst (gray_fill env v [a..<b] st) \<longrightarrow>
    (\<forall>p. rd (vmem (snd (gray_fill env v [a..<b] st))) p =
       (if a \<le> p \<and> p < b then gray8 (v + of_nat (p - a)) else rd (vmem st) p)))"
  using assms(3)
proof (induction "b - a" arbitrary: a v st)
  case 0
  then show ?case by auto
next
  case (Suc n)
  then have ab: "a < b" by simp
  let ?s1 = "st\<lparr>vtick := Suc (vtick st)\<rparr>"
  let ?s2 = "(vset env a (gray8 v) ?s1)\<lparr>vcount := vcount st + 1\<rparr>"
  have r2: "ok_run st ?s2" "vmem ?s2 = (vmem st)[a := gray8 v]"
    using s Suc.prems ab by (simp_all add: vset_def ok_run_def)
  have eq: "gray_fill env v [a..<b] st = (if \<not> vm_keep env (vtick st) then (True, ?s1) else gray_fill env (v + 1) [Suc a..<b] ?s2)"
    using ab no_limit [OF m] by (simp add: upt_conv_Cons [OF ab] read_keep_def exit_ops_def Let_def vset_def)
  show ?case
  proof (cases "vm_keep env (vtick st)")
    case True
    have IH: "ok_run ?s2 (snd (gray_fill env (v + 1) [Suc a..<b] ?s2))"
      "\<not> fst (gray_fill env (v + 1) [Suc a..<b] ?s2) \<Longrightarrow>
        rd (vmem (snd (gray_fill env (v + 1) [Suc a..<b] ?s2))) p =
        (if Suc a \<le> p \<and> p < b then gray8 (v + 1 + of_nat (p - Suc a)) else rd (vmem ?s2) p)" for p
      using Suc(1) [of "Suc a" ?s2 "v + 1"] Suc(2,3) ok_run_sz [OF r2(1)] by simp_all
    have "v + 1 + of_nat (p - Suc a) = v + of_nat (p - a)" if "Suc a \<le> p" for p
      using that by (simp add: of_nat_diff)
    then show ?thesis
      using IH r2 ok_run_trans [OF r2(1) IH(1)] ab Suc.prems True unfolding eq by (auto simp: not_less_eq_eq)
  next
    case False
    then show ?thesis unfolding eq by (simp add: ok_run_def)
  qed
qed

lemma gray_check_ok:
  assumes "b \<le> vsz st" "\<forall>p. a \<le> p \<and> p < b \<longrightarrow> rd (vmem st) p = gray8 (v + of_nat (p - a))"
  shows "ok_run st (gray_check env v [a..<b] st)"
  using assms
proof (induction "b - a" arbitrary: a v st)
  case (Suc n)
  then have ab: "a < b" by simp
  let ?s = "st\<lparr>vtick := Suc (vtick st)\<rparr>"
  have t: "vtest a (gray8 v) ?s = ?s" using Suc.prems ab by (simp add: vtest_def)
  have "rd (vmem st) p = gray8 (v + 1 + of_nat (p - Suc a))" if "Suc a \<le> p" "p < b" for p
    using Suc.prems(2) that by (simp add: of_nat_diff)
  then have "ok_run ?s (gray_check env (v + 1) [Suc a..<b] ?s)"
    using Suc(1) [of "Suc a" ?s "v + 1"] Suc(2,3) by simp
  then show ?case
    using t by (simp add: upt_conv_Cons [OF ab] read_keep_def Let_def ok_run_def)
qed simp

lemma gray_clean:
  assumes s: "sound_mem env" and m: "vm_max_ops env = 0"
  shows "clean st (stress_vm_gray env st)"
proof -
  let ?F = "gray_fill env (gray_val st) [0..<vsz st] (errs0 st)"
  note F = gray_fill_ok [OF s m, of "vsz st" "errs0 st" "gray_val st" 0, simplified]
  have F1: "ok_run (errs0 st) (snd ?F)" using F by blast
  show ?thesis
  proof (cases "fst ?F")
    case True
    then show ?thesis using F1 by (simp add: stress_vm_gray_def Let_def split_def clean_def ok_run_def)
  next
    case False
    let ?C = "gray_check env (gray_val st) [0..<vsz st] (snd ?F)"
    have "ok_run (snd ?F) ?C"
      by (rule gray_check_ok) (use F False ok_run_sz [OF F1] in simp_all)
    then have "ok_run (errs0 st) (?C\<lparr>gray_val := gray_val ?C + 1\<rparr>)"
      using ok_run_trans [OF F1] by (simp add: ok_run_def)
    from clean_return [OF this] False show ?thesis
      by (simp add: stress_vm_gray_def Let_def split_def sound_frame [OF s])
  qed
qed

section \<open>Read-modify-write passes\<close>

lemma fold_updates:
  assumes "distinct ps" "\<forall>p \<in> set ps. p < length m"
  shows "fold (\<lambda>p m. m[p := f p (rd m p)]) ps m = map (\<lambda>j. if j \<in> set ps then f j (m ! j) else m ! j) [0..<length m]"
  using assms
proof (induction ps arbitrary: m)
  case Nil
  then show ?case by (simp add: map_nth)
next
  case (Cons p ps)
  have "map (\<lambda>j. if j \<in> set ps then f j (m[p := f p (m ! p)] ! j) else m[p := f p (m ! p)] ! j) [0..<length m] =
      map (\<lambda>j. if j \<in> set (p # ps) then f j (m ! j) else m ! j) [0..<length m]"
    using Cons.prems by (auto simp: nth_list_update)
  then show ?case using Cons by (simp add: rd_def cong: if_cong del: map_eq_conv)
qed

lemma vupd_pass:
  assumes s: "sound_mem env" and ps: "\<forall>p \<in> set ps. p < vsz st" and ex: "is_exit leave"
  shows "ok_run st (snd (vm_loop (\<lambda>p. vupd env p f) leave ps st))"
    and "\<not> fst (vm_loop (\<lambda>p. vupd env p f) leave ps st) \<Longrightarrow> distinct ps \<Longrightarrow> set ps = {..<vsz st} \<Longrightarrow>
      vmem (snd (vm_loop (\<lambda>p. vupd env p f) leave ps st)) = map f (vmem st)"
proof -
  have step: "ok_run u (vupd env p f u) \<and> vmem (vupd env p f u) = (vmem u)[p := f (rd (vmem u) p)]"
    if "p \<in> set ps" "vsz u = vsz st" for p u
  proof -
    have "p < vsz u" using that ps by simp
    then show ?thesis using s by (simp add: vupd_def vset_def ok_run_def)
  qed
  note * = mem_pass [OF ex, where f = "\<lambda>p m. m[p := f (rd m p)]" and body = "\<lambda>p. vupd env p f"]
  show "ok_run st (snd (vm_loop (\<lambda>p. vupd env p f) leave ps st))"
    by (rule *(1)) (use step in blast)
  show "vmem (snd (vm_loop (\<lambda>p. vupd env p f) leave ps st)) = map f (vmem st)"
    if "\<not> fst (vm_loop (\<lambda>p. vupd env p f) leave ps st)" "distinct ps" "set ps = {..<vsz st}"
  proof -
    have "vmem (snd (vm_loop (\<lambda>p. vupd env p f) leave ps st)) = fold (\<lambda>p m. m[p := f (rd m p)]) ps (vmem st)"
      by (rule *(2)) (use step that in blast)+
    also have "\<dots> = map (\<lambda>j. if j \<in> set ps then f (vmem st ! j) else vmem st ! j) [0..<vsz st]"
      by (rule fold_updates [OF that(2) ps])
    also have "\<dots> = map f (vmem st)" by (rule nth_equalityI) (simp_all add: that(3))
    finally show ?thesis .
  qed
qed

lemma vtest_pass:
  assumes "is_exit leave" "\<forall>p \<in> set ps. p < vsz st \<and> rd (vmem st) p = v"
  shows "ok_run st (snd (vm_loop (\<lambda>p. vtest p v) leave ps st))"
proof (rule check_pass_ok [where P = "\<lambda>_ _. True", OF assms(1) TrueI])
  fix j and u :: vm_st assume "j < length ps" "vmem u = vmem st"
  then have "ps ! j < vsz u" "rd (vmem u) (ps ! j) = v" using assms(2) nth_mem by auto
  then show "ok_run u (vtest (ps ! j) v u) \<and> True \<and> vmem (vtest (ps ! j) v u) = vmem u"
    by (simp add: vtest_def ok_run_def)
qed

lemma ops_pass_full: "vm_max_ops env = 0 \<Longrightarrow> \<not> fst (vm_loop body (exit_ops env) ps st)"
  by (induction ps arbitrary: st) (simp_all add: exit_ops_def Let_def no_limit)

lemma incdec_clean:
  assumes s: "sound_mem env" and m: "vm_max_ops env = 0"
  shows "clean st (stress_vm_incdec env st)"
proof -
  let ?v = "incdec_val st + 1" and ?ps = "[0..<vsz st]"
  let ?s1 = "vmemset env 0 (errs0 (st\<lparr>incdec_val := ?v\<rparr>))"
  have r1: "ok_run (errs0 st) ?s1" and m1: "vmem ?s1 = replicate (vsz st) 0"
    using s by (simp_all add: vmemset_def ok_run_def map_replicate_const)
  let ?A = "vm_loop (\<lambda>p. vupd env p (\<lambda>b. b + ?v)) (exit_ops env) ?ps ?s1"
  have A: "ok_run ?s1 (snd ?A)" "vmem (snd ?A) = replicate (vsz st) ?v"
    using vupd_pass [OF s, of ?ps ?s1 "exit_ops env" "\<lambda>b. b + ?v"] ops_pass_full [OF m] m1 by (auto simp: atLeast0LessThan)
  let ?B = "vm_loop (\<lambda>p. vupd env p (\<lambda>b. b - ?v)) (exit_ops env) ?ps (snd ?A)"
  have B: "ok_run (snd ?A) (snd ?B)" "vmem (snd ?B) = replicate (vsz st) 0"
    using vupd_pass [OF s, of ?ps "snd ?A" "exit_ops env" "\<lambda>b. b - ?v"] ops_pass_full [OF m] A by (auto simp: atLeast0LessThan)
  have "ok_run (snd ?B) (snd (vm_loop (\<lambda>p. vtest p 0) exit_none ?ps (snd ?B)))"
    by (rule vtest_pass) (use B in \<open>auto simp: rd_def\<close>)
  then show ?thesis
    unfolding stress_vm_incdec_def Let_def sound_frame [OF s]
    by (intro clean_return ok_run_trans [OF r1] ok_run_trans [OF A(1)] ok_run_trans [OF B(1)])
qed

end
