(* ===== verification/Vm_Prime.thy ===== *)
theory Vm_Prime
  imports Vm_Sound_Bytes
begin

text \<open>
  The methods that walk the buffer in steps of a large prime: when the walk is a permutation of the
  buffer and when it is not, and that the methods raise no false alarm on sound memory when it is.
\<close>

section \<open>Prime steps\<close>

lemma length_prime_walk [simp]: "length (prime_walk sz n j) = n"
  by (induction n arbitrary: j) simp_all

lemma prime_walk_nth: "i < n \<Longrightarrow> prime_walk sz n j ! i = unat (j + of_nat i * PRIME_64) mod sz"
  by (induction n arbitrary: i j) (auto simp: nth_Cons' algebra_simps of_nat_diff)

text \<open>
  The 64 bit product with the prime: its low part is a plain product with 1511789 as long as
  that does not reach bit 56, and the high byte depends on the step number modulo 256 only.
\<close>

definition prime_low :: nat where "prime_low = 1511789"

lemma prime_walk_value:
  assumes "i < n" "n * prime_low < 2 ^ 56"
  shows "prime_walk sz n PRIME_64 ! i = (2 ^ 56 * (143 * (i + 1) mod 256) + prime_low * (i + 1)) mod sz"
proof -
  have P: "unat PRIME_64 = 143 * 2 ^ 56 + prime_low" by (simp add: PRIME_64_def prime_low_def)
  have "unat (PRIME_64 + of_nat i * PRIME_64) = unat ((of_nat (i + 1) :: u64) * PRIME_64)" by (simp add: algebra_simps)
  also have "\<dots> = (i + 1) * unat PRIME_64 mod 2 ^ 64"
    by (simp add: unat_word_ariths unat_of_nat take_bit_eq_mod mod_mult_left_eq del: of_nat_add of_nat_Suc)
  also have "(i + 1) * unat PRIME_64 = 2 ^ 56 * (143 * (i + 1)) + prime_low * (i + 1)"
    unfolding P by (simp add: algebra_simps)
  also have "\<dots> mod 2 ^ 64 = 2 ^ 56 * (143 * (i + 1) mod 256) + prime_low * (i + 1)"
  proof -
    have l: "prime_low * (i + 1) < 2 ^ 56"
      using assms by (metis Suc_eq_plus1 Suc_leI mult.commute mult_le_mono1 order_le_less_trans)
    have "(2 ^ 56 * (143 * (i + 1)) + prime_low * (i + 1)) mod (2 ^ 56 * 256) =
        2 ^ 56 * ((2 ^ 56 * (143 * (i + 1)) + prime_low * (i + 1)) div 2 ^ 56 mod 256) +
        (2 ^ 56 * (143 * (i + 1)) + prime_low * (i + 1)) mod 2 ^ 56"
      by (rule mod_mult2_eq)
    also have "(2 ^ 56 * (143 * (i + 1)) + prime_low * (i + 1)) div 2 ^ 56 = 143 * (i + 1)"
      using l by (subst div_mult_self4) (simp_all del: mult_Suc_right)
    also have "(2 ^ 56 * (143 * (i + 1)) + prime_low * (i + 1)) mod 2 ^ 56 = prime_low * (i + 1)"
      using l by (subst mod_mult_self4) (simp del: mult_Suc_right)
    finally show ?thesis by simp
  qed
  finally show ?thesis using prime_walk_nth [OF assms(1), of sz PRIME_64] by simp
qed

lemma prime_walk_inj:
  assumes d: "256 dvd sz" and c: "coprime sz prime_low" and l: "sz * prime_low < 2 ^ 56" and "i < sz" "j < sz"
    and eq: "prime_walk sz sz PRIME_64 ! i = prime_walk sz sz PRIME_64 ! j"
  shows "i = j"
proof -
  let ?h = "\<lambda>i. 143 * (i + 1) mod 256" and ?q = "int prime_low"
  have "int sz dvd int (2 ^ 56 * ?h i + prime_low * (i + 1)) - int (2 ^ 56 * ?h j + prime_low * (j + 1))"
    using eq prime_walk_value [OF assms(4) l] prime_walk_value [OF assms(5) l]
    by (metis mod_eq_dvd_iff zmod_int)
  then have e: "int sz dvd 2 ^ 56 * (int (?h i) - int (?h j)) + ?q * (int i - int j)"
    by (simp add: algebra_simps)
  have "(256::int) dvd int sz" using d by (metis int_dvd_int_iff of_nat_numeral)
  then have "256 dvd 2 ^ 56 * (int (?h i) - int (?h j)) + ?q * (int i - int j)" using e by (rule dvd_trans)
  moreover have "(256::int) dvd 2 ^ 56 * (int (?h i) - int (?h j))" by simp
  ultimately have "256 dvd ?q * (int i - int j)" using dvd_add_right_iff by blast
  moreover have "coprime ((2::int) ^ 8) ?q" by (simp only: coprime_power_left_iff) (simp add: prime_low_def)
  then have "coprime (256::int) ?q" by simp
  ultimately have ij: "(256::int) dvd int i - int j" using coprime_dvd_mult_right_iff by blast
  have "?h i = ?h j"
  proof -
    have "(256::int) dvd 143 * (int i - int j)" using ij by (rule dvd_mult)
    then have "(256::int) dvd int (143 * (i + 1)) - int (143 * (j + 1))" by (simp add: algebra_simps)
    then have "int (143 * (i + 1)) mod 256 = int (143 * (j + 1)) mod 256" by (simp add: mod_eq_dvd_iff)
    then show ?thesis by (metis nat_int of_nat_numeral zmod_int)
  qed
  then have "int sz dvd ?q * (int i - int j)" using e by simp
  moreover have "coprime (int sz) ?q" using c by (simp add: coprime_int_iff)
  ultimately have "int sz dvd int i - int j" using coprime_dvd_mult_right_iff by blast
  then have "int i mod int sz = int j mod int sz" by (simp add: mod_eq_dvd_iff)
  then show ?thesis using assms(4,5) by simp
qed

definition prime_walkable :: "nat \<Rightarrow> bool" where
  "prime_walkable sz \<longleftrightarrow> 256 dvd sz \<and> coprime sz prime_low \<and> sz * prime_low < 2 ^ 56"

lemma prime_walk_distinct: "prime_walkable sz \<Longrightarrow> distinct (prime_walk sz sz PRIME_64)"
  unfolding distinct_conv_nth using prime_walk_inj by (auto simp: prime_walkable_def)

lemma prime_walk_less: "p \<in> set (prime_walk sz n j) \<Longrightarrow> 0 < sz \<Longrightarrow> p < sz"
  by (induction n arbitrary: j) auto

lemma prime_walk_covers:
  assumes "prime_walkable sz"
  shows "set (prime_walk sz sz PRIME_64) = {..<sz}"
proof (rule card_subset_eq)
  show "set (prime_walk sz sz PRIME_64) \<subseteq> {..<sz}" using prime_walk_less by (cases "sz = 0") auto
  show "card (set (prime_walk sz sz PRIME_64)) = card {..<sz}"
    using distinct_card [OF prime_walk_distinct [OF assms]] by simp
qed simp

text \<open>The low part is 491 times 3079: a size that is a multiple of 491 pages makes the walk repeat itself.\<close>

lemma prime_walk_repeats:
  assumes "sz = 4096 * 491" "i + 4096 < sz"
  shows "prime_walk sz sz PRIME_64 ! (i + 4096) = prime_walk sz sz PRIME_64 ! i"
proof -
  have l: "sz * prime_low < 2 ^ 56" using assms(1) by (simp add: prime_low_def)
  have h: "143 * (i + 4096 + 1) mod 256 = 143 * (i + 1) mod 256"
    using mod_mult_self2 [of "143 * (i + 1)" 256 "143 * 16"] by (simp add: algebra_simps)
  have q: "prime_low * (i + 4096 + 1) = prime_low * (i + 1) + 3079 * sz"
    using assms(1) by (simp add: prime_low_def)
  show ?thesis
    using prime_walk_value [OF assms(2) l, of sz] prime_walk_value [of i sz, OF _ l, of sz] assms(2)
    unfolding h q by (simp add: add.assoc [symmetric])
qed

lemma prime_walk_misses: "set (prime_walk 2011136 2011136 PRIME_64) \<noteq> {..<2011136}"
proof -
  let ?sz = "2011136 :: nat"
  let ?w = "prime_walk ?sz ?sz PRIME_64"
  have step: "?w ! (i + 4096) = ?w ! i" if "i + 4096 < ?sz" for i
    using prime_walk_repeats [of ?sz i] that by simp
  have "?w ! i \<in> (\<lambda>k. ?w ! k) ` {..<4096}" if "i < ?sz" for i
    using that
  proof (induction i rule: less_induct)
    case (less i)
    show ?case
    proof (cases "i < 4096")
      case False
      then obtain k where "i = k + 4096" by (metis add.commute le_Suc_ex not_less)
      then show ?thesis using less step [of k] by auto
    qed auto
  qed
  then have "set ?w \<subseteq> (\<lambda>k. ?w ! k) ` {..<4096}" by (auto simp: set_conv_nth)
  then have c: "card (set ?w) \<le> card {..<4096 :: nat}" by (rule surj_card_le [OF finite_lessThan])
  show ?thesis
  proof
    assume "set ?w = {..<?sz}"
    with c have "card {..<?sz} \<le> card {..<4096 :: nat}" by (simp only:)
    then show False by (simp only: card_lessThan)
  qed
qed

section \<open>No false alarms\<close>

lemma prime_rounds_ok:
  assumes s: "sound_mem env" and d: "distinct ps" and c: "set ps = {..<vsz st}"
  shows "ok_run st (snd (prime_rounds env f ps js st)) \<and>
    (\<not> fst (prime_rounds env f ps js st) \<longrightarrow> vmem (snd (prime_rounds env f ps js st)) = map (fold f js) (vmem st))"
  using c
proof (induction js arbitrary: st)
  case Nil
  then show ?case by (simp add: fold_Nil)
next
  case (Cons j js)
  let ?A = "vm_loop (\<lambda>p. vupd env p (f j)) (exit_ops_keep env) ps st"
  have A: "ok_run st (snd ?A)" by (rule vupd_pass(1) [OF s]) (use Cons.prems in auto)
  have mA: "vmem (snd ?A) = map (f j) (vmem st)" if "\<not> fst ?A"
    by (rule vupd_pass(2) [OF s _ _ that d Cons.prems]) (use Cons.prems in auto)
  note IH = Cons.IH [of "snd ?A"]
  show ?case
  proof (cases "fst ?A")
    case True
    then show ?thesis using A by (simp add: vm_then_def split_def)
  next
    case False
    have "set ps = {..<vsz (snd ?A)}" using Cons.prems ok_run_sz [OF A] by simp
    with IH have I: "ok_run (snd ?A) (snd (prime_rounds env f ps js (snd ?A)))"
      "\<not> fst (prime_rounds env f ps js (snd ?A)) \<Longrightarrow>
        vmem (snd (prime_rounds env f ps js (snd ?A))) = map (fold f js) (map (f j) (vmem st))"
      using mA [OF False] by auto
    have e: "prime_rounds env f ps (j # js) st = prime_rounds env f ps js (snd ?A)"
      using False by (simp add: vm_then_def split_def)
    show ?thesis unfolding e using I ok_run_trans [OF A I(1)] by simp
  qed
qed

lemma byte_pass:
  assumes "is_exit leave" "\<And>p s. p < vsz st \<Longrightarrow> vmem s = vmem st \<Longrightarrow> ok_run s (body p s) \<and> vmem (body p s) = vmem s"
  shows "ok_run st (snd (vm_loop body leave [0..<vsz st] st))"
  by (rule check_pass_ok [where P = "\<lambda>_ _. True", OF assms(1) TrueI]) (use assms(2) in auto)

lemma vcount_set_pass:
  assumes "is_exit leave" "vmem st = replicate (vsz st) 0"
  shows "ok_run st (snd (vm_loop vcount_set leave [0..<vsz st] st))"
proof (rule byte_pass [OF assms(1)])
  fix p and s :: vm_st assume "p < vsz st" "vmem s = vmem st"
  then have "p < vsz s" "rd (vmem s) p = 0" using assms(2) by (simp_all add: rd_def) (metis nth_replicate)
  then show "ok_run s (vcount_set p s) \<and> vmem (vcount_set p s) = vmem s"
    by (simp add: vcount_set_def verr_def ok_run_def)
qed

lemma count_bits_ff: "stress_vm_count_bits 0xff = 8"
  by (simp add: stress_vm_count_bits.simps)

lemma vcount_clear_pass:
  assumes "is_exit leave" "vmem st = replicate (vsz st) 0xff"
  shows "ok_run st (snd (vm_loop vcount_clear leave [0..<vsz st] st))"
proof (rule byte_pass [OF assms(1)])
  fix p and s :: vm_st assume "p < vsz st" "vmem s = vmem st"
  then have "p < vsz s" "rd (vmem s) p = 0xff" using assms(2) by (simp_all add: rd_def) (metis nth_replicate)
  then show "ok_run s (vcount_clear p s) \<and> vmem (vcount_clear p s) = vmem s"
    by (simp add: vcount_clear_def verr_def ok_run_def count_bits_ff)
qed

lemma walkable_size: "prime_walkable sz \<Longrightarrow> \<not> sz > 2 ^ 63"
  by (simp add: prime_walkable_def prime_low_def)

lemma vmemset_mem: "sound_mem env \<Longrightarrow> vmem (vmemset env v st) = replicate (vsz st) v"
  by (simp add: vmemset_def map_replicate_const)

lemma prime_zero_clean:
  assumes s: "sound_mem env" and w: "prime_walkable (vsz st)"
  shows "clean st (stress_vm_prime_zero env st)"
proof -
  let ?s = "vmemset env 0xff (errs0 st)" and ?f = "\<lambda>j (v::u8). v AND NOT (push_bit j 1)"
  let ?R = "prime_rounds env ?f (prime_walk (vsz st) (vsz st) PRIME_64) [0..<8] ?s"
  have r: "ok_run (errs0 st) ?s" by (rule vmemset_ok [OF s])
  have R: "ok_run ?s (snd ?R)" "\<not> fst ?R \<Longrightarrow> vmem (snd ?R) = map (fold ?f [0..<8]) (vmem ?s)"
    using prime_rounds_ok [OF s prime_walk_distinct [OF w], of ?s ?f "[0..<8]"] prime_walk_covers [OF w] ok_run_sz [OF r] by auto
  have "fold ?f [0..<8] 0xff = 0" by (simp add: upt_rec)
  then have m: "vmem (snd ?R) = replicate (vsz (snd ?R)) 0" if "\<not> fst ?R"
    using R(2) [OF that] ok_run_sz [OF R(1)] ok_run_sz [OF r] by (simp add: vmemset_mem [OF s])
  have "ok_run (snd ?R) (snd (vm_loop vcount_set exit_none [0..<vsz st] (snd ?R)))" if "\<not> fst ?R"
    using vcount_set_pass [OF exits_are_exits(1) m [OF that]] ok_run_sz [OF R(1)] ok_run_sz [OF r] by simp
  then show ?thesis
    using walkable_size [OF w] unfolding stress_vm_prime_zero_def Let_def sound_frame [OF s]
    by (simp only: if_False) (intro clean_return ok_run_trans [OF r] ok_then R(1))
qed

lemma prime_one_clean:
  assumes s: "sound_mem env" and w: "prime_walkable (vsz st)"
  shows "clean st (stress_vm_prime_one env st)"
proof -
  let ?s = "vmemset env 0x00 (errs0 st)" and ?f = "\<lambda>j (v::u8). v OR push_bit j 1"
  let ?R = "prime_rounds env ?f (prime_walk (vsz st) (vsz st) PRIME_64) [0..<8] ?s"
  have r: "ok_run (errs0 st) ?s" by (rule vmemset_ok [OF s])
  have R: "ok_run ?s (snd ?R)" "\<not> fst ?R \<Longrightarrow> vmem (snd ?R) = map (fold ?f [0..<8]) (vmem ?s)"
    using prime_rounds_ok [OF s prime_walk_distinct [OF w], of ?s ?f "[0..<8]"] prime_walk_covers [OF w] ok_run_sz [OF r] by auto
  have "fold ?f [0..<8] 0 = 0xff" by (simp add: upt_rec)
  then have m: "vmem (snd ?R) = replicate (vsz (snd ?R)) 0xff" if "\<not> fst ?R"
    using R(2) [OF that] ok_run_sz [OF R(1)] ok_run_sz [OF r] by (simp add: vmemset_mem [OF s])
  have "ok_run (snd ?R) (snd (vm_loop vcount_clear (exit_keep env) [0..<vsz st] (snd ?R)))" if "\<not> fst ?R"
    using vcount_clear_pass [OF exits_are_exits(2) m [OF that]] ok_run_sz [OF R(1)] ok_run_sz [OF r] by simp
  then show ?thesis
    using walkable_size [OF w] unfolding stress_vm_prime_one_def Let_def sound_frame [OF s]
    by (simp only: if_False) (intro clean_return ok_run_trans [OF r] ok_then R(1))
qed

lemma fold_zip_updates:
  assumes "distinct (map snd qs)" "\<forall>q \<in> set qs. snd q < length m"
  shows "length (fold (\<lambda>(i, p) m. m[p := f i (rd m p)]) qs m) = length m"
    "(i, p) \<in> set qs \<Longrightarrow> rd (fold (\<lambda>(i, p) m. m[p := f i (rd m p)]) qs m) p = f i (rd m p)"
    "p \<notin> snd ` set qs \<Longrightarrow> rd (fold (\<lambda>(i, p) m. m[p := f i (rd m p)]) qs m) p = rd m p"
  using assms
proof (induction qs arbitrary: m)
  case (Cons q qs)
  {
    case 1
    then show ?case using Cons.IH(1) by (simp add: split_def)
  next
    case 2
    show ?case
    proof (cases "q = (i, p)")
      case True
      then show ?thesis using 2 Cons.IH(3) [of "m[p := f i (rd m p)]"] by force
    next
      case False
      then have i: "(i, p) \<in> set qs" using 2 by simp
      then have "p \<in> snd ` set qs" by (metis image_eqI snd_conv)
      then have "snd q \<noteq> p" using 2(2) by auto
      then show ?thesis using 2 i Cons.IH(2) [of "m[snd q := f (fst q) (rd m (snd q))]"] by (simp add: split_def)
    qed
  next
    case 3
    then show ?case using Cons.IH(3) by (auto simp: split_def)
  }
qed simp_all

lemma prime_gray_pass:
  assumes s: "sound_mem env" and w: "prime_walkable (vsz st)"
    and q: "qs = zip [0..<vsz st] (prime_walk (vsz st) (vsz st) PRIME_64)" and ex: "is_exit leave"
  shows "ok_run st (snd (vm_loop (prime_gray_step env f) leave qs st))"
    and "\<not> fst (vm_loop (prime_gray_step env f) leave qs st) \<Longrightarrow> i < vsz st \<Longrightarrow>
      rd (vmem (snd (vm_loop (prime_gray_step env f) leave qs st))) (prime_walk (vsz st) (vsz st) PRIME_64 ! i) =
      f (gray_low i) (rd (vmem st) (prime_walk (vsz st) (vsz st) PRIME_64 ! i))"
proof -
  let ?w = "prime_walk (vsz st) (vsz st) PRIME_64"
  have snd_qs: "map snd qs = ?w" unfolding q by simp
  have lt: "\<forall>q \<in> set qs. snd q < vsz st"
    using snd_qs prime_walk_covers [OF w] by (metis imageI lessThan_iff list.set_map)
  have step: "ok_run u (prime_gray_step env f p u) \<and>
      vmem (prime_gray_step env f p u) = (case p of (i, p) \<Rightarrow> \<lambda>m. m[p := f (gray_low i) (rd m p)]) (vmem u)"
    if "p \<in> set qs" "vsz u = vsz st" for p u
    using lt that s by (auto simp: prime_gray_step_def vupd_def vset_def ok_run_def split_def)
  note * = mem_pass [OF ex, where f = "\<lambda>(i, p) m. m[p := f (gray_low i) (rd m p)]" and body = "prime_gray_step env f"]
  show "ok_run st (snd (vm_loop (prime_gray_step env f) leave qs st))" by (rule *(1)) (use step in blast)
  show "rd (vmem (snd (vm_loop (prime_gray_step env f) leave qs st))) (?w ! i) = f (gray_low i) (rd (vmem st) (?w ! i))"
    if n: "\<not> fst (vm_loop (prime_gray_step env f) leave qs st)" and i: "i < vsz st"
  proof -
    have m: "vmem (snd (vm_loop (prime_gray_step env f) leave qs st)) =
        fold (\<lambda>(i, p) m. m[p := f (gray_low i) (rd m p)]) qs (vmem st)"
      by (rule *(2)) (use step n in blast)+
    have "qs ! i = (i, ?w ! i)" "i < length qs" using i unfolding q by simp_all
    then have "(i, ?w ! i) \<in> set qs" by (metis nth_mem)
    moreover have "distinct (map snd qs)" unfolding snd_qs by (rule prime_walk_distinct [OF w])
    ultimately show ?thesis unfolding m using lt by (intro fold_zip_updates(2))
  qed
qed

text \<open>Two passes that together give every byte the same value.\<close>

lemma prime_gray_fill:
  assumes s: "sound_mem env" and w: "prime_walkable (vsz st)" and ex: "is_exit leave"
    and q: "qs = zip [0..<vsz st] (prime_walk (vsz st) (vsz st) PRIME_64)"
    and v: "vmem st = replicate (vsz st) v" and c: "\<And>g. h g (f g v) = (c :: u8)"
    and A: "A = vm_loop (prime_gray_step env f) leave qs st" and nA: "\<not> fst A"
    and B: "B = vm_loop (prime_gray_step env h) leave qs (snd A)" and nB: "\<not> fst B"
  shows "vmem (snd B) = replicate (vsz st) c"
proof -
  let ?w = "prime_walk (vsz st) (vsz st) PRIME_64"
  have szA: "vsz (snd A) = vsz st" unfolding A by (rule ok_run_sz [OF prime_gray_pass(1) [OF s w q ex]])
  have wA: "prime_walkable (vsz (snd A))" and qA: "qs = zip [0..<vsz (snd A)] (prime_walk (vsz (snd A)) (vsz (snd A)) PRIME_64)"
    using w q szA by simp_all
  have rB: "ok_run (snd A) (snd B)" unfolding B by (rule prime_gray_pass(1) [OF s wA qA ex])
  have "rd (vmem (snd B)) p = c" if "p < vsz st" for p
  proof -
    have "p \<in> set ?w" unfolding prime_walk_covers [OF w] using that by simp
    then obtain i where i: "i < vsz st" "?w ! i = p" unfolding in_set_conv_nth length_prime_walk by blast
    have v0: "rd (vmem st) p = v" proof -
      have "vmem st ! p = replicate (vsz st) v ! p" by (rule arg_cong [OF v])
      then show ?thesis unfolding rd_def using that by simp
    qed
    have "rd (vmem (snd A)) (?w ! i) = f (gray_low i) (rd (vmem st) (?w ! i))"
      unfolding A by (rule prime_gray_pass(2) [OF s w q ex nA [unfolded A] i(1)])
    moreover have "rd (vmem (snd B)) (?w ! i) = h (gray_low i) (rd (vmem (snd A)) (?w ! i))"
      unfolding B using prime_gray_pass(2) [OF s wA qA ex nB [unfolded B], of i] i(1) szA by simp
    ultimately show ?thesis using i(2) c v0 by simp
  qed
  moreover have "vsz (snd B) = vsz st" using ok_run_sz [OF rB] szA by simp
  ultimately show ?thesis by (intro mem_eqI) (simp_all add: rd_def)
qed

lemma gray_cancel: "((0xff :: u8) AND g) AND NOT g = 0" "((0x00 :: u8) OR g) OR NOT g = 0xff"
proof -
  have ff: "(0xff :: u8) = -1" by simp
  show "((0xff :: u8) AND g) AND NOT g = 0" unfolding ff by simp
  show "((0x00 :: u8) OR g) OR NOT g = 0xff" unfolding ff by simp
qed

lemma prime_gray_zero_clean:
  assumes s: "sound_mem env" and w: "prime_walkable (vsz st)"
  shows "clean st (stress_vm_prime_gray_zero env st)"
proof -
  let ?s = "vmemset env 0xff (errs0 st)" and ?qs = "zip [0..<vsz st] (prime_walk (vsz st) (vsz st) PRIME_64)"
  have r: "ok_run (errs0 st) ?s" by (rule vmemset_ok(1) [OF s])
  have sz: "vsz ?s = vsz st" by (simp add: vmemset_def)
  let ?A = "vm_loop (prime_gray_step env (\<lambda>g v. v AND g)) (exit_keep_ops env) ?qs ?s"
  let ?B = "vm_loop (prime_gray_step env (\<lambda>g v. v AND NOT g)) (exit_keep_ops env) ?qs (snd ?A)"
  note pass = prime_gray_pass(1) [OF s, where leave = "exit_keep_ops env" and qs = ?qs]
  have A: "ok_run ?s (snd ?A)" by (rule pass) (use w in \<open>simp_all add: sz\<close>)
  have szA: "vsz (snd ?A) = vsz st" using ok_run_sz [OF A] sz by simp
  have B: "ok_run (snd ?A) (snd ?B)" by (rule pass) (use w in \<open>simp_all add: szA\<close>)
  have szB: "vsz (snd ?B) = vsz st" using ok_run_sz [OF B] szA by simp
  have "vmem (snd ?B) = replicate (vsz ?s) 0" if "\<not> fst ?A" "\<not> fst ?B"
    by (rule prime_gray_fill [OF s _ exits_are_exits(5) _ _ gray_cancel(1) refl that(1) refl that(2)])
      (use w in \<open>simp_all add: sz vmemset_mem [OF s]\<close>)
  then have "ok_run (snd ?B) (snd (vm_loop vcount_set (exit_keep env) [0..<vsz st] (snd ?B)))" if "\<not> fst ?A" "\<not> fst ?B"
    using vcount_set_pass [OF exits_are_exits(2), of "snd ?B"] that szB sz by simp
  then show ?thesis
    using walkable_size [OF w] unfolding stress_vm_prime_gray_zero_def Let_def sound_frame [OF s]
    by (simp only: if_False) (intro clean_return ok_run_trans [OF r] ok_then A B)
qed

lemma prime_gray_one_clean:
  assumes s: "sound_mem env" and w: "prime_walkable (vsz st)"
  shows "clean st (stress_vm_prime_gray_one env st)"
proof -
  let ?s = "vmemset env 0x00 (errs0 st)" and ?qs = "zip [0..<vsz st] (prime_walk (vsz st) (vsz st) PRIME_64)"
  have r: "ok_run (errs0 st) ?s" by (rule vmemset_ok(1) [OF s])
  have sz: "vsz ?s = vsz st" by (simp add: vmemset_def)
  let ?A = "vm_loop (prime_gray_step env (\<lambda>g v. v OR g)) (exit_keep_ops env) ?qs ?s"
  let ?B = "vm_loop (prime_gray_step env (\<lambda>g v. v OR NOT g)) (exit_keep_ops env) ?qs (snd ?A)"
  note pass = prime_gray_pass(1) [OF s, where leave = "exit_keep_ops env" and qs = ?qs]
  have A: "ok_run ?s (snd ?A)" by (rule pass) (use w in \<open>simp_all add: sz\<close>)
  have szA: "vsz (snd ?A) = vsz st" using ok_run_sz [OF A] sz by simp
  have B: "ok_run (snd ?A) (snd ?B)" by (rule pass) (use w in \<open>simp_all add: szA\<close>)
  have szB: "vsz (snd ?B) = vsz st" using ok_run_sz [OF B] szA by simp
  have "vmem (snd ?B) = replicate (vsz ?s) 0xff" if "\<not> fst ?A" "\<not> fst ?B"
    by (rule prime_gray_fill [OF s _ exits_are_exits(5) _ _ gray_cancel(2) refl that(1) refl that(2)])
      (use w in \<open>simp_all add: sz vmemset_mem [OF s]\<close>)
  then have "ok_run (snd ?B) (snd (vm_loop vcount_clear (exit_keep env) [0..<vsz st] (snd ?B)))" if "\<not> fst ?A" "\<not> fst ?B"
    using vcount_clear_pass [OF exits_are_exits(2), of "snd ?B"] that szB sz by simp
  then show ?thesis
    using walkable_size [OF w] unfolding stress_vm_prime_gray_one_def Let_def sound_frame [OF s]
    by (simp only: if_False) (intro clean_return ok_run_trans [OF r] ok_then A B)
qed

lemma prime_incdec_clean:
  assumes s: "sound_mem env" and m: "vm_max_ops env = 0" and w: "prime_walkable (vsz st)"
  shows "clean st (stress_vm_prime_incdec env st)"
proof -
  let ?v = "prime_incdec_val st" and ?ps = "[0..<vsz st]" and ?w = "prime_walk (vsz st) (vsz st) PRIME_64"
  let ?s1 = "vmemset env 0 (errs0 st)"
  have r1: "ok_run (errs0 st) ?s1" and m1: "vmem ?s1 = replicate (vsz st) 0"
    using vmemset_ok(1) [OF s] vmemset_mem [OF s] by simp_all
  let ?A = "vm_loop (\<lambda>p. vupd env p (\<lambda>b. b + ?v)) (exit_ops env) ?ps ?s1"
  have A: "ok_run ?s1 (snd ?A)" "vmem (snd ?A) = replicate (vsz st) ?v"
    using vupd_pass [OF s, of ?ps ?s1 "exit_ops env" "\<lambda>b. b + ?v"] ops_pass_full [OF m] m1 by (auto simp: atLeast0LessThan)
  let ?B = "vm_loop (\<lambda>p. vupd env p (\<lambda>b. b - ?v)) (exit_ops env) ?w (snd ?A)"
  note pB = vupd_pass [OF s, of ?w "snd ?A" "exit_ops env" "\<lambda>b. b - ?v"]
  have B: "ok_run (snd ?A) (snd ?B)" by (rule pB(1)) (use A(2) prime_walk_covers [OF w] in simp_all)
  have "vmem (snd ?B) = map (\<lambda>b. b - ?v) (vmem (snd ?A))"
    by (rule pB(2) [OF _ _ ops_pass_full [OF m] prime_walk_distinct [OF w]])
      (use A(2) prime_walk_covers [OF w] in simp_all)
  then have mB: "vmem (snd ?B) = replicate (vsz st) 0" by (simp add: A(2))
  have "ok_run (snd ?B) (snd (vm_loop (\<lambda>p. vtest p 0) exit_none ?ps (snd ?B)))"
    by (rule vtest_pass) (use mB in \<open>auto simp: rd_def\<close>)
  then show ?thesis
    using walkable_size [OF w] unfolding stress_vm_prime_incdec_def Let_def sound_frame [OF s]
    by (simp only: if_False) (intro clean_return ok_run_trans [OF r1] ok_run_trans [OF A(1)] ok_run_trans [OF B])
qed

end
