(* ===== verification/Vm_Count.thy ===== *)
theory Vm_Count
  imports Vm_Prime
begin

text \<open>
  Methods that count bits or compare plain blocks: the bit counter is the population count, the
  zero-one method reports exactly the bits that are stuck or were flipped, and the remaining methods
  raise no false alarm on sound memory.
\<close>

section \<open>Counting bits\<close>

lemma count_bits_card: "stress_vm_count_bits v = of_nat (card {k. bit v k})"
proof (induction v rule: stress_vm_count_bits.induct)
  case (1 v)
  then show ?case by (cases "v = 0") (simp_all add: stress_vm_count_bits.simps [of v] card_clear_lowest)
qed

text \<open>Bit \<open>i\<close> of the buffer.\<close>

definition mem_bit :: "u8 list \<Rightarrow> nat \<Rightarrow> bool" where
  "mem_bit m i = bit (rd m (i div 8)) (i mod 8)"

lemma count_rd64:
  "card {k. bit (rd64 m p) k} = (\<Sum>i = 8 * p..<8 * p + 64. of_bool (mem_bit m i))"
  "card {k. bit (NOT (rd64 m p)) k} = (\<Sum>i = 8 * p..<8 * p + 64. of_bool (\<not> mem_bit m i))"
proof -
  have *: "bit (rd64 m p) k = mem_bit m (8 * p + k)" if "k < 64" for k
    using that by (simp add: bit_rd64 mem_bit_def)
  have shift: "(\<Sum>i = 8 * p..<8 * p + 64. g i) = (\<Sum>k<64. g (8 * p + k))" for g :: "nat \<Rightarrow> nat"
    using sum.shift_bounds_nat_ivl [of g 0 "8 * p" 64] by (simp add: atLeast0LessThan add.commute)
  show "card {k. bit (rd64 m p) k} = (\<Sum>i = 8 * p..<8 * p + 64. of_bool (mem_bit m i))"
    unfolding shift card_bits_sum by (rule sum.cong) (simp_all add: *)
  show "card {k. bit (NOT (rd64 m p)) k} = (\<Sum>i = 8 * p..<8 * p + 64. of_bool (\<not> mem_bit m i))"
    unfolding shift card_bits_sum by (rule sum.cong) (simp_all add: * bit_not_iff)
qed


section \<open>Zero-one\<close>

lemma vbits8_effect:
  "vbits8 f p st = st\<lparr>verrs := verrs st + (\<Sum>k<8. stress_vm_count_bits (f (rd64 (vmem st) (p + 8 * k)))),
     voob := voob st \<or> vsz st < p + 64\<rparr>"
proof -
  have "fold (\<lambda>k st. case vread64 (p + 8 * k) st of (x, st') \<Rightarrow> verr (stress_vm_count_bits (f x)) st') [0..<n] st =
    st\<lparr>verrs := verrs st + (\<Sum>k<n. stress_vm_count_bits (f (rd64 (vmem st) (p + 8 * k)))),
       voob := voob st \<or> (0 < n \<and> vsz st < p + 8 * n)\<rparr>" for n
  proof (induction n)
    case (Suc n)
    show ?case by (simp only: fold_upt_Suc Suc) (rule vm_st.equality, auto simp: vread64_def verr_def)
  qed simp
  from this [of 8] show ?thesis by (simp add: vbits8_def)
qed

text \<open>The bits of a whole buffer, added up chunk by chunk.\<close>

lemma sum_chunks:
  fixes g :: "nat \<Rightarrow> nat"
  assumes w: "\<And>p. w p = (\<Sum>i = 8 * p..<8 * p + 64. g i)"
  shows "(\<Sum>j<n. \<Sum>k<8. w (j * 64 + 8 * k)) = (\<Sum>i<512 * n. g i)"
proof -
  have "(\<Sum>k<8. w (j * 64 + 8 * k)) = (\<Sum>i = j * 512..<j * 512 + 512. g i)" for j
  proof -
    have "(\<Sum>k<8. w (j * 64 + 8 * k)) = (\<Sum>k<8. \<Sum>i = k * 64..<k * 64 + 64. g (j * 512 + i))"
    proof (rule sum.cong [OF refl])
      fix k :: nat
      have "w (j * 64 + 8 * k) = (\<Sum>i = k * 64 + j * 512..<k * 64 + 64 + j * 512. g i)"
        unfolding w by (simp add: algebra_simps)
      also have "\<dots> = (\<Sum>i = k * 64..<k * 64 + 64. g (i + j * 512))" by (rule sum.shift_bounds_nat_ivl)
      finally show "w (j * 64 + 8 * k) = (\<Sum>i = k * 64..<k * 64 + 64. g (j * 512 + i))" by (simp add: add.commute)
    qed
    also have "\<dots> = (\<Sum>i<8 * 64. g (j * 512 + i))" by (rule sum.nat_group)
    also have "\<dots> = (\<Sum>i = j * 512..<j * 512 + 512. g i)"
      using sum.shift_bounds_nat_ivl [of g 0 "j * 512" 512] by (simp add: atLeast0LessThan add.commute)
    finally show ?thesis .
  qed
  then have "(\<Sum>j<n. \<Sum>k<8. w (j * 64 + 8 * k)) = (\<Sum>j<n. \<Sum>i = j * 512..<j * 512 + 512. g i)" by simp
  also have "\<dots> = (\<Sum>i<n * 512. g i)" by (rule sum.nat_group)
  finally show ?thesis by (simp add: mult.commute)
qed

lemma offsets_dvd: "k dvd sz \<Longrightarrow> 0 < k \<Longrightarrow> length (offsets k sz) = sz div k \<and> (\<forall>j < sz div k. offsets k sz ! j = j * k)"
proof -
  assume "k dvd sz" "0 < k"
  then obtain q where q: "sz = k * q" by (auto elim: dvdE)
  have "(sz + k - 1) div k = ((k - 1) + q * k) div k" using q \<open>0 < k\<close> by (simp add: algebra_simps)
  also have "\<dots> = q + (k - 1) div k" using \<open>0 < k\<close> by (intro div_mult_self1) simp
  finally have "(sz + k - 1) div k = sz div k" using q \<open>0 < k\<close> by simp
  then show ?thesis by (simp add: offsets_def)
qed

text \<open>A counting pass adds the bits of the chunks it reached, all of them when it was not stopped.\<close>

lemma bits_pass:
  assumes ex: "is_exit leave" and d: "64 dvd vsz st"
    and f: "\<And>m p. card {k. bit (f (rd64 m p)) k} = (\<Sum>i = 8 * p..<8 * p + 64. of_bool (Q m i))"
  obtains n where "n \<le> vsz st div 64"
    "\<not> fst (vm_loop (vbits8 f) leave (offsets 64 (vsz st)) st) \<Longrightarrow> n = vsz st div 64"
    "verrs (snd (vm_loop (vbits8 f) leave (offsets 64 (vsz st)) st)) =
       verrs st + of_nat (card {i. i < 512 * n \<and> Q (vmem st) i})"
    "vmem (snd (vm_loop (vbits8 f) leave (offsets 64 (vsz st)) st)) = vmem st"
    "voob (snd (vm_loop (vbits8 f) leave (offsets 64 (vsz st)) st)) = voob st"
    "vfails (snd (vm_loop (vbits8 f) leave (offsets 64 (vsz st)) st)) = vfails st"
proof -
  let ?ps = "offsets 64 (vsz st)"
  let ?w = "\<lambda>p. (\<Sum>i = 8 * p..<8 * p + 64. of_bool (Q (vmem st) i)) :: nat"
  let ?e = "\<lambda>j. of_nat (\<Sum>k<8. ?w (?ps ! j + 8 * k)) :: u64"
  have len: "length ?ps = vsz st div 64" and nth: "\<forall>j < vsz st div 64. ?ps ! j = j * 64"
    using offsets_dvd [OF d] by simp_all
  have step: "verrs (vbits8 f (?ps ! j) s) = verrs s + ?e j \<and> True \<and> vmem (vbits8 f (?ps ! j) s) = vmem s \<and>
      voob (vbits8 f (?ps ! j) s) = voob s \<and> vfails (vbits8 f (?ps ! j) s) = vfails s"
    if "j < length ?ps" "vmem s = vmem st" for j s
  proof -
    have "?ps ! j + 64 \<le> vsz s" using grid_offsets [OF d, of 64] that by (simp add: grid_def)
    then show ?thesis using that(2) by (simp add: vbits8_effect count_bits_card f)
  qed
  obtain n where n: "n \<le> length ?ps" "\<not> fst (vm_loop (vbits8 f) leave ?ps st) \<Longrightarrow> n = length ?ps"
    "verrs (snd (vm_loop (vbits8 f) leave ?ps st)) = verrs st + (\<Sum>j<n. ?e j)"
    "vmem (snd (vm_loop (vbits8 f) leave ?ps st)) = vmem st" "voob (snd (vm_loop (vbits8 f) leave ?ps st)) = voob st"
    "vfails (snd (vm_loop (vbits8 f) leave ?ps st)) = vfails st"
    by (rule check_pass [where P = "\<lambda>_ _. True" and e = ?e and body = "vbits8 f" and leave = leave and ps = ?ps and st = st])
      (use ex step in blast)+
  have "(\<Sum>j<n. \<Sum>k<8. ?w (?ps ! j + 8 * k)) = (\<Sum>j<n. \<Sum>k<8. ?w (j * 64 + 8 * k))"
    using n(1) len nth by (intro sum.cong refl) simp_all
  also have "\<dots> = (\<Sum>i<512 * n. of_bool (Q (vmem st) i))" by (rule sum_chunks) (rule refl)
  also have "\<dots> = card {i. i < 512 * n \<and> Q (vmem st) i}" by (simp add: Int_def)
  finally have c: "(\<Sum>j<n. \<Sum>k<8. ?w (?ps ! j + 8 * k)) = card {i. i < 512 * n \<and> Q (vmem st) i}" .
  have "(\<Sum>j<n. ?e j) = of_nat (\<Sum>j<n. \<Sum>k<8. ?w (?ps ! j + 8 * k))" by (rule of_nat_sum [symmetric])
  then have e: "(\<Sum>j<n. ?e j) = of_nat (card {i. i < 512 * n \<and> Q (vmem st) i})" unfolding c .
  show ?thesis by (rule that [OF n(1) [unfolded len] n(2) [unfolded len] n(3) [unfolded e] n(4-6)])
qed

lemma count_id_rd64: "card {k. bit (id (rd64 m p)) k} = (\<Sum>i = 8 * p..<8 * p + 64. of_bool (mem_bit m i))"
  by (simp add: count_rd64)

lemmas zero_bits_pass = bits_pass [where f = id and Q = mem_bit, OF _ _ count_id_rd64]
lemmas one_bits_pass = bits_pass [where f = "\<lambda>x. NOT x" and Q = "\<lambda>m i. \<not> mem_bit m i", OF _ _ count_rd64(2)]

abbreviation zero_one_half :: "vm_env \<Rightarrow> u8 \<Rightarrow> vm_st \<Rightarrow> vm_st" where
  "zero_one_half env v st \<equiv> (inject_random_bit_errors env (mincore_touch_pages env (vmemset env v st)))
     \<lparr>vcount := vcount st + of_nat (vsz st div 8)\<rparr>"

text \<open>What the buffer holds after it was filled with \<open>v\<close> and bits were flipped on purpose.\<close>

definition filled :: "vm_env \<Rightarrow> u8 \<Rightarrow> nat \<Rightarrow> u8 list" where
  "filled env v sz = vm_inject env (map (\<lambda>p. vm_cell env p v) [0..<sz])"

lemma keep_pass_full: "vm_keep env = (\<lambda>_. True) \<Longrightarrow> \<not> fst (vm_loop body (exit_keep env) ps st)"
  by (induction ps arbitrary: st) (simp_all add: exit_keep_def read_keep_def)

lemma bits_pass_clean:
  assumes "is_exit leave" "64 dvd vsz st" "vmem st = replicate (vsz st) v" "sz = vsz st"
    and "(f, v) \<in> {(id, 0), (\<lambda>x. NOT x, 0xff)}"
  shows "ok_run st (snd (vm_loop (vbits8 f) leave (offsets 64 sz) st))"
proof -
  have rd: "rd (vmem st) i = v" if "i < vsz st" for i
    unfolding rd_def using that assms(3) by (metis nth_replicate)
  have *: "{i. i < 512 * n \<and> mem_bit (vmem st) i \<noteq> (v = 0xff)} = {}" if "n \<le> vsz st div 64" "v = 0 \<or> v = 0xff" for n
  proof -
    have "mem_bit (vmem st) i = (v = 0xff)" if "i < 512 * n" for i
    proof -
      have "i div 8 < 64 * n" using that by (simp add: div_less_iff_less_mult)
      also have "64 * n \<le> vsz st" using \<open>n \<le> vsz st div 64\<close> assms(2) by auto
      finally have "rd (vmem st) (i div 8) = v" by (rule rd)
      moreover have "bit (0xff :: u8) (i mod 8)"
      proof -
        have "(0xff :: u8) = -1" by simp
        then show ?thesis by (simp only: bit_minus_1_iff) simp
      qed
      ultimately show ?thesis using \<open>v = 0 \<or> v = 0xff\<close> by (auto simp: mem_bit_def)
    qed
    then show ?thesis by auto
  qed
  consider "f = id" "v = 0" | "f = (\<lambda>x. NOT x)" "v = 0xff" using assms(5) by auto
  then show ?thesis
  proof cases
    case 1
    obtain n where "n \<le> vsz st div 64" and n: "verrs (snd (vm_loop (vbits8 id) leave (offsets 64 (vsz st)) st)) = verrs st + of_nat (card {i. i < 512 * n \<and> mem_bit (vmem st) i})"
      "vmem (snd (vm_loop (vbits8 id) leave (offsets 64 (vsz st)) st)) = vmem st"
      "voob (snd (vm_loop (vbits8 id) leave (offsets 64 (vsz st)) st)) = voob st"
      "vfails (snd (vm_loop (vbits8 id) leave (offsets 64 (vsz st)) st)) = vfails st"
      by (rule zero_bits_pass [OF assms(1,2)])
    moreover have "{i. i < 512 * n \<and> mem_bit (vmem st) i} = {}" using * [OF \<open>n \<le> vsz st div 64\<close>] 1 by simp
    ultimately show ?thesis using 1 by (simp only: ok_run_def assms(4)) simp
  next
    case 2
    obtain n where "n \<le> vsz st div 64" and n: "verrs (snd (vm_loop (vbits8 (\<lambda>x. NOT x)) leave (offsets 64 (vsz st)) st)) = verrs st + of_nat (card {i. i < 512 * n \<and> \<not> mem_bit (vmem st) i})"
      "vmem (snd (vm_loop (vbits8 (\<lambda>x. NOT x)) leave (offsets 64 (vsz st)) st)) = vmem st"
      "voob (snd (vm_loop (vbits8 (\<lambda>x. NOT x)) leave (offsets 64 (vsz st)) st)) = voob st"
      "vfails (snd (vm_loop (vbits8 (\<lambda>x. NOT x)) leave (offsets 64 (vsz st)) st)) = vfails st"
      by (rule one_bits_pass [OF assms(1,2)])
    moreover have "{i. i < 512 * n \<and> \<not> mem_bit (vmem st) i} = {}" using * [OF \<open>n \<le> vsz st div 64\<close>] 2 by simp
    ultimately show ?thesis using 2 by (simp only: ok_run_def assms(4)) simp
  qed
qed

lemma zero_one_clean:
  assumes s: "sound_mem env" and d: "64 dvd vsz st"
  shows "clean st (stress_vm_zero_one env st)"
proof -
  have half: "ok_run u (zero_one_half env v u)" "vmem (zero_one_half env v u) = replicate (vsz u) v" for v u
    unfolding sound_frame [OF s] using vmemset_ok(1) [OF s, of u v] vmemset_mem [OF s, of v u] by (simp_all add: ok_run_def)
  define s1 where "s1 = zero_one_half env 0 (errs0 st)"
  have s1: "ok_run (errs0 st) s1" "vmem s1 = replicate (vsz st) 0" using half [of "errs0 st" 0] unfolding s1_def by simp_all
  define A where "A = vm_loop (vbits8 id) (exit_keep env) (offsets 64 (vsz st)) s1"
  have A: "ok_run s1 (snd A)" unfolding A_def by (rule bits_pass_clean [where v = 0]) (use s1(2) d in simp_all)
  have szA: "vsz (snd A) = vsz st" using ok_run_sz [OF A] s1(2) by simp
  define s2 where "s2 = zero_one_half env 0xff (snd A)"
  have s2: "ok_run (snd A) s2" "vmem s2 = replicate (vsz st) 0xff"
    using half [of "snd A" "0xff"] szA unfolding s2_def by simp_all
  define B where "B = vm_loop (vbits8 (\<lambda>x. NOT x)) (exit_keep env) (offsets 64 (vsz st)) s2"
  have B: "ok_run s2 (snd B)" unfolding B_def by (rule bits_pass_clean [where v = "0xff"]) (use s2(2) d in simp_all)
  have "ok_run s1 (snd (vm_then A (\<lambda>_. B)))"
    by (rule ok_then [OF A]) (rule ok_run_trans [OF s2(1) B])
  then have "ok_run (errs0 st) (snd (vm_then A (\<lambda>_. B)))" by (rule ok_run_trans [OF s1(1)])
  moreover have "stress_vm_zero_one env st = vm_return env ''zero-one'' (snd (vm_then A (\<lambda>_. B)))"
    by (simp add: stress_vm_zero_one_def Let_def vm_then_def split_def A_def B_def s1_def s2_def)
  ultimately show ?thesis by (simp add: clean_return)
qed

section \<open>Plain reads and writes\<close>

lemma fold_ok_upt:
  assumes "\<And>k s. k < n \<Longrightarrow> vsz s = vsz st \<Longrightarrow> ok_run s (g k s)"
  shows "ok_run st (fold g [0..<n] st)"
  by (rule fold_ok) (use assms in simp)

lemma blocks64_ok:
  assumes "\<And>p s. p + 8 \<le> vsz s \<Longrightarrow> ok_run s (body p s)" "256 * (i + n) \<le> vsz st"
  shows "ok_run st (snd (blocks64 env body n i st))"
  using assms(2)
proof (induction n arbitrary: i st)
  case (Suc n)
  let ?s = "fold (\<lambda>k. body (256 * i + 8 * k)) [0..<32] st"
  have s: "ok_run st ?s" by (rule fold_ok_upt) (rule assms(1), use Suc.prems in simp)
  have "ok_run (?s\<lparr>vtick := Suc (vtick ?s)\<rparr>) (snd (blocks64 env body n (Suc i) (?s\<lparr>vtick := Suc (vtick ?s)\<rparr>)))"
    by (rule Suc.IH) (use Suc.prems ok_run_sz [OF s] in simp)
  then have "ok_run ?s (snd (blocks64 env body n (Suc i) (?s\<lparr>vtick := Suc (vtick ?s)\<rparr>)))" by (simp add: ok_run_def)
  moreover have "ok_run ?s (?s\<lparr>vtick := Suc (vtick ?s)\<rparr>)" by (simp add: ok_run_def)
  ultimately show ?case using ok_run_trans [OF s] by (simp add: read_keep_def Let_def)
qed simp

lemma write64_clean:
  assumes "sound_mem env"
  shows "clean st (stress_vm_write64 env st)"
proof -
  have "ok_run st (snd (blocks64 env (\<lambda>p. vset64 env p v) (vsz st div 256) 0 st))" for v
    by (rule blocks64_ok) (use assms in \<open>simp_all add: run_effects ok_run_def\<close>)
  then show ?thesis by (simp add: stress_vm_write64_def Let_def split_def clean_def ok_run_def)
qed

lemma read64_clean: "clean st (stress_vm_read64 env st)"
proof -
  have "ok_run st (snd (blocks64 env (\<lambda>p st. snd (vread64 p st)) (vsz st div 256) 0 st))"
    by (rule blocks64_ok) (simp_all add: vread64_def ok_run_def)
  then show ?thesis by (simp add: stress_vm_read64_def Let_def split_def clean_def ok_run_def)
qed

section \<open>Row hammer\<close>

lemma rd32_bytes:
  assumes "\<forall>i < 4. rd m (p + i) = byte_n i v"
  shows "rd32 m p = v"
proof (rule bit_word_eqI)
  fix n assume "n < LENGTH(32)"
  then have "n div 8 < 4" by simp
  then show "bit (rd32 m p) n = bit v n"
    using assms \<open>n < LENGTH(32)\<close> bit_bytes [where 'a = 32, of "\<lambda>k. rd m (p + k)" 0 4 n] by (simp add: rd32_def bit_byte_n)
qed

lemma grid_words: "grid (map (\<lambda>j. 4 * j) [0..<sz div 4]) 4 sz"
  by (auto simp: grid_def)

lemma rowhammer_clean:
  assumes s: "sound_mem env"
  shows "clean st (stress_vm_rowhammer env st)"
proof (cases "vsz st div 4 = 0")
  case True
  then show ?thesis by (simp add: stress_vm_rowhammer_def Let_def clean_def)
next
  case False
  let ?ps = "map (\<lambda>j. 4 * j) [0..<vsz st div 4]" and ?v = "rowhammer_val st"
  let ?A = "vm_loop (\<lambda>p. vset32 env p ?v) exit_none ?ps (errs0 st)"
  have g: "grid ?ps 4 (vsz st)" by (rule grid_words)
  have step: "ok_run u (vset32 env (?ps ! j) ?v u) \<and> True \<and>
      vmem (vset32 env (?ps ! j) ?v u) = wr_range (vmem u) (?ps ! j) 4 (\<lambda>i. byte_n i ?v)"
    if "j < length ?ps" "vsz u = vsz (errs0 st)" for j u
    using gridD [OF g that(1)] that(2) s by (simp add: run_effects ok_run_def)
  note * = rw_pass [where P = "\<lambda>_ _. True" and body = "\<lambda>p. vset32 env p ?v" and val = "\<lambda>_ i. byte_n i ?v" and st = "errs0 st"
     and leave = exit_none and ps = ?ps and n = 4, OF _ exits_are_exits(1) TrueI chunks_refl]
  have A: "ok_run (errs0 st) (snd ?A)" by (rule *(1)) (use g step in simp_all)
  have cA: "chunks ?ps 4 (\<lambda>_ i. byte_n i ?v) (vmem (snd ?A))" by (rule *(2)) (use g step vm_loop_none in simp_all)
  define s3 where "s3 = snd (vdraw mwc64 (snd (vdraw mwc64 (snd ?A))))"
  have s3: "ok_run (snd ?A) s3" "vmem s3 = vmem (snd ?A)" by (simp_all add: s3_def vdraw_def split_def ok_run_def)
  have "ok_run s3 (snd (vm_loop (hammer_test ?v) exit_none ?ps s3))"
  proof (rule check_pass_ok [where P = "\<lambda>_ _. True", OF exits_are_exits(1) TrueI])
    fix j and u :: vm_st assume j: "j < length ?ps" "vmem u = vmem s3"
    have "rd32 (vmem u) (?ps ! j) = ?v" by (rule rd32_bytes) (use chunksD [OF cA j(1)] j(2) s3(2) in simp)
    moreover have "?ps ! j + 4 \<le> vsz u" using gridD [OF g j(1)] ok_run_sz [OF A] j(2) s3(2) by simp
    ultimately show "ok_run u (hammer_test ?v (?ps ! j) u) \<and> True \<and> vmem (hammer_test ?v (?ps ! j) u) = vmem u"
      by (simp add: hammer_test_def vread32_def verr_def ok_run_def)
  qed
  then have "ok_run (errs0 st) (fold (hammer_test ?v) ?ps s3)"
    unfolding fold_as_loop by (rule ok_run_trans [OF A ok_run_trans [OF s3(1)]])
  then show ?thesis using False s
    by (simp add: stress_vm_rowhammer_def Let_def split_def sound_frame s3_def fold_as_loop clean_return ok_run_def)
qed

section \<open>Modulo X\<close>

text \<open>A pass of stores that keeps the bytes outside its positions.\<close>

lemma vset_keeps:
  assumes s: "sound_mem env" and ex: "is_exit leave" and ps: "\<forall>p \<in> set ps. p < vsz st \<and> p \<notin> K"
  shows "ok_run st (snd (vm_loop (\<lambda>p. vset env p v) leave ps st))"
    "q \<in> K \<Longrightarrow> rd (vmem (snd (vm_loop (\<lambda>p. vset env p v) leave ps st))) q = rd (vmem st) q"
proof -
  define I where "I (k :: nat) s \<longleftrightarrow> ok_run st s \<and> (\<forall>q \<in> K. rd (vmem s) q = rd (vmem st) q)" for k s
  obtain k where "I k (snd (vm_loop (\<lambda>p. vset env p v) leave ps st))"
  proof (rule vm_loop_inv [of I st ps leave "\<lambda>p. vset env p v"])
    show "I 0 st" by (simp add: I_def)
    fix k u assume k: "k < length ps" and I: "I k u"
    obtain c t where l: "snd (leave (vset env (ps ! k) v u)) = (vset env (ps ! k) v u)\<lparr>vcount := c, vtick := t\<rparr>"
      by (rule is_exitE [OF ex, of "vset env (ps ! k) v u"])
    have "ps ! k < vsz u" "ps ! k \<notin> K" using ps nth_mem [OF k] I ok_run_sz [of st u] by (auto simp: I_def)
    then show "I (Suc k) (snd (leave (vset env (ps ! k) v u)))"
      using I s unfolding l by (auto simp: I_def vset_def ok_run_def)
  qed blast
  then show "ok_run st (snd (vm_loop (\<lambda>p. vset env p v) leave ps st))"
    "q \<in> K \<Longrightarrow> rd (vmem (snd (vm_loop (\<lambda>p. vset env p v) leave ps st))) q = rd (vmem st) q"
    by (auto simp: I_def)
qed

definition keeps :: "nat set \<Rightarrow> vm_st \<Rightarrow> vm_st \<Rightarrow> bool" where
  "keeps K st st' \<longleftrightarrow> ok_run st st' \<and> (\<forall>q \<in> K. rd (vmem st') q = rd (vmem st) q)"

lemma keeps_refl: "keeps K st st"
  by (simp add: keeps_def)

lemma keeps_trans: "keeps K a b \<Longrightarrow> keeps K b c \<Longrightarrow> keeps K a c"
  by (auto simp: keeps_def intro: ok_run_trans)

lemma keeps_then:
  "keeps K st (snd r) \<Longrightarrow> (\<not> fst r \<Longrightarrow> keeps K (snd r) (snd (f (snd r)))) \<Longrightarrow> keeps K st (snd (vm_then r f))"
  by (cases r) (auto simp: vm_then_def intro: keeps_trans)

lemma keeps_exit: "keeps K st (snd (exit_keep env st))"
  by (simp add: keeps_def exit_keep_def read_keep_def ok_run_def)

lemma keeps_sz: "keeps K st st' \<Longrightarrow> vsz st' = vsz st"
  by (simp add: keeps_def ok_run_def)

lemma keeps_vset:
  "sound_mem env \<Longrightarrow> is_exit leave \<Longrightarrow> \<forall>p \<in> set ps. p < vsz st \<and> p \<notin> K \<Longrightarrow>
    keeps K st (snd (vm_loop (\<lambda>p. vset env p v) leave ps st))"
  unfolding keeps_def using vset_keeps by blast

lemma residue_class:
  fixes p ptr i :: nat
  assumes "23 dvd ptr" "i < 23" "ptr \<le> p" "p < ptr + 23" "p mod 23 = i"
  shows "p = ptr + i"
proof -
  obtain k where k: "p = ptr + k" using le_Suc_ex [OF assms(3)] by blast
  obtain m where m: "ptr = 23 * m" using assms(1) by (rule dvdE)
  have "k < 23" using k assms(4) by simp
  then have "p mod 23 = k" unfolding k m by simp
  then show ?thesis using assms(5) k by simp
qed

lemma modulo_fill_keeps:
  assumes s: "sound_mem env" and i: "i < 23"
  shows "sz = vsz st \<Longrightarrow> sz \<le> ptr \<or> 23 dvd ptr \<Longrightarrow> keeps {q. q mod 23 = i} st (snd (modulo_fill env i c sz ptr st))"
proof (induction "sz - ptr" arbitrary: ptr st rule: less_induct)
  case less
  show ?case
  proof (cases "sz \<le> ptr")
    case True
    then show ?thesis by (subst modulo_fill.simps) (simp add: keeps_refl)
  next
    case False
    let ?K = "{q. q mod 23 = i}"
    define p1 where "p1 = min (ptr + i) sz"
    define p2 where "p2 = p1 + 1"
    define p3 where "p3 = max p2 (min (p2 + (22 - i)) sz)"
    have d: "23 dvd ptr" using False less.prems(2) by simp
    have in1: "\<forall>p \<in> set [ptr..<p1]. p < sz \<and> p \<notin> ?K"
      using residue_class [OF d i] i by (fastforce simp: p1_def)
    have in2: "\<forall>p \<in> set [p2..<p3]. p < sz \<and> p \<notin> ?K"
    proof
      fix p assume "p \<in> set [p2..<p3]"
      then have p: "ptr + i < p" "p < ptr + 23" "p < sz" using i by (auto simp: p1_def p2_def p3_def min_def max_def split: if_splits)
      then show "p < sz \<and> p \<notin> ?K" using residue_class [OF d i, of p] by auto
    qed
    have nxt: "sz \<le> p3 + 23 \<or> 23 dvd p3 + 23"
    proof (cases "ptr + 23 \<le> sz")
      case True
      then have "p3 = ptr + 23" using i by (simp add: p1_def p2_def p3_def min_def max_def)
      then show ?thesis using d by simp
    qed (auto simp: p1_def p2_def p3_def min_def max_def)
    let ?A = "vm_loop (\<lambda>p. vset env p c) (exit_ops env) [ptr..<p1] st"
    have A: "keeps ?K st (snd ?A)" by (rule keeps_vset [OF s]) (use in1 less.prems(1) in simp_all)
    let ?B = "exit_keep env (snd ?A)"
    have B: "keeps ?K (snd ?A) (snd ?B)" by (rule keeps_exit)
    let ?C = "vm_loop (\<lambda>p. vset env p c) (exit_ops env) [p2..<p3] (snd ?B)"
    have szB: "vsz (snd ?B) = sz" using keeps_sz [OF A] keeps_sz [OF B] less.prems(1) by simp
    have C: "keeps ?K (snd ?B) (snd ?C)" by (rule keeps_vset [OF s]) (use in2 szB in simp_all)
    let ?D = "exit_keep env (snd ?C)"
    have D: "keeps ?K (snd ?C) (snd ?D)" by (rule keeps_exit)
    have lt: "sz - (p3 + 23) < sz - ptr" using False by (simp add: p1_def p2_def p3_def)
    have "keeps ?K (snd ?D) (snd (modulo_fill env i c sz (p3 + 23) (snd ?D)))"
      by (rule less.hyps [OF lt _ nxt]) (use keeps_sz [OF C] keeps_sz [OF D] szB in simp)
    then show ?thesis
      using False unfolding modulo_fill.simps [of env i c sz ptr st] Let_def
      unfolding p1_def [symmetric] p2_def [symmetric] p3_def [symmetric]
      by (simp only: if_False) (intro keeps_then A B C D)
  qed
qed

lemma vset_fills:
  assumes s: "sound_mem env" and ex: "is_exit leave" and ps: "\<forall>p \<in> set ps. p < vsz st"
    and n: "\<not> fst (vm_loop (\<lambda>p. vset env p v) leave ps st)" and q: "q \<in> set ps"
  shows "rd (vmem (snd (vm_loop (\<lambda>p. vset env p v) leave ps st))) q = v"
proof -
  define I where "I k s \<longleftrightarrow> vsz s = vsz st \<and> (\<forall>j < k. j < length ps \<longrightarrow> rd (vmem s) (ps ! j) = v)" for k s
  obtain k where k: "I k (snd (vm_loop (\<lambda>p. vset env p v) leave ps st))" "k = length ps"
  proof (rule vm_loop_inv [of I st ps leave "\<lambda>p. vset env p v"])
    show "I 0 st" by (simp add: I_def)
    fix k u assume k: "k < length ps" and I: "I k u"
    obtain c t where l: "snd (leave (vset env (ps ! k) v u)) = (vset env (ps ! k) v u)\<lparr>vcount := c, vtick := t\<rparr>"
      by (rule is_exitE [OF ex, of "vset env (ps ! k) v u"])
    have "ps ! k < vsz u" using ps nth_mem [OF k] I by (auto simp: I_def)
    then show "I (Suc k) (snd (leave (vset env (ps ! k) v u)))"
      using I s unfolding l by (auto simp: I_def vset_def less_Suc_eq)
  qed (use n in blast)
  then show ?thesis using q by (auto simp: I_def in_set_conv_nth)
qed

lemma modulo_positions:
  assumes p: "p \<in> set (map (\<lambda>p. p + i) (offsets 23 (sz - i)))" and i: "i < 23"
  shows "p < sz" "p mod 23 = i"
proof -
  obtain q where q: "q \<in> set (offsets 23 (sz - i))" "p = q + i" using p by auto
  show "p < sz" using offsets_less [OF q(1)] q(2) by simp
  obtain n where "q = n * 23" using q(1) by (auto simp: offsets_def)
  then show "p mod 23 = i" using q(2) i by simp
qed

lemma modulo_rounds_clean:
  assumes s: "sound_mem env" and "ok_run (errs0 st0) st" "\<forall>i \<in> set is. i < 23"
  shows "clean st0 (modulo_rounds env v c is st)"
  using assms(2,3)
proof (induction "is" arbitrary: st)
  case Nil
  then show ?case by (simp add: clean_return)
next
  case (Cons i "is")
  have i: "i < 23" using Cons.prems(2) by simp
  define ps where "ps = map (\<lambda>p. p + i) (offsets 23 (vsz st - i))"
  have ps: "p < vsz st" "p mod 23 = i" if "p \<in> set ps" for p
    using modulo_positions that i unfolding ps_def by blast+
  define A where "A = vm_loop (\<lambda>p. vset env p v) (exit_keep env) ps st"
  define F where "F = vm_then A (\<lambda>u. modulo_fill env i (NOT v) (vsz st) 0 u)"
  have A: "ok_run st (snd A)" unfolding A_def by (rule vset_keeps(1) [OF s, where K = "{}"]) (use ps(1) in auto)
  have K: "keeps {q. q mod 23 = i} (snd A) (snd (modulo_fill env i (NOT v) (vsz st) 0 (snd A)))"
    by (rule modulo_fill_keeps [OF s i]) (use ok_run_sz [OF A] in simp_all)
  have F: "ok_run st (snd F)" unfolding F_def
    by (rule ok_then [OF A]) (use K in \<open>simp add: keeps_def\<close>)
  define T where "T = vm_loop (\<lambda>p. vtest p v) (exit_keep env) ps (snd F)"
  have T: "ok_run (snd F) (snd T)" if "\<not> fst F"
  proof -
    have nA: "\<not> fst A" using that unfolding F_def vm_then_def by (auto split: prod.splits if_splits)
    have F_eq: "snd F = snd (modulo_fill env i (NOT v) (vsz st) 0 (snd A))"
      using nA unfolding F_def vm_then_def by (simp add: split_def)
    have "rd (vmem (snd F)) p = v" if "p \<in> set ps" for p
    proof -
      have "rd (vmem (snd A)) p = v" unfolding A_def
        by (rule vset_fills [OF s]) (use ps(1) nA that in \<open>auto simp: A_def\<close>)
      then show ?thesis using K ps(2) [OF that] unfolding F_eq keeps_def by simp
    qed
    then show ?thesis unfolding T_def by (intro vtest_pass) (use ps(1) ok_run_sz [OF F] in auto)
  qed
  have st0F: "ok_run (errs0 st0) (snd F)" by (rule ok_run_trans [OF Cons.prems(1) F])
  have step: "modulo_rounds env v c (i # is) st =
      (if fst F then vm_return env ''modulo X'' (snd F)
       else if fst T then (verrs (snd T), (snd T)\<lparr>vcount := c\<rparr>) else modulo_rounds env v c is (snd T))"
    by (simp add: Let_def split_def A_def F_def T_def ps_def inject_sound [OF s])
  show ?case
  proof (cases "fst F")
    case True
    then show ?thesis unfolding step using st0F by (simp add: clean_return)
  next
    case False
    have st0T: "ok_run (errs0 st0) (snd T)" by (rule ok_run_trans [OF st0F T [OF False]])
    then have "clean st0 (verrs (snd T), (snd T)\<lparr>vcount := c\<rparr>)" by (simp add: clean_def ok_run_def)
    moreover have "clean st0 (modulo_rounds env v c is (snd T))"
      by (rule Cons.IH [OF st0T]) (use Cons.prems(2) in simp)
    ultimately show ?thesis unfolding step using False by simp
  qed
qed

lemma modulo_x_clean:
  assumes "sound_mem env"
  shows "clean st (stress_vm_modulo_x env st)"
proof -
  have "ok_run (errs0 st) (snd (vdraw mwc8 (vreseed env (errs0 st))))"
    by (simp add: vdraw_def vreseed_def split_def ok_run_def)
  then show ?thesis
    unfolding stress_vm_modulo_x_def Let_def split_def by (intro modulo_rounds_clean [OF assms]) auto
qed

section \<open>Galloping patterns\<close>

text \<open>A placement that returns has changed one byte that still had the background value.\<close>

definition placed :: "vm_env \<Rightarrow> u8 \<Rightarrow> (nat \<Rightarrow> u8 \<Rightarrow> u8) \<Rightarrow> vm_st \<Rightarrow> vm_st \<Rightarrow> bool" where
  "placed env bg ch st st' \<longleftrightarrow> (0 < vsz st \<and> sound_mem env \<longrightarrow> (\<exists>p b m. p < vsz st \<and> b < 4 \<and> rd (vmem st) p = bg \<and>
     st' = st\<lparr>vmem := (vmem st)[p := ch b bg], vmwc := m\<rparr>))"

lemma galpat_place_step:
  assumes IH: "\<And>env bg ch st st'. gp env bg ch st = Some st' \<Longrightarrow> placed env bg ch st st'"
    and r: "(let st1 = snd (vdraw mwc64 st); st2 = snd (vdraw mwc32 st1);
         off = unat (fst (vdraw mwc64 st)) mod vsz st; b = unat (fst (vdraw mwc32 st1) AND 3)
     in if rd (vmem st2) off = bg then Some (vupd env off (ch b) st2) else gp env bg ch st2) = Some st'"
  shows "placed env bg ch st st'"
  unfolding placed_def
proof (intro impI)
  assume A: "0 < vsz st \<and> sound_mem env"
  let ?s2 = "snd (vdraw mwc32 (snd (vdraw mwc64 st)))"
  let ?off = "unat (fst (vdraw mwc64 st)) mod vsz st" and ?b = "unat (fst (vdraw mwc32 (snd (vdraw mwc64 st))) AND 3)"
  have s2: "vmem ?s2 = vmem st" "\<exists>m. ?s2 = st\<lparr>vmwc := m\<rparr>" by (auto simp: vdraw_def split_def)
  have b: "?b < 4"
  proof -
    have "fst (vdraw mwc32 (snd (vdraw mwc64 st))) AND 3 \<le> 3" by (rule word_and_le1)
    then show ?thesis by (simp add: word_le_nat_alt)
  qed
  have lt: "?off < vsz st" using A by simp
  obtain m where m: "?s2 = st\<lparr>vmwc := m\<rparr>" using s2(2) by blast
  show "\<exists>p b m. p < vsz st \<and> b < 4 \<and> rd (vmem st) p = bg \<and> st' = st\<lparr>vmem := (vmem st)[p := ch b bg], vmwc := m\<rparr>"
  proof (cases "rd (vmem ?s2) ?off = bg")
    case True
    then have "st' = vupd env ?off (ch ?b) ?s2" using r by (simp add: Let_def)
    also have "\<dots> = st\<lparr>vmem := (vmem st)[?off := ch ?b bg], vmwc := m\<rparr>"
      using True A lt [unfolded not_le [symmetric]] unfolding m by (intro vm_st.equality) (auto simp: vupd_def vset_def simp del: mod_less_divisor dest: leD)
    finally show ?thesis using True lt b s2(1) by auto
  next
    case False
    then have "gp env bg ch ?s2 = Some st'" using r by (simp add: Let_def)
    then obtain p b m' where "p < vsz ?s2" "b < 4" "rd (vmem ?s2) p = bg" "st' = ?s2\<lparr>vmem := (vmem ?s2)[p := ch b bg], vmwc := m'\<rparr>"
      using IH [of env bg ch ?s2 st'] A s2(1) by (auto simp: placed_def)
    then show ?thesis using m by auto
  qed
qed

lemma galpat_place_effect: "galpat_place env bg ch st = Some st' \<Longrightarrow> placed env bg ch st st'"
  by (erule galpat_place.raw_induct [rotated]) (rule galpat_place_step)

text \<open>On a buffer that still has the background value everywhere the first try succeeds.\<close>

lemma galpat_place_first:
  assumes "vmem st = replicate (vsz st) bg" "0 < vsz st"
  shows "\<exists>st'. galpat_place env bg ch st = Some st'"
proof -
  have "rd (vmem st) i = bg" if "i < vsz st" for i
    unfolding rd_def using that assms(1) by (metis nth_replicate)
  then have "rd (vmem (snd (vdraw mwc32 (snd (vdraw mwc64 st))))) (unat (fst (vdraw mwc64 st)) mod vsz st) = bg"
    using assms(2) by (simp add: vdraw_def split_def)
  then show ?thesis by (subst galpat_place.simps) (simp add: Let_def)
qed

text \<open>The bits that differ from the background.\<close>

definition odd_bits :: "u8 \<Rightarrow> u8 list \<Rightarrow> nat set" where
  "odd_bits bg m = {i. i < 8 * length m \<and> mem_bit m i \<noteq> bit bg (i mod 8)}"

lemma finite_odd_bits: "finite (odd_bits bg m)"
  by (simp add: odd_bits_def)

definition flips_one :: "u8 \<Rightarrow> (nat \<Rightarrow> u8 \<Rightarrow> u8) \<Rightarrow> bool" where
  "flips_one bg ch \<longleftrightarrow> (\<forall>b < 4. \<forall>j < 8. bit (ch b bg) j \<noteq> bit bg j \<longleftrightarrow> j = b)"

lemma odd_bits_place:
  assumes "flips_one bg ch" "p < length m" "b < 4" "rd m p = bg"
  shows "card (odd_bits bg (m[p := ch b bg])) = Suc (card (odd_bits bg m))"
proof -
  have e: "i div 8 = p \<and> i mod 8 = b \<longleftrightarrow> i = 8 * p + b" for i using assms(3) by auto
  have "odd_bits bg (m[p := ch b bg]) = insert (8 * p + b) (odd_bits bg m)"
    unfolding odd_bits_def mem_bit_def using assms e by (auto simp: flips_one_def split: if_splits)
  moreover have "8 * p + b \<notin> odd_bits bg m" using assms(3,4) by (simp add: odd_bits_def mem_bit_def)
  ultimately show ?thesis using finite_odd_bits by simp
qed

lemma galpat_fill_effect:
  assumes s: "sound_mem env" and f: "flips_one bg ch" and m: "vm_max_ops env = 0"
  shows "galpat_fill env bg ch n st = Some st' \<Longrightarrow> n \<le> vsz st \<Longrightarrow>
    ok_run st st' \<and> card (odd_bits bg (vmem st')) = n + card (odd_bits bg (vmem st))"
proof (induction n arbitrary: st)
  case (Suc n)
  then obtain s1 where s1: "galpat_place env bg ch st = Some s1" by (auto split: option.splits)
  then obtain p b mm where p: "p < vsz st" "b < 4" "rd (vmem st) p = bg" "s1 = st\<lparr>vmem := (vmem st)[p := ch b bg], vmwc := mm\<rparr>"
    using galpat_place_effect [OF s1] Suc.prems(2) s unfolding placed_def by fastforce
  have "galpat_fill env bg ch n (s1\<lparr>vcount := vcount s1 + 1\<rparr>) = Some st'"
    using Suc.prems(1) s1 no_limit [OF m] by (simp add: exit_ops_def Let_def)
  from Suc.IH [OF this] Suc.prems(2) p
  have "ok_run s1 st'" "card (odd_bits bg (vmem st')) = n + card (odd_bits bg (vmem s1))" by (simp_all add: ok_run_def)
  moreover have "ok_run st s1" using p(4) by (simp add: ok_run_def)
  moreover have "card (odd_bits bg (vmem s1)) = Suc (card (odd_bits bg (vmem st)))"
    using odd_bits_place [OF f p(1-3)] p(4) by simp
  ultimately show ?case using ok_run_trans by auto
qed simp

lemma odd_bits_replicate: "odd_bits bg (replicate n bg) = {}"
  by (auto simp: odd_bits_def mem_bit_def rd_def)

lemma galpat_bits:
  assumes s: "sound_mem env" and k: "vm_keep env = (\<lambda>_. True)" and d: "64 dvd vsz st"
    and f: "\<And>m p. card {k. bit (f (rd64 m p)) k} = (\<Sum>i = 8 * p..<8 * p + 64. of_bool (mem_bit m i \<noteq> bit bg (i mod 8)))"
  shows "verrs (snd (vm_loop (vbits8 f) (exit_keep env) (offsets 64 (vsz st)) st)) = verrs st + of_nat (card (odd_bits bg (vmem st)))"
    "ok_run (st\<lparr>verrs := x\<rparr>) ((snd (vm_loop (vbits8 f) (exit_keep env) (offsets 64 (vsz st)) st))\<lparr>verrs := x\<rparr>)"
proof -
  let ?L = "vm_loop (vbits8 f) (exit_keep env) (offsets 64 (vsz st)) st"
  obtain n where n: "\<not> fst ?L \<Longrightarrow> n = vsz st div 64"
    "verrs (snd ?L) = verrs st + of_nat (card {i. i < 512 * n \<and> mem_bit (vmem st) i \<noteq> bit bg (i mod 8)})"
    "vmem (snd ?L) = vmem st" "voob (snd ?L) = voob st" "vfails (snd ?L) = vfails st"
    by (rule bits_pass [where Q = "\<lambda>m i. mem_bit m i \<noteq> bit bg (i mod 8)", OF exits_are_exits(2) [of env] d f]) blast
  have e: "512 * n = 8 * vsz st" using n(1) [OF keep_pass_full [OF k]] d by auto
  show "verrs (snd ?L) = verrs st + of_nat (card (odd_bits bg (vmem st)))" using n(2) unfolding e odd_bits_def .
  show "ok_run (st\<lparr>verrs := x\<rparr>) ((snd ?L)\<lparr>verrs := x\<rparr>)" using n(3-5) by (simp add: ok_run_def)
qed


lemma flips_one_or: "flips_one 0x00 (\<lambda>b v. v OR push_bit b 1)"
  by (auto simp: flips_one_def bit_or_iff bit_exp_iff)

lemma bit_ff: "j < 8 \<Longrightarrow> bit (0xff :: u8) j"
proof -
  assume "j < 8"
  then have "bit (-1 :: u8) j" by simp
  moreover have "(0xff :: u8) = -1" by simp
  ultimately show ?thesis by (simp only:)
qed

lemma flips_one_and: "flips_one 0xff (\<lambda>b v. v AND NOT (push_bit b 1))"
  using bit_ff by (auto simp: flips_one_def bit_and_iff bit_not_iff bit_exp_iff)

lemma galpat_counts:
  "card {k. bit (id (rd64 m p)) k} = (\<Sum>i = 8 * p..<8 * p + 64. of_bool (mem_bit m i \<noteq> bit (0x00 :: u8) (i mod 8)))"
  "card {k. bit (NOT (rd64 m p)) k} = (\<Sum>i = 8 * p..<8 * p + 64. of_bool (mem_bit m i \<noteq> bit (0xff :: u8) (i mod 8)))"
  unfolding id_apply count_rd64 by (rule sum.cong; use bit_ff in simp)+

lemma galpat_clean:
  assumes s: "sound_mem env" and k: "vm_keep env = (\<lambda>_. True)" and m: "vm_max_ops env = 0" and d: "64 dvd vsz st"
    and fo: "flips_one bg ch"
    and f: "\<And>m p. card {k. bit (f (rd64 m p)) k} = (\<Sum>i = 8 * p..<8 * p + 64. of_bool (mem_bit m i \<noteq> bit bg (i mod 8)))"
    and r: "galpat env name bg ch f st = Some r"
  shows "clean st r"
proof -
  let ?n = "vsz st div 4096"
  define s0 where "s0 = vreseed env (vmemset env bg (errs0 st))"
  have s0: "ok_run (errs0 st) s0" "vmem s0 = replicate (vsz st) bg"
    using vmemset_ok(1) [OF s, of "errs0 st" bg] vmemset_mem [OF s, of bg "errs0 st"] by (simp_all add: s0_def vreseed_def ok_run_def)
  obtain s1 where s1: "galpat_fill env bg ch ?n s0 = Some s1" using r by (auto simp: galpat_def s0_def Let_def split: option.splits)
  have F: "ok_run s0 s1" "card (odd_bits bg (vmem s1)) = ?n"
    using galpat_fill_effect [OF s fo m s1] s0(2) by (simp_all add: odd_bits_replicate)
  have sz: "vsz s1 = vsz st" using ok_run_sz [OF F(1)] s0(2) by simp
  have e0: "verrs s1 = 0" using s0(1) F(1) by (simp add: ok_run_def)
  define s2 where "s2 = snd (vm_loop (vbits8 f) (exit_keep env) (offsets 64 (vsz st)) s1)"
  have d1: "64 dvd vsz s1" using d sz by simp
  have s2: "verrs s2 = of_nat ?n" "ok_run (errs0 s1) (errs0 s2)"
    using galpat_bits [OF s k d1 f] F(2) e0 unfolding s2_def sz by simp_all
  have "r = vm_return env name (s2\<lparr>verrs := 0\<rparr>)"
    using r s1 s2(1) by (simp add: galpat_def s0_def Let_def sound_frame [OF s] s2_def)
  moreover have "ok_run (errs0 st) (errs0 s2)" using s0(1) F(1) s2(2) by (simp add: ok_run_def)
  ultimately show ?thesis using clean_return by blast
qed

lemma galpat_zero_one_clean:
  assumes "sound_mem env" "vm_keep env = (\<lambda>_. True)" "vm_max_ops env = 0" "64 dvd vsz st"
  shows "stress_vm_galpat_zero env st = Some r \<Longrightarrow> clean st r" "stress_vm_galpat_one env st = Some r \<Longrightarrow> clean st r"
  unfolding stress_vm_galpat_zero_def stress_vm_galpat_one_def
  using galpat_clean [OF assms flips_one_or galpat_counts(1)] galpat_clean [OF assms flips_one_and galpat_counts(2)] by blast+

end
