(* ===== verification/Vm_Props.thy ===== *)
theory Vm_Props
  imports Vm_Count
begin

text \<open>
  The properties of the memory test methods: what they find on faulty memory, that they find nothing
  on sound memory, and the two situations in which they report errors that are not there.
\<close>

section \<open>A sample environment\<close>

text \<open>Sound memory at address 4096, no limit, a flag that stays set; and a blank state of a given size.\<close>

definition sample_env :: vm_env where
  "sample_env = \<lparr>vm_max_ops = 0, vm_keep = (\<lambda>_. True), vm_cell = (\<lambda>_ v. v), vm_inject = (\<lambda>m. m), vm_hammer = (\<lambda>_ _ m. m),
     vm_base = 4096, vm_opt_flags = 0,
     vm_reseed_env = \<lparr>env_no_rand_seed = False, env_tod = Some (1, 2), env_addr_diff = 3, env_pid = 4, env_ppid = 5\<rparr>,
     vm_page_size = 4096, vm_vec_alloc = True, vm_mincore = (\<lambda>_. None), vm_swaps_alloc = True\<rparr>"

definition sample_st :: "nat \<Rightarrow> vm_st" where
  "sample_st n = \<lparr>vmem = replicate n 0, vmwc = mwc_init, vcount = 0, verrs = 0, vtick = 0, voob = False, vfails = [],
     gray_val = 0, incdec_val = 0, prime_incdec_val = 0, nybble_val = 0, write64_val = 0, rowhammer_val = 0, all_i = 1\<rparr>"

lemma sample_sound: "sound_mem sample_env"
  by (simp add: sound_mem_def sample_env_def)

lemma sample_size [simp]: "vsz (sample_st n) = n"
  by (simp add: sample_st_def)

section \<open>What the methods find\<close>

lemma ops_keep_pass_full:
  "vm_keep env = (\<lambda>_. True) \<Longrightarrow> vm_max_ops env = 0 \<Longrightarrow> \<not> fst (vm_loop body (exit_ops_keep env) ps st)"
  by (induction ps arbitrary: st)
    (simp_all add: exit_ops_keep_def exit_ops_def exit_keep_def read_keep_def no_limit Let_def)

lemma set_and_test_fold:
  "p < vsz st \<Longrightarrow> verrs (fold (SET_AND_TEST env p) vs st) = verrs st + of_nat (length (filter (\<lambda>v. vm_cell env p v \<noteq> v) vs)) \<and>
    vsz (fold (SET_AND_TEST env p) vs st) = vsz st"
proof (induction vs arbitrary: st)
  case (Cons v vs)
  have "verrs (SET_AND_TEST env p v st) = verrs st + of_bool (vm_cell env p v \<noteq> v)"
    "vsz (SET_AND_TEST env p v st) = vsz st"
    using Cons.prems by (simp_all add: SET_AND_TEST_def vset_def vtest_def)
  then show ?case using Cons.IH [of "SET_AND_TEST env p v st"] Cons.prems by simp
qed simp

lemma walking_data_count:
  assumes "vm_keep env = (\<lambda>_. True)" "vm_max_ops env = 0"
  shows "verrs (snd (vm_loop (\<lambda>p. fold (SET_AND_TEST env p) vs) (exit_ops_keep env) [0..<vsz st] st)) =
    verrs st + of_nat (\<Sum>p < vsz st. length (filter (\<lambda>v. vm_cell env p v \<noteq> v) vs))"
proof -
  let ?body = "\<lambda>p. fold (SET_AND_TEST env p) vs" and ?e = "\<lambda>p. length (filter (\<lambda>v. vm_cell env p v \<noteq> v) vs)"
  define I where "I k s \<longleftrightarrow> vsz s = vsz st \<and> verrs s = verrs st + of_nat (\<Sum>p<k. ?e p)" for k s
  obtain k where "I k (snd (vm_loop ?body (exit_ops_keep env) [0..<vsz st] st))" "k = vsz st"
  proof (rule vm_loop_inv [of I st "[0..<vsz st]" "exit_ops_keep env" ?body])
    show "I 0 st" by (simp add: I_def)
    fix k u assume k: "k < length [0..<vsz st]" and I: "I k u"
    obtain c t where l: "snd (exit_ops_keep env (?body ([0..<vsz st] ! k) u)) = (?body ([0..<vsz st] ! k) u)\<lparr>vcount := c, vtick := t\<rparr>"
      by (rule is_exitE [OF exits_are_exits(4), of env "?body ([0..<vsz st] ! k) u"])
    show "I (Suc k) (snd (exit_ops_keep env (?body ([0..<vsz st] ! k) u)))"
      using I k set_and_test_fold [of k u env vs] unfolding l by (simp add: I_def)
  qed (use ops_keep_pass_full [OF assms] in force)
  then show ?thesis by (simp add: I_def)
qed

text \<open>
  C18: run to the end, the two walking bit methods report one error for each cell and each of the
  eight patterns that the cell does not hold: no stuck bit is missed and nothing else is counted.
\<close>

theorem walking_data_exact:
  assumes "vm_keep env = (\<lambda>_. True)" "vm_max_ops env = 0"
  shows "fst (stress_vm_walking_one_data env st) =
      of_nat (\<Sum>p < vsz st. length (filter (\<lambda>v. vm_cell env p v \<noteq> v) (map (\<lambda>k. push_bit k 1) [0..<8]))) \<and>
    fst (stress_vm_walking_zero_data env st) =
      of_nat (\<Sum>p < vsz st. length (filter (\<lambda>v. vm_cell env p v \<noteq> v) (map (\<lambda>k. NOT (push_bit k 1)) [0..<8])))"
proof -
  have 1: "map (\<lambda>k. push_bit k 1) [0..<8] = [0x01, 0x02, 0x04, 0x08, 0x10, 0x20, 0x40, 0x80 :: u8]"
    by (simp add: upt_rec)
  have 0: "map (\<lambda>k. NOT (push_bit k 1)) [0..<8] = [0xfe, 0xfd, 0xfb, 0xf7, 0xef, 0xdf, 0xbf, 0x7f :: u8]"
    by (simp add: upt_rec)
  note * = walking_data_count [OF assms, of _ "errs0 st"]
  have ret: "fst (vm_return env n s) = verrs s" for n s by (simp add: vm_return_def stress_vm_check_def Let_def)
  show ?thesis
    unfolding stress_vm_walking_one_data_def stress_vm_walking_zero_data_def ret 0 1
    using * [of "[0x01, 0x02, 0x04, 0x08, 0x10, 0x20, 0x40, 0x80]"] * [of "[0xfe, 0xfd, 0xfb, 0xf7, 0xef, 0xdf, 0xbf, 0x7f]"]
    by simp
qed

lemma single_methods_clean:
  assumes s: "sound_mem env" and m: "vm_max_ops env = 0" and sw: "vm_swaps_alloc env"
    and fit: "unat (vm_base env) + vsz st < 2 ^ 64" and d: "4096 dvd vsz st" and w: "prime_walkable (vsz st)"
    and f: "(name, f) \<in> set vm_single_methods"
  shows "(name \<notin> {''galpat-0'', ''galpat-1''} \<longrightarrow> (\<exists>r. f env st = Some r \<and> clean st r)) \<and>
    (vm_keep env = (\<lambda>_. True) \<longrightarrow> (\<forall>r. f env st = Some r \<longrightarrow> clean st r))"
proof -
  have 8: "8 dvd vsz st" and 64: "64 dvd vsz st" and 512: "512 dvd vsz st"
    by (rule dvd_trans [OF _ d], simp)+
  note c = flip_clean [OF s 8] gray_clean [OF s m] rowhammer_clean [OF s] incdec_clean [OF s m] inc_nybble_clean [OF s 8]
    rand_set_clean [OF s 8] rand_sum_clean [OF s 512] read64_clean ror_clean [OF s 8] swap_clean [OF s sw 64]
    moving_inversion_clean [OF s 8] modulo_x_clean [OF s] prime_zero_clean [OF s w] prime_one_clean [OF s w]
    prime_gray_zero_clean [OF s w] prime_gray_one_clean [OF s w] prime_incdec_clean [OF s m w]
    walking_data_clean [OF s] walking_addr_clean [OF s fit] write64_clean [OF s] zero_one_clean [OF s 64]
  note g = galpat_zero_one_clean [OF s _ m 64]
  show ?thesis
    using f c g unfolding vm_single_methods_def by (simp only: set_simps insert_iff prod.inject empty_iff) (elim disjE conjE; simp)
qed

text \<open>
  C6: no false alarms.  On sound memory, with a buffer of whole pages that fits into the address space and that the prime walk covers,
  no operation limit and memory for the buffers of the swap method, every single method of the table returns without an error, a report or an access
  outside the buffer, whenever the keep-stressing flag is cleared.  The two galloping pattern
  methods are the exceptions: they may keep drawing positions, and if they return they are clean when the flag stays set.
\<close>

theorem vm_no_false_alarms:
  assumes s: "sound_mem env" and m: "vm_max_ops env = 0" and sw: "vm_swaps_alloc env"
    and fit: "unat (vm_base env) + vsz st < 2 ^ 64" and d: "4096 dvd vsz st" and w: "prime_walkable (vsz st)"
    and f: "(name, f) \<in> set vm_single_methods"
  shows "(name \<notin> {''galpat-0'', ''galpat-1''} \<longrightarrow> (\<exists>r. f env st = Some r \<and> clean st r)) \<and>
    (vm_keep env = (\<lambda>_. True) \<longrightarrow> (\<forall>r. f env st = Some r \<longrightarrow> clean st r))"
  using assms by (rule single_methods_clean)

text \<open>
  C10: run to the end, the zero-one method reports exactly the bits that read one after the buffer was
  filled with zeros plus those that read zero after it was filled with ones, whatever the cells do
  to a store and whatever bits are flipped on purpose.
\<close>

theorem zero_one_exact:
  assumes d: "64 dvd vsz st" and k: "vm_keep env = (\<lambda>_. True)"
    and fl: "vm_opt_flags env AND OPT_FLAGS_MMAP_MINCORE = 0" and len: "\<And>m. length (vm_inject env m) = length m"
  shows "fst (stress_vm_zero_one env st) = of_nat
    (card {i. i < 8 * vsz st \<and> mem_bit (filled env 0 (vsz st)) i} +
     card {i. i < 8 * vsz st \<and> \<not> mem_bit (filled env 0xff (vsz st)) i})"
proof -
  let ?ps = "offsets 64 (vsz st)"
  have touch: "mincore_touch_pages env s = s" for s using fl by (simp add: mincore_touch_pages_def Let_def)
  have half: "vmem (zero_one_half env v s) = filled env v (vsz s)" "verrs (zero_one_half env v s) = verrs s"
    "vsz (zero_one_half env v s) = vsz s" for v s
    by (simp_all add: touch inject_random_bit_errors_def vmemset_def filled_def len)
  define s1 where "s1 = zero_one_half env 0 (errs0 st)"
  have s1: "vsz s1 = vsz st" "vmem s1 = filled env 0 (vsz st)" "verrs s1 = 0"
    using half [of "errs0 st" 0] unfolding s1_def by simp_all
  define A where "A = vm_loop (vbits8 id) (exit_keep env) ?ps s1"
  have d1: "64 dvd vsz s1" using d s1(1) by simp
  have A1: "A = vm_loop (vbits8 id) (exit_keep env) (offsets 64 (vsz s1)) s1" by (simp add: A_def s1(1))
  have nA: "\<not> fst A" unfolding A_def by (rule keep_pass_full [OF k])
  obtain n where n: "\<not> fst A \<Longrightarrow> n = vsz s1 div 64" "verrs (snd A) = verrs s1 + of_nat (card {i. i < 512 * n \<and> mem_bit (vmem s1) i})"
    "vmem (snd A) = vmem s1"
    unfolding A1 by (rule zero_bits_pass [OF exits_are_exits(2) [of env] d1]) blast
  define s2 where "s2 = zero_one_half env 0xff (snd A)"
  have s2: "vsz s2 = vsz st" "vmem s2 = filled env 0xff (vsz st)" "verrs s2 = verrs (snd A)"
    using half [of "snd A" "0xff"] n(3) s1(1) unfolding s2_def by simp_all
  have d2: "64 dvd vsz s2" using d s2(1) by simp
  define B where "B = vm_loop (vbits8 (\<lambda>x. NOT x)) (exit_keep env) ?ps s2"
  have B1: "B = vm_loop (vbits8 (\<lambda>x. NOT x)) (exit_keep env) (offsets 64 (vsz s2)) s2" by (simp add: B_def s2(1))
  have nB: "\<not> fst B" unfolding B_def by (rule keep_pass_full [OF k])
  obtain m where m: "\<not> fst B \<Longrightarrow> m = vsz s2 div 64" "verrs (snd B) = verrs s2 + of_nat (card {i. i < 512 * m \<and> \<not> mem_bit (vmem s2) i})"
    unfolding B1 by (rule one_bits_pass [OF exits_are_exits(2) [of env] d2]) blast
  have e: "512 * (vsz st div 64) = 8 * vsz st" using d by auto
  have "stress_vm_zero_one env st = vm_return env ''zero-one'' (snd B)"
    using nA by (simp add: stress_vm_zero_one_def Let_def vm_then_def split_def A_def B_def s1_def s2_def)
  then have "fst (stress_vm_zero_one env st) = verrs (snd B)"
    by (simp add: vm_return_def stress_vm_check_def Let_def)
  then show ?thesis using n(2) m(2) n(1) [OF nA] m(1) [OF nB] s1 s2 by (simp add: e)
qed

text \<open>Bit 3 of byte 5 is stuck at one, and one bit is flipped on purpose after every fill.\<close>

definition faulty_env :: vm_env where
  "faulty_env = sample_env\<lparr>vm_cell := (\<lambda>i v. if i = 5 then v OR 8 else v), vm_inject := (\<lambda>m. m[7 := rd m 7 XOR 1])\<rparr>"

lemma faulty_patterns:
  "length (filter (\<lambda>v. vm_cell faulty_env p v \<noteq> v) (map (\<lambda>k. push_bit k 1) [0..<8])) = (if p = 5 then 7 else 0)"
  "length (filter (\<lambda>v. vm_cell faulty_env p v \<noteq> v) (map (\<lambda>k. NOT (push_bit k 1)) [0..<8])) = (if p = 5 then 1 else 0)"
proof -
  have c: "vm_cell faulty_env p v = (if p = 5 then v OR 8 else v)" for v by (simp add: faulty_env_def)
  have u: "[0..<8] = [0, 1, 2, 3, 4, 5, 6, 7 :: nat]" by (simp add: upt_rec)
  show "length (filter (\<lambda>v. vm_cell faulty_env p v \<noteq> v) (map (\<lambda>k. push_bit k 1) [0..<8])) = (if p = 5 then 7 else 0)"
    unfolding c u by simp
  show "length (filter (\<lambda>v. vm_cell faulty_env p v \<noteq> v) (map (\<lambda>k. NOT (push_bit k 1)) [0..<8])) = (if p = 5 then 1 else 0)"
    unfolding c u by simp
qed

theorem walking_data_exact_witness:
  "fst (stress_vm_walking_one_data faulty_env (sample_st 8)) = 7 \<and> fst (stress_vm_walking_zero_data faulty_env (sample_st 8)) = 1"
proof -
  have "vm_keep faulty_env = (\<lambda>_. True)" "vm_max_ops faulty_env = 0" by (simp_all add: faulty_env_def sample_env_def)
  from walking_data_exact [OF this, of "sample_st 8"] show ?thesis
    unfolding faulty_patterns sample_size by (simp add: sum.delta)
qed

theorem vm_no_false_alarms_witness:
  "(\<exists>r. total stress_vm_flip sample_env (sample_st 4096) = Some r \<and> clean (sample_st 4096) r)"
proof -
  have "prime_walkable 4096"
  proof -
    have "coprime ((2::nat) ^ 12) 1511789" by (simp only: coprime_power_left_iff) simp
    then show ?thesis by (simp add: prime_walkable_def prime_low_def)
  qed
  moreover have "(''flip'', total stress_vm_flip) \<in> set vm_single_methods" by (simp add: vm_single_methods_def)
  ultimately have "(''flip'' \<notin> {''galpat-0'', ''galpat-1''} \<longrightarrow>
      (\<exists>r. total stress_vm_flip sample_env (sample_st 4096) = Some r \<and> clean (sample_st 4096) r))"
    using vm_no_false_alarms [of sample_env "sample_st 4096" "''flip''" "total stress_vm_flip", OF sample_sound]
    by (simp only: sample_size) (simp add: sample_env_def)
  then show ?thesis by simp
qed

lemma faulty_filled:
  "p < 64 \<Longrightarrow> rd (filled faulty_env v 64) p = (if p = 5 then v OR 8 else if p = 7 then v XOR 1 else v)"
  by (simp add: filled_def faulty_env_def sample_env_def rd_def nth_list_update)

lemma bit_fe: "bit (0xfe :: u8) k \<longleftrightarrow> 0 < k \<and> k < 8"
proof -
  have "(0xfe :: u8) = NOT 1" by simp
  then show ?thesis by (simp only: bit_not_iff bit_1_iff) auto
qed

lemma faulty_bits:
  "{i. i < 512 \<and> mem_bit (filled faulty_env 0 64) i} = {43, 56}"
  "{i. i < 512 \<and> \<not> mem_bit (filled faulty_env 0xff 64) i} = {56}"
proof -
  have p: "i div 8 < 64" if "i < 512" for i :: nat using that by simp
  have split: "(i div 8 = q \<and> i mod 8 = r) = (i = 8 * q + r)" if "r < 8" for i q r :: nat using that by auto
  have "mem_bit (filled faulty_env 0 64) i \<longleftrightarrow> i = 8 * 5 + 3 \<or> i = 8 * 7 + 0" if "i < 512" for i
    using that p [OF that] split [of 3 i 5] split [of 0 i 7] bit_exp_iff [where 'a = "8 word", of 3 "i mod 8"]
    by (auto simp: mem_bit_def faulty_filled bit_1_iff)
  then show "{i. i < 512 \<and> mem_bit (filled faulty_env 0 64) i} = {43, 56}" by auto
  have "\<not> mem_bit (filled faulty_env 0xff 64) i \<longleftrightarrow> i = 8 * 7 + 0" if "i < 512" for i
    using that p [OF that] split [of 0 i 7] bit_ff [of "i mod 8"] bit_fe [of "i mod 8"]
    by (auto simp: mem_bit_def faulty_filled)
  then have "i < 512 \<and> \<not> mem_bit (filled faulty_env 0xff 64) i \<longleftrightarrow> i = 56" for i by (cases "i = 56") force+
  then show "{i. i < 512 \<and> \<not> mem_bit (filled faulty_env 0xff 64) i} = {56}" by blast
qed

theorem zero_one_exact_witness: "fst (stress_vm_zero_one faulty_env (sample_st 64)) = 3"
proof -
  have "fst (stress_vm_zero_one faulty_env (sample_st 64)) = of_nat
    (card {i. i < 8 * vsz (sample_st 64) \<and> mem_bit (filled faulty_env 0 (vsz (sample_st 64))) i} +
     card {i. i < 8 * vsz (sample_st 64) \<and> \<not> mem_bit (filled faulty_env 0xff (vsz (sample_st 64))) i})"
    by (rule zero_one_exact) (simp_all add: faulty_env_def sample_env_def)
  then show ?thesis using faulty_bits by simp
qed

section \<open>Errors that are not there\<close>

text \<open>The number of placements that the limit allows: one is always made.\<close>

definition placements :: "vm_env \<Rightarrow> u64 \<Rightarrow> nat" where
  "placements env c = max 1 (unat (vm_max_ops env) - unat c)"

lemma placements_step:
  assumes "vm_max_ops env \<noteq> 0" "unat c + 1 < 2 ^ 64"
  shows "ops_done env (c + 1) \<Longrightarrow> placements env c = 1"
    and "\<not> ops_done env (c + 1) \<Longrightarrow> placements env c = Suc (placements env (c + 1)) \<and> unat (c + 1) + 1 < 2 ^ 64"
proof -
  have u: "unat (c + 1) = unat c + 1" using assms(2) by (simp add: unat_word_ariths)
  show "ops_done env (c + 1) \<Longrightarrow> placements env c = 1"
    using u by (auto simp: ops_done_def placements_def word_le_nat_alt)
  assume "\<not> ops_done env (c + 1)"
  then have lt: "unat c + 1 < unat (vm_max_ops env)" using assms(1) u by (simp add: ops_done_def word_le_nat_alt)
  moreover have "unat (vm_max_ops env) < 2 ^ 64" using unsigned_less [of "vm_max_ops env", where ?'a = nat] by simp
  ultimately show "placements env c = Suc (placements env (c + 1)) \<and> unat (c + 1) + 1 < 2 ^ 64"
    using u by (simp add: placements_def)
qed

lemma galpat_fill_limited:
  assumes s: "sound_mem env" and f: "flips_one bg ch" and m: "vm_max_ops env \<noteq> 0"
  shows "galpat_fill env bg ch n st = Some st' \<Longrightarrow> n \<le> vsz st \<Longrightarrow> unat (vcount st) + 1 < 2 ^ 64 \<Longrightarrow> placements env (vcount st) \<le> n \<Longrightarrow>
    ok_run st st' \<and> card (odd_bits bg (vmem st')) = placements env (vcount st) + card (odd_bits bg (vmem st))"
proof (induction n arbitrary: st)
  case 0
  then show ?case by (simp add: placements_def)
next
  case (Suc n)
  then obtain s1 where s1: "galpat_place env bg ch st = Some s1" by (auto split: option.splits)
  then obtain p b mm where p: "p < vsz st" "b < 4" "rd (vmem st) p = bg" "s1 = st\<lparr>vmem := (vmem st)[p := ch b bg], vmwc := mm\<rparr>"
    using galpat_place_effect [OF s1] Suc.prems(2) s unfolding placed_def by fastforce
  have o: "card (odd_bits bg (vmem s1)) = Suc (card (odd_bits bg (vmem st)))"
    using odd_bits_place [OF f p(1-3)] p(4) by simp
  have r: "ok_run st s1" and c: "vcount s1 = vcount st" using p(4) by (simp_all add: ok_run_def)
  let ?s = "s1\<lparr>vcount := vcount st + 1\<rparr>"
  note step = placements_step [OF m Suc.prems(3)]
  show ?case
  proof (cases "ops_done env (vcount st + 1)")
    case True
    then have "st' = ?s" using Suc.prems(1) s1 c by (simp add: exit_ops_def Let_def)
    then show ?thesis using step(1) [OF True] o r by (simp add: ok_run_def)
  next
    case False
    then have "galpat_fill env bg ch n ?s = Some st'" using Suc.prems(1) s1 c by (simp add: exit_ops_def Let_def)
    from Suc.IH [OF this] step(2) [OF False] Suc.prems(2,4) p(4)
    have "ok_run s1 st'" "card (odd_bits bg (vmem st')) = placements env (vcount st + 1) + card (odd_bits bg (vmem s1))"
      by (simp_all add: ok_run_def)
    then show ?thesis using step(2) [OF False] o ok_run_trans [OF r] by simp
  qed
qed

lemma galpat_fill_first:
  assumes s: "sound_mem env" and v: "vmem st = replicate (vsz st) bg" "0 < vsz st" and l: "ops_done env (vcount st + 1)" and n: "0 < n"
  shows "galpat_fill env bg ch n st \<noteq> None"
proof -
  obtain s1 where s1: "galpat_place env bg ch st = Some s1" using galpat_place_first [OF v] by blast
  have "vcount s1 = vcount st" using galpat_place_effect [OF s1] v(2) s unfolding placed_def by fastforce
  then show ?thesis using n s1 l by (cases n) (simp_all add: exit_ops_def Let_def)
qed

lemma galpat_stopped:
  assumes s: "sound_mem env" and k: "vm_keep env = (\<lambda>_. True)" and m: "vm_max_ops env \<noteq> 0" and c: "unat (vcount st) + 1 < 2 ^ 64"
    and d: "4096 dvd vsz st" "vsz st < 2 ^ 64" and p: "placements env (vcount st) < vsz st div 4096"
    and fo: "flips_one bg ch"
    and f: "\<And>m p. card {k. bit (f (rd64 m p)) k} = (\<Sum>i = 8 * p..<8 * p + 64. of_bool (mem_bit m i \<noteq> bit bg (i mod 8)))"
  shows "galpat env name bg ch f st = Some r \<Longrightarrow> fst r = of_nat (vsz st div 4096 - placements env (vcount st))"
    and "ops_done env (vcount st + 1) \<Longrightarrow> galpat env name bg ch f st \<noteq> None"
proof -
  let ?n = "vsz st div 4096" and ?p = "placements env (vcount st)"
  define s0 where "s0 = vreseed env (vmemset env bg (errs0 st))"
  have s0: "ok_run (errs0 st) s0" "vmem s0 = replicate (vsz st) bg" "vcount s0 = vcount st"
    using vmemset_ok(1) [OF s, of "errs0 st" bg] vmemset_mem [OF s, of bg "errs0 st"]
    by (simp_all add: s0_def vreseed_def ok_run_def vmemset_def)
  have sz0: "vsz s0 = vsz st" using s0(2) by simp
  have pos: "0 < ?n" "0 < vsz st" using p by (auto intro: Nat.gr0I)
  show "galpat env name bg ch f st \<noteq> None" if l: "ops_done env (vcount st + 1)"
  proof -
    have v: "vmem s0 = replicate (vsz s0) bg" "0 < vsz s0" "ops_done env (vcount s0 + 1)"
      using s0 sz0 pos(2) l by (simp_all only:)
    show ?thesis using galpat_fill_first [OF s v pos(1), of ch] unfolding galpat_def s0_def [symmetric] Let_def by (auto split: option.split)
  qed
  assume r: "galpat env name bg ch f st = Some r"
  then obtain s1 where s1: "galpat_fill env bg ch ?n s0 = Some s1" by (auto simp: galpat_def s0_def Let_def split: option.splits)
  have F: "ok_run s0 s1" "card (odd_bits bg (vmem s1)) = ?p"
    using galpat_fill_limited [OF s fo m s1] c p s0(2,3) sz0 by (simp_all add: odd_bits_replicate)
  have sz: "vsz s1 = vsz st" using ok_run_sz [OF F(1)] sz0 by simp
  have e0: "verrs s1 = 0" using s0(1) F(1) by (simp add: ok_run_def)
  define s2 where "s2 = snd (vm_loop (vbits8 f) (exit_keep env) (offsets 64 (vsz st)) s1)"
  have "64 dvd vsz st" by (rule dvd_trans [OF _ d(1)]) simp
  then have d1: "64 dvd vsz s1" using sz by simp
  have s2: "verrs s2 = of_nat ?p" using galpat_bits(1) [OF s k d1 f] F(2) e0 unfolding s2_def sz by simp
  have n: "?n < 2 ^ 64" using d(2) by simp
  then have u: "unat (of_nat ?n :: u64) = ?n" "unat (of_nat ?p :: u64) = ?p" using p by (simp_all add: unat_of_nat take_bit_nat_eq_self)
  then have lt: "(of_nat ?p :: u64) \<noteq> of_nat ?n" "\<not> (of_nat ?p :: u64) > of_nat ?n"
    using p unfolding word_unat_eq_iff word_less_nat_alt by simp_all
  have "r = vm_return env name (s2\<lparr>verrs := of_nat ?n - of_nat ?p\<rparr>)"
    using r unfolding galpat_def s0_def [symmetric] Let_def s1 option.case sound_frame [OF s] s2_def [symmetric] s2 UNSIGNED_ABS_def
    using lt by simp
  then show "fst r = of_nat (?n - ?p)" using p by (simp add: vm_return_def Let_def stress_vm_check_def of_nat_diff)
qed

text \<open>
  C26: a galloping pattern that the operation limit stops before it has placed one changed bit per page still expects all of
  them.  On sound memory of whole pages, with the flag up to the end, both patterns report just the missing ones as bit errors whenever they return;
  they do return when the limit is reached at the first placement, and the number reported is never 0.
\<close>

theorem galpat_limit_alarm:
  assumes s: "sound_mem env" and k: "vm_keep env = (\<lambda>_. True)" and d: "4096 dvd vsz st" "vsz st < 2 ^ 64"
    and m: "vm_max_ops env \<noteq> 0" and c: "unat (vcount st) + 1 < 2 ^ 64"
    and p: "p = max 1 (unat (vm_max_ops env) - unat (vcount st))" "p < vsz st div 4096"
  shows "(\<forall>r. stress_vm_galpat_zero env st = Some r \<or> stress_vm_galpat_one env st = Some r \<longrightarrow>
      fst r = of_nat (vsz st div 4096 - p) \<and> fst r \<noteq> 0)
    \<and> (p = 1 \<longrightarrow> stress_vm_galpat_zero env st \<noteq> None \<and> stress_vm_galpat_one env st \<noteq> None)"
proof -
  have p': "placements env (vcount st) = p" "placements env (vcount st) < vsz st div 4096" using p by (simp_all add: placements_def)
  note z = galpat_stopped [OF s k m c d p'(2) flips_one_or galpat_counts(1)]
    and o = galpat_stopped [OF s k m c d p'(2) flips_one_and galpat_counts(2)]
  have "vsz st div 4096 - p < 2 ^ 64" "vsz st div 4096 - p \<noteq> 0" using d(2) p(2) by simp_all
  then have nz: "(of_nat (vsz st div 4096 - p) :: u64) \<noteq> 0"
    unfolding word_unat_eq_iff by (simp only: unat_of_nat unsigned_0 take_bit_nat_eq_self len_num1 len_num0 len_bit0 len_bit1) simp
  have first: "ops_done env (vcount st + 1)" if "p = 1"
    using placements_step [OF m c] p'(1) that by (force simp: placements_def)
  show ?thesis
    unfolding stress_vm_galpat_zero_def stress_vm_galpat_one_def
    using z(1) o(1) z(2) [OF first] o(2) [OF first] nz unfolding p'(1) by metis
qed

lemma sample_count [simp]: "vcount (sample_st n) = 0"
  by (simp add: sample_st_def)

theorem galpat_limit_alarm_witness:
  "(\<exists>st'. stress_vm_galpat_zero (sample_env\<lparr>vm_max_ops := 1\<rparr>) (sample_st 8192) = Some (1, st'))
    \<and> (\<exists>st'. stress_vm_galpat_one (sample_env\<lparr>vm_max_ops := 1\<rparr>) (sample_st 8192) = Some (1, st'))"
proof -
  let ?env = "sample_env\<lparr>vm_max_ops := 1\<rparr>" and ?st = "sample_st 8192"
  have "sound_mem ?env" by (simp add: sound_mem_def sample_env_def)
  moreover have "vm_keep ?env = (\<lambda>_. True)" "4096 dvd vsz ?st" "vsz ?st < 2 ^ 64" "vm_max_ops ?env \<noteq> 0" "unat (vcount ?st) + 1 < 2 ^ 64"
    "1 = max 1 (unat (vm_max_ops ?env) - unat (vcount ?st))" "1 < vsz ?st div 4096"
    by (simp_all add: sample_env_def)
  ultimately have "(\<forall>r. stress_vm_galpat_zero ?env ?st = Some r \<or> stress_vm_galpat_one ?env ?st = Some r \<longrightarrow>
      fst r = of_nat (vsz ?st div 4096 - 1) \<and> fst r \<noteq> 0)
    \<and> ((1 :: nat) = 1 \<longrightarrow> stress_vm_galpat_zero ?env ?st \<noteq> None \<and> stress_vm_galpat_one ?env ?st \<noteq> None)"
    by (rule galpat_limit_alarm)
  then show ?thesis by auto
qed

lemma vupd_keeps:
  assumes s: "sound_mem env" and ex: "is_exit leave" and ps: "\<forall>p \<in> set ps. p < vsz st \<and> p \<notin> K"
  shows "keeps K st (snd (vm_loop (\<lambda>p. vupd env p f) leave ps st))"
proof -
  obtain k :: nat where "keeps K st (snd (vm_loop (\<lambda>p. vupd env p f) leave ps st))"
  proof (rule vm_loop_inv [of "\<lambda>_. keeps K st" st ps leave "\<lambda>p. vupd env p f"])
    show "keeps K st st" by (rule keeps_refl)
    fix k u assume k: "k < length ps" and I: "keeps K st u"
    obtain c t where l: "snd (leave (vupd env (ps ! k) f u)) = (vupd env (ps ! k) f u)\<lparr>vcount := c, vtick := t\<rparr>"
      by (rule is_exitE [OF ex, of "vupd env (ps ! k) f u"])
    have "ps ! k < vsz u" "ps ! k \<notin> K" using ps nth_mem [OF k] keeps_sz [OF I] by auto
    then have "keeps K u (snd (leave (vupd env (ps ! k) f u)))"
      using s unfolding l by (auto simp: keeps_def vupd_def vset_def ok_run_def)
    then show "keeps K st (snd (leave (vupd env (ps ! k) f u)))" by (rule keeps_trans [OF I])
  qed blast
  then show ?thesis .
qed

lemma prime_rounds_keeps:
  assumes s: "sound_mem env" and ps: "\<forall>p \<in> set ps. p < vsz st \<and> p \<notin> K"
  shows "keeps K st (snd (prime_rounds env f ps js st))"
  using ps
proof (induction js arbitrary: st)
  case Nil
  then show ?case by (simp add: keeps_refl)
next
  case (Cons j js)
  have A: "keeps K st (snd (vm_loop (\<lambda>p. vupd env p (f j)) (exit_ops_keep env) ps st))"
    by (rule vupd_keeps [OF s exits_are_exits(4) Cons.prems])
  show ?case unfolding prime_rounds.simps
    by (rule keeps_then [OF A], rule Cons.IH) (use Cons.prems keeps_sz [OF A] in simp)
qed

lemma prime_rounds_full:
  "vm_keep env = (\<lambda>_. True) \<Longrightarrow> vm_max_ops env = 0 \<Longrightarrow> \<not> fst (prime_rounds env f ps js st)"
  by (induction js arbitrary: st) (simp_all add: vm_then_def split_def ops_keep_pass_full)

lemma card_byte_bits: "card {k. bit (ucast (v :: u8) :: u64) k} \<le> 8" "card {k. bit (ucast (0xff :: u8) :: u64) k} = 8"
proof -
  have sub: "{k. bit (ucast (x :: u8) :: u64) k} \<subseteq> {..<8}" for x by (auto simp: bit_unsigned_iff dest: bit_imp_le_length)
  then show "card {k. bit (ucast (v :: u8) :: u64) k} \<le> 8" using card_mono [of "{..<8 :: nat}"] by fastforce
  have "{..<8} \<subseteq> {k. bit (ucast (0xff :: u8) :: u64) k}"
  proof
    fix k :: nat assume "k \<in> {..<8}"
    then have "bit (0xff :: u8) k" "k < 64" by (simp_all only: bit_ff lessThan_iff)
    then show "k \<in> {k. bit (ucast (0xff :: u8) :: u64) k}" by (simp only: bit_unsigned_iff mem_Collect_eq) simp
  qed
  with sub [of "0xff"] have "{k. bit (ucast (0xff :: u8) :: u64) k} = {..<8}" by (rule equalityI)
  then show "card {k. bit (ucast (0xff :: u8) :: u64) k} = 8" by (simp only: card_lessThan)
qed

lemma vcount_set_alarm:
  assumes "rd (vmem st) p = 0xff" "p < vsz st" "verrs st = 0" "8 * vsz st < 2 ^ 64"
  shows "verrs (snd (vm_loop vcount_set exit_none [0..<vsz st] st)) \<noteq> 0"
proof -
  let ?e = "\<lambda>j. of_nat (card {k. bit (ucast (rd (vmem st) j) :: u64) k}) :: u64"
  let ?L = "vm_loop vcount_set exit_none [0..<vsz st] st"
  obtain k where k: "\<not> fst ?L \<Longrightarrow> k = length [0..<vsz st]" "verrs (snd ?L) = verrs st + (\<Sum>j<k. ?e j)"
    by (rule check_pass [where P = "\<lambda>_ _. True" and e = ?e and body = vcount_set and leave = exit_none and ps = "[0..<vsz st]" and st = st])
      (auto simp: vcount_set_def verr_def count_bits_card)
  define N where "N = (\<Sum>j < vsz st. card {k. bit (ucast (rd (vmem st) j) :: u64) k})"
  have v: "verrs (snd ?L) = of_nat N" using k vm_loop_none [of vcount_set "[0..<vsz st]" st] assms(3) by (simp add: N_def)
  have "card {k. bit (ucast (rd (vmem st) p) :: u64) k} \<le> N" unfolding N_def
    by (rule member_le_sum) (use assms(2) in auto)
  then have "0 < N" using card_byte_bits(2) assms(1) by simp
  moreover have "N \<le> (\<Sum>j < vsz st. 8)" unfolding N_def by (rule sum_mono) (rule card_byte_bits(1))
  then have "N < 2 ^ 64" using assms(4) by simp
  ultimately show ?thesis unfolding v by (simp add: word_unat_eq_iff unat_of_nat take_bit_nat_eq_self)
qed

text \<open>
  C24: for a buffer of 491 pages the prime walk of the prime-0 method comes back to its start after
  4096 steps, so run to the end it reports bit errors on sound memory.
\<close>

theorem prime_zero_alarm:
  assumes s: "sound_mem env" and k: "vm_keep env = (\<lambda>_. True)" and m: "vm_max_ops env = 0" and sz: "vsz st = 491 * 4096"
  shows "fst (stress_vm_prime_zero env st) \<noteq> 0"
proof -
  have sz': "vsz st = 2011136" using sz by simp
  let ?f = "\<lambda>j (v::u8). v AND NOT (push_bit j 1)"
  define w where "w = prime_walk (vsz st) (vsz st) PRIME_64"
  have lt: "p < vsz st" if "p \<in> set w" for p
    by (rule prime_walk_less [OF that [unfolded w_def]]) (use sz' in linarith)
  have "set w \<noteq> {..<vsz st}" unfolding w_def sz' by (rule prime_walk_misses)
  then obtain p where p: "p < vsz st" "p \<notin> set w" using lt by blast
  define s0 where "s0 = vmemset env 0xff (errs0 st)"
  have s0: "vmem s0 = replicate (vsz st) 0xff" "verrs s0 = 0" unfolding s0_def by (simp add: vmemset_mem [OF s], simp add: vmemset_def)
  define R where "R = prime_rounds env ?f w [0..<8] s0"
  have K: "keeps {p} s0 (snd R)" unfolding R_def by (rule prime_rounds_keeps [OF s]) (use lt p(2) s0(1) in auto)
  have R: "vsz (snd R) = vsz st" "rd (vmem (snd R)) p = 0xff" "verrs (snd R) = 0"
    using K s0 p(1) by (auto simp: keeps_def ok_run_def rd_def split: if_splits)
  have "verrs (snd (vm_loop vcount_set exit_none [0..<vsz st] (snd R))) \<noteq> 0"
    using vcount_set_alarm [OF R(2)] R p(1) sz' by (simp only: R(1)) simp
  moreover have "fst (stress_vm_prime_zero env st) = verrs (snd (vm_loop vcount_set exit_none [0..<vsz st] (snd R)))"
  proof -
    have "\<not> fst R" unfolding R_def by (rule prime_rounds_full [OF k m])
    moreover have "\<not> vsz st > 2 ^ 63" using sz' by simp
    ultimately show ?thesis
      unfolding stress_vm_prime_zero_def Let_def w_def [symmetric] s0_def [symmetric] R_def [symmetric] sound_frame [OF s]
      by (simp add: vm_then_def split_def vm_return_def stress_vm_check_def Let_def)
  qed
  ultimately show ?thesis by simp
qed

theorem prime_zero_alarm_witness: "fst (stress_vm_prime_zero sample_env (sample_st (491 * 4096))) \<noteq> 0"
  by (rule prime_zero_alarm [OF sample_sound _ _ sample_size]) (simp_all add: sample_env_def)

text \<open>
  C23: for every size that is a multiple of 256 bytes, coprime to the low part 1511789 of the prime and
  below 2^56 / 1511789 (about 44 gigabytes), the prime walk visits every byte of the buffer exactly once.
\<close>

theorem prime_walk_permutes:
  assumes "256 dvd sz" "coprime sz 1511789" "sz * 1511789 < 2 ^ 56"
  shows "distinct (prime_walk sz sz PRIME_64) \<and> set (prime_walk sz sz PRIME_64) = {..<sz}"
proof -
  have "prime_walkable sz" using assms by (simp add: prime_walkable_def prime_low_def)
  then show ?thesis using prime_walk_distinct prime_walk_covers by blast
qed

theorem prime_walk_permutes_witness:
  "distinct (prime_walk (2 ^ 28) (2 ^ 28) PRIME_64) \<and> set (prime_walk (2 ^ 28) (2 ^ 28) PRIME_64) = {..<2 ^ 28}"
proof (rule prime_walk_permutes)
  have "(2 :: nat) ^ 8 dvd 2 ^ 28" by (rule le_imp_power_dvd) simp
  then show "(256 :: nat) dvd 2 ^ 28" by simp
  show "coprime ((2 :: nat) ^ 28) 1511789" by (simp only: coprime_power_left_iff) simp
  show "(2 :: nat) ^ 28 * 1511789 < 2 ^ 56" by simp
qed

text \<open>
  The bit counting loop, which clears the lowest set bit in each round, returns the number of set bits.
\<close>

theorem count_bits_popcount: "stress_vm_count_bits v = of_nat (card {k. bit v k})"
  by (rule count_bits_card)

text \<open>
  On sound memory touching the pages, with or without the mincore call and whichever pages it
  reports as swapped out, leaves the whole state as it was, although the bytes are incremented and
  decremented in place.
\<close>

theorem touch_pages_identity: "sound_mem env \<Longrightarrow> mincore_touch_pages env st = st"
  by (rule mincore_touch_pages_id)

theorem touch_pages_identity_witness:
  "mincore_touch_pages (sample_env\<lparr>vm_opt_flags := OPT_FLAGS_MMAP_MINCORE\<rparr>) (sample_st 8192) = sample_st 8192"
  by (rule touch_pages_identity) (simp add: sound_mem_def sample_env_def)

end
