(* ===== verification/Cpu_Base.thy ===== *)
theory Cpu_Base
  imports Mwc Opt_Flags
begin

text \<open>
  What the processor stressors of stress-cpu.c share: the state they work on (the generator and the
  failures reported), the check that is made only under the verify option, and the buffer of random
  bytes.  A stressor takes the option word and the state; the stressor name it is passed only
  appears in the text of a report, of which the model keeps the part that tells the checks apart.
\<close>

record cpu_st =
  cmwc :: mwc_t
  cfails :: "string list"

definition cpu_verify :: "u64 \<Rightarrow> bool \<Rightarrow> string \<Rightarrow> cpu_st \<Rightarrow> cpu_st" where
  "cpu_verify flags bad msg st =
    (if flags AND OPT_FLAGS_VERIFY \<noteq> 0 \<and> bad then st\<lparr>cfails := cfails st @ [msg]\<rparr> else st)"

definition MWC_SEED :: "cpu_st \<Rightarrow> cpu_st" where
  "MWC_SEED st = st\<lparr>cmwc := mwc_seed MWC_SEED_W MWC_SEED_Z (cmwc st)\<rparr>"

definition cdraw :: "(mwc_t \<Rightarrow> 'v \<times> mwc_t) \<Rightarrow> cpu_st \<Rightarrow> 'v \<times> cpu_st" where
  "cdraw f st = (case f (cmwc st) of (v, m) \<Rightarrow> (v, st\<lparr>cmwc := m\<rparr>))"

text \<open>Four bytes of a word, lowest first.\<close>

definition word_bytes :: "u32 \<Rightarrow> u8 list" where
  "word_bytes v = [ucast v, ucast (drop_bit 8 v), ucast (drop_bit 16 v), ucast (drop_bit 24 v)]"

definition random_buffer :: "nat \<Rightarrow> cpu_st \<Rightarrow> u8 list \<times> cpu_st" where
  "random_buffer len st =
    (case cdraw (draws mwc32 (len div 4)) st of (vs, st') \<Rightarrow> (concat (map word_bytes vs), st'))"

lemma cpu_verify_ok [simp]: "cpu_verify flags False msg st = st"
  by (simp add: cpu_verify_def)

lemma length_random_buffer [simp]: "length (fst (random_buffer len st)) = 4 * (len div 4)"
proof -
  have "length (concat (map word_bytes vs)) = 4 * length vs" for vs
    by (induction vs) (simp_all add: word_bytes_def)
  then show ?thesis by (simp add: random_buffer_def cdraw_def split_def)
qed

text \<open>After seeding, the bytes do not depend on the state before.\<close>

lemma random_buffer_seeded:
  "fst (random_buffer len (MWC_SEED st)) = concat (map word_bytes (fst (draws mwc32 (len div 4) (mwc_seed MWC_SEED_W MWC_SEED_Z mwc_init))))"
proof -
  have "fst (draws mwc32 n (mwc_seed w z s)) = fst (draws mwc32 n (mwc_seed w z mwc_init))" for n w z s
    using src32.draws_replay [of n "(w, z)" s mwc_init] by simp
  from this [of "len div 4" MWC_SEED_W MWC_SEED_Z "cmwc st"]
  show ?thesis by (simp add: random_buffer_def cdraw_def split_def MWC_SEED_def)
qed

lemma random_buffer_fails [simp]: "cfails (snd (random_buffer len st)) = cfails st"
  by (simp add: random_buffer_def cdraw_def split_def)

lemma MWC_SEED_fails [simp]: "cfails (MWC_SEED st) = cfails st"
  by (simp add: MWC_SEED_def)

lemma cdraw_fails [simp]: "cdraw f st = (v, st') \<Longrightarrow> cfails st' = cfails st"
  by (auto simp: cdraw_def split: prod.splits)

end
