(* ===== verification/Cpu_Bits.thy ===== *)
theory Cpu_Bits
  imports Cpu_Base
begin

text \<open>
  The bit kernels of stress-cpu.c: bit reversal, bit counting and rounding, Gray codes, Hamming codes
  and the six ways to compute a parity.  The lemmas relate each kernel to what it computes, and show
  that the stressors built on them never report a failure.
\<close>

section \<open>Bit manipulation\<close>

text \<open>\<open>for (v >>= 1; v; v >>= 1, s--)\<close>\<close>

function reverse_loop :: "u32 \<Rightarrow> u32 \<Rightarrow> nat \<Rightarrow> u32" where
  "reverse_loop v r s =
    (if v = 0 then push_bit s r
     else reverse_loop (drop_bit 1 v) (push_bit 1 r OR (v AND 1)) (s - 1))"
  by pat_completeness auto
termination
  by (relation "measure (\<lambda>(v, r, s). unat v)") (auto simp: drop_bit_unat unat_gt_0)

declare reverse_loop.simps [simp del]

definition bit_reverse :: "u32 \<Rightarrow> u32" where
  "bit_reverse i = reverse_loop (drop_bit 1 i) i 31"

definition parity_fold :: "u32 \<Rightarrow> u32" where
  "parity_fold i =
    (let v = i XOR drop_bit 16 i; v = v XOR drop_bit 8 v; v = v XOR drop_bit 4 v in v AND 0xf)"

function count_loop :: "u32 \<Rightarrow> u32 \<Rightarrow> u32" where
  "count_loop j v = (if v = 0 then j else count_loop (j + 1) (v AND (v - 1)))"
  by pat_completeness auto
termination
  by (relation "measure (\<lambda>(j, v). unat v)") (auto intro: and_minus_one_less)

declare count_loop.simps [simp del]

definition round_up :: "u32 \<Rightarrow> u32" where
  "round_up i =
    (let v = i - 1; v = v OR drop_bit 1 v; v = v OR drop_bit 2 v; v = v OR drop_bit 4 v;
         v = v OR drop_bit 8 v
     in v OR drop_bit 16 v)"

definition stress_cpu_bitops :: "u64 \<Rightarrow> cpu_st \<Rightarrow> cpu_st" where
  "stress_cpu_bitops flags st =
    (let i_sum = fold (\<lambda>i s. s + bit_reverse (of_nat i) + parity_fold (of_nat i) +
                   count_loop 0 (of_nat i) + round_up (of_nat i)) [0..<16384] 0
     in cpu_verify flags (i_sum \<noteq> 0x8aadcaab) ''bitops'' st)"

section \<open>Gray codes\<close>

definition to_gray :: "u32 \<Rightarrow> u32" where
  "to_gray i = drop_bit 1 i XOR i"

definition from_gray :: "u32 \<Rightarrow> u32" where
  "from_gray g =
    (let g = g XOR drop_bit 1 g; g = g XOR drop_bit 2 g; g = g XOR drop_bit 4 g; g = g XOR drop_bit 8 g
     in g XOR drop_bit 16 g)"

definition stress_cpu_gray :: "u64 \<Rightarrow> cpu_st \<Rightarrow> cpu_st" where
  "stress_cpu_gray flags st =
    (let sum = fold (\<lambda>i (s :: u64). s + ucast (to_gray (of_nat i)) + ucast (from_gray (to_gray (of_nat i))))
                 [0..<0x10000] 0
     in cpu_verify flags (sum \<noteq> 0xffff0000) ''gray code'' st)"

section \<open>Hamming codes\<close>

definition hamming_G :: "u8 list" where
  "hamming_G = [0xf1, 0xd2, 0xb4, 0x78]"

definition HAMMING :: "u8 list \<Rightarrow> nat \<Rightarrow> u8 \<Rightarrow> u8 \<Rightarrow> u8" where
  "HAMMING G i nybble code =
    (let res = ((drop_bit i (G ! 3) AND drop_bit 3 nybble) AND 1) XOR
               ((drop_bit i (G ! 2) AND drop_bit 2 nybble) AND 1) XOR
               ((drop_bit i (G ! 1) AND drop_bit 1 nybble) AND 1) XOR
               ((drop_bit i (G ! 0) AND drop_bit 0 nybble) AND 1)
     in code XOR push_bit i (res AND 1))"

definition hamming84 :: "u8 \<Rightarrow> u8" where
  "hamming84 nybble = fold (\<lambda>i. HAMMING hamming_G i nybble) [7, 6, 5, 4, 3, 2, 1, 0] 0"

definition hamming_encode :: "u32 \<Rightarrow> u32" where
  "hamming_encode i =
    push_bit 24 (ucast (hamming84 (ucast (drop_bit 12 i AND 0xf)))) OR
    push_bit 16 (ucast (hamming84 (ucast (drop_bit 8 i AND 0xf)))) OR
    push_bit 8 (ucast (hamming84 (ucast (drop_bit 4 i AND 0xf)))) OR
    push_bit 0 (ucast (hamming84 (ucast (drop_bit 0 i AND 0xf))))"

definition stress_cpu_hamming :: "u64 \<Rightarrow> cpu_st \<Rightarrow> cpu_st" where
  "stress_cpu_hamming flags st =
    (let sum = fold (\<lambda>i s. s + hamming_encode (of_nat i)) [0..<65536] 0
     in cpu_verify flags (sum \<noteq> 0xffff8000) ''hamming'' st)"

section \<open>Parity\<close>

function parity_naive :: "u32 \<Rightarrow> bool \<Rightarrow> bool" where
  "parity_naive v parity =
    (if v = 0 then parity
     else parity_naive (drop_bit 1 v) (if v AND 1 \<noteq> 0 then \<not> parity else parity))"
  by pat_completeness auto
termination
  by (relation "measure (\<lambda>(v, p). unat v)") (auto simp: drop_bit_unat unat_gt_0)

declare parity_naive.simps [simp del]

function parity_kernighan :: "u32 \<Rightarrow> bool \<Rightarrow> bool" where
  "parity_kernighan v p = (if v = 0 then p else parity_kernighan (v AND (v - 1)) (\<not> p))"
  by pat_completeness auto
termination
  by (relation "measure (\<lambda>(v, p). unat v)") (auto intro: and_minus_one_less)

declare parity_kernighan.simps [simp del]

definition parity_multiply :: "u32 \<Rightarrow> bool" where
  "parity_multiply val =
    (let v = val XOR drop_bit 1 val; v = v XOR drop_bit 2 v; v = (v AND 0x11111111) * 0x11111111
     in drop_bit 28 v AND 1 \<noteq> 0)"

definition parity_parallel :: "u32 \<Rightarrow> bool" where
  "parity_parallel val =
    (let v = val XOR drop_bit 16 val; v = v XOR drop_bit 8 v; v = v XOR drop_bit 4 v; v = v AND 0xf
     in drop_bit (unat v) (0x6996 :: u32) AND 1 \<noteq> 0)"

definition P2 :: "bool \<Rightarrow> bool list" where "P2 n = [n, \<not> n, \<not> n, n]"
definition P4 :: "bool \<Rightarrow> bool list" where "P4 n = P2 n @ P2 (\<not> n) @ P2 (\<not> n) @ P2 n"
definition P6 :: "bool \<Rightarrow> bool list" where "P6 n = P4 n @ P4 (\<not> n) @ P4 (\<not> n) @ P4 n"

definition stress_cpu_parity_table :: "bool list" where
  "stress_cpu_parity_table = P6 False @ P6 True @ P6 True @ P6 False"

definition parity_lookup1 :: "u32 \<Rightarrow> bool" where
  "parity_lookup1 val =
    (let v = val XOR drop_bit 16 val; v = v XOR drop_bit 8 v
     in stress_cpu_parity_table ! unat (v AND 0xff))"

definition parity_lookup2 :: "u32 \<Rightarrow> bool" where
  "parity_lookup2 val =
    (let b = word_bytes val in stress_cpu_parity_table ! unat (b ! 0 XOR b ! 1 XOR b ! 2 XOR b ! 3))"

definition parity_round :: "u64 \<Rightarrow> nat \<Rightarrow> cpu_st \<Rightarrow> cpu_st" where
  "parity_round flags i st =
    (let val = 0x83fb5acf + of_nat i; parity = parity_naive val False
     in cpu_verify flags (parity_lookup2 val \<noteq> parity) ''lookup method, variation 1''
       (cpu_verify flags (parity_lookup1 val \<noteq> parity) ''lookup method, variation 1''
       (cpu_verify flags (parity_parallel val \<noteq> parity) ''parallel method''
       (cpu_verify flags (parity_multiply val \<noteq> parity) ''multiply Shapira method''
       (cpu_verify flags (parity_kernighan val False \<noteq> parity) ''optimised naive method'' st)))))"

definition stress_cpu_parity :: "u64 \<Rightarrow> cpu_st \<Rightarrow> cpu_st" where
  "stress_cpu_parity flags st = fold (parity_round flags) [0..<1000] st"

section \<open>Parity lemmas\<close>

text \<open>The parity of the lowest \<open>n\<close> bits; xor with a shift by \<open>n\<close> halves the number of bits.\<close>

definition lowpar :: "nat \<Rightarrow> 'a::len word \<Rightarrow> bool" where
  "lowpar n v = odd (\<Sum>k<n. of_bool (bit v k) :: nat)"

lemma odd_sum_xor:
  "odd (\<Sum>k<(m :: nat). of_bool (f k \<noteq> g k) :: nat) = odd ((\<Sum>k<m. of_bool (f k)) + (\<Sum>k<m. of_bool (g k)) :: nat)"
proof (induction m)
  case (Suc m)
  then show ?case unfolding sum.lessThan_Suc by (cases "f m"; cases "g m") simp_all
qed simp

lemma sum_double: "(\<Sum>k<2 * (n :: nat). f k :: nat) = (\<Sum>k<n. f k) + (\<Sum>k<n. f (n + k))"
  using sum.nat_group [of f n 2] sum.atLeastLessThan_concat [of 0 n "2 * n" f]
    sum.shift_bounds_nat_ivl [of f 0 n n]
  by (simp add: atLeast0LessThan add.commute mult_2)

lemma lowpar_fold: "lowpar n (v XOR drop_bit n v) = lowpar (2 * n) v"
  unfolding lowpar_def sum_double bit_xor_iff bit_drop_bit_eq comp_def by (rule odd_sum_xor)

lemma lowpar_card: "lowpar LENGTH('a) v = odd (card {k. bit (v :: 'a::len word) k})"
  by (simp only: lowpar_def card_bits_sum)

lemma lowpar_mask: "lowpar n (v AND mask n) = lowpar n v"
  unfolding lowpar_def by (rule arg_cong [where f = odd], rule sum.cong) (auto simp: bit_and_iff bit_mask_iff dest: bit_imp_le_length)

lemma parity_naive_eq: "parity_naive v p = (p \<noteq> lowpar 32 v)"
proof (induction v p rule: parity_naive.induct)
  case (1 v p)
  show ?case
  proof (cases "v = 0")
    case True
    then show ?thesis by (subst parity_naive.simps) (simp add: lowpar_def)
  next
    case False
    have "(\<Sum>k<32. of_bool (bit v k) :: nat) = of_bool (bit v 0) + (\<Sum>k<31. of_bool (bit v (Suc k)))"
      using sum.lessThan_Suc_shift [of "\<lambda>k. of_bool (bit v k) :: nat" 31] by simp
    also have "(\<Sum>k<31. of_bool (bit v (Suc k)) :: nat) = (\<Sum>k<32. of_bool (bit (drop_bit 1 v) k))"
    proof -
      have "\<not> bit v 32" by (auto dest: bit_imp_le_length)
      then show ?thesis using sum.lessThan_Suc [of "\<lambda>k. of_bool (bit v (Suc k)) :: nat" 31] by (simp add: bit_drop_bit_eq)
    qed
    finally have "lowpar 32 v = (bit v 0 \<noteq> lowpar 32 (drop_bit 1 v))" by (simp add: lowpar_def del: sum_of_bool_eq)
    moreover have "(v AND 1 \<noteq> 0) = bit v 0" by (simp add: bit_0 and_one_eq odd_iff_mod_2_eq_one)
    ultimately show ?thesis using 1 [OF False] False by (subst parity_naive.simps) auto
  qed
qed

lemma parity_kernighan_eq: "parity_kernighan v p = (p \<noteq> lowpar 32 v)"
proof (induction v p rule: parity_kernighan.induct)
  case (1 v p)
  have c: "lowpar 32 w = odd (card {k. bit w k})" for w :: u32 using lowpar_card [of w] by simp
  show ?case
  proof (cases "v = 0")
    case True
    then show ?thesis by (subst parity_kernighan.simps) (simp add: lowpar_def)
  next
    case False
    then show ?thesis using 1 [OF False] card_clear_lowest [OF False] by (subst parity_kernighan.simps) (auto simp: c)
  qed
qed

text \<open>The lookup table, built from blocks of four.\<close>

definition npar :: "nat \<Rightarrow> nat \<Rightarrow> bool" where
  "npar n k = odd (\<Sum>j<n. of_bool (bit k j) :: nat)"

lemma npar_split:
  assumes "r < 2 ^ n" "q < 4"
  shows "npar (n + 2) (q * 2 ^ n + r) = (npar n r \<noteq> (q = 1 \<or> q = 2))"
proof -
  have lo: "bit (q * 2 ^ n + r) j = bit r j" if "j < n" for j
  proof -
    have "take_bit n (q * 2 ^ n + r) = r" using assms(1) by (simp add: take_bit_eq_mod)
    then show ?thesis using that by (metis bit_take_bit_iff)
  qed
  have hi: "bit (q * 2 ^ n + r) (n + j) = bit q j" for j
  proof -
    have "drop_bit n (q * 2 ^ n + r) = q" using assms(1) by (simp add: drop_bit_eq_div)
    then show ?thesis by (metis bit_drop_bit_eq comp_def add.commute)
  qed
  have "(\<Sum>j<n + 2. of_bool (bit (q * 2 ^ n + r) j) :: nat) =
      (\<Sum>j<n. of_bool (bit r j)) + of_bool (bit q 0) + of_bool (bit q 1)"
    using lo hi [of 0] hi [of 1] by (simp add: numeral_2_eq_2 del: sum_of_bool_eq cong: sum.cong_simp)
  moreover have "q = 0 \<or> q = 1 \<or> q = 2 \<or> q = 3" using assms(2) by auto
  ultimately show ?thesis by (auto simp: npar_def bit_0 bit_Suc simp del: sum_of_bool_eq)
qed

lemma block_parity:
  assumes T: "\<And>b k. k < 2 ^ n \<Longrightarrow> T b ! k = (b \<noteq> npar n k)" "\<And>b. length (T b) = 2 ^ n" and k: "k < 2 ^ (n + 2)"
  shows "(T b @ T (\<not> b) @ T (\<not> b) @ T b) ! k = (b \<noteq> npar (n + 2) k)"
proof -
  define q r where "q = k div 2 ^ n" and "r = k mod 2 ^ n"
  have kqr: "k = q * 2 ^ n + r" "r < 2 ^ n" unfolding q_def r_def by (rule div_mult_mod_eq [symmetric]) simp
  have "q < 4" using k by (simp add: q_def less_mult_imp_div_less mult.commute)
  then consider "q = 0" | "q = 1" | "q = 2" | "q = 3" by linarith
  then show ?thesis
    using kqr(2) T npar_split [OF kqr(2) \<open>q < 4\<close>] unfolding kqr(1) by cases (auto simp: nth_append)
qed

lemma P2_parity: "k < 2 ^ 2 \<Longrightarrow> P2 b ! k = (b \<noteq> npar 2 k)"
proof -
  assume "k < 2 ^ 2"
  then consider "k = 0" | "k = 1" | "k = 2" | "k = 3" by fastforce
  moreover have "(\<Sum>j<2. of_bool (bit k j) :: nat) = of_bool (bit k 0) + of_bool (bit k 1)"
    by (simp add: lessThan_nat_numeral lessThan_Suc)
  ultimately show ?thesis unfolding npar_def by cases (simp_all add: P2_def bit_0 bit_Suc)
qed

lemma P4_parity: "k < 2 ^ 4 \<Longrightarrow> P4 b ! k = (b \<noteq> npar 4 k)"
  using block_parity [of 2 P2 k b, OF P2_parity] by (simp add: P4_def P2_def)

lemma P6_parity: "k < 2 ^ 6 \<Longrightarrow> P6 b ! k = (b \<noteq> npar 6 k)"
  using block_parity [of 4 P4 k b, OF P4_parity] by (simp add: P6_def P4_def P2_def)

lemma table_parity: "k < 256 \<Longrightarrow> stress_cpu_parity_table ! k = npar 8 k"
  using block_parity [of 6 P6 k False, OF P6_parity] by (simp add: stress_cpu_parity_table_def P6_def P4_def P2_def)

lemma lowpar_npar: "lowpar n v = npar n (unat v)"
  by (simp only: lowpar_def npar_def bit_unat)


text \<open>Xor with a right shift.\<close>

definition xshr :: "nat \<Rightarrow> 'a::len word \<Rightarrow> 'a word" where
  "xshr n v = v XOR drop_bit n v"

lemma lowpar_xshr: "lowpar n (xshr n v) = lowpar (2 * n) v"
  unfolding xshr_def by (rule lowpar_fold)

lemma parity_halves: "lowpar 8 (xshr 8 (xshr 16 v)) = lowpar 32 v" "lowpar 4 (xshr 4 (xshr 8 (xshr 16 v))) = lowpar 32 v"
  by (simp_all add: lowpar_xshr)

lemma nibble_parity:
  assumes "k < 16"
  shows "(drop_bit k (0x6996 :: u32) AND 1 \<noteq> 0) = npar 4 k"
proof -
  have sum4: "(\<Sum>j<(4::nat). f j :: nat) = f 0 + f 1 + f 2 + f 3" for f by (simp add: lessThan_nat_numeral lessThan_Suc)
  have "k \<in> {0, 1, 2, 3, 4, 5, 6, 7, 8, 9, 10, 11, 12, 13, 14, 15}" using assms unfolding insert_iff empty_iff by presburger
  then show ?thesis unfolding npar_def sum4 by (elim insertE emptyE; simp add: bit_0 bit_Suc)
qed

lemma parity_parallel_eq: "parity_parallel v = lowpar 32 v"
proof -
  define w where "w = xshr 4 (xshr 8 (xshr 16 v))"
  have m: "(0xf :: u32) = mask 4" by (simp add: mask_eq_exp_minus_1)
  have "unat (w AND 0xf) < 16" unfolding m and_mask_unat by simp
  from nibble_parity [OF this] have "parity_parallel v = npar 4 (unat (w AND 0xf))"
    by (simp only: parity_parallel_def w_def Let_def xshr_def)
  also have "\<dots> = lowpar 4 w" unfolding lowpar_npar [symmetric] m by (rule lowpar_mask)
  finally show ?thesis by (simp only: w_def parity_halves)
qed

lemma parity_lookup1_eq: "parity_lookup1 v = lowpar 32 v"
proof -
  define w where "w = xshr 8 (xshr 16 v)"
  have "unat (w AND 0xff) < 256" unfolding mask8 and_mask_unat by simp
  from table_parity [OF this] have "parity_lookup1 v = npar 8 (unat (w AND 0xff))"
    by (simp only: parity_lookup1_def w_def Let_def xshr_def)
  also have "\<dots> = lowpar 8 w" unfolding lowpar_npar [symmetric] mask8 by (rule lowpar_mask)
  finally show ?thesis by (simp only: w_def parity_halves)
qed

lemma parity_lookup2_eq: "parity_lookup2 v = lowpar 32 v"
proof -
  define x :: u8 where "x = word_bytes v ! 0 XOR word_bytes v ! 1 XOR word_bytes v ! 2 XOR word_bytes v ! 3"
  have "bit x k = bit (xshr 8 (xshr 16 v)) k" if "k < 8" for k
    using that by (auto simp: x_def xshr_def word_bytes_def bit_xor_iff bit_drop_bit_eq bit_unsigned_iff add.commute numeral_2_eq_2 numeral_3_eq_3)
  then have "lowpar 8 x = lowpar 8 (xshr 8 (xshr 16 v))" unfolding lowpar_def by (intro arg_cong [where f = odd] sum.cong) simp_all
  moreover have "unat x < 256" using unsigned_less [of x] by simp
  from table_parity [OF this] have "parity_lookup2 v = lowpar 8 x"
    by (simp only: parity_lookup2_def Let_def x_def lowpar_npar)
  ultimately show ?thesis by (simp only: parity_halves)
qed

lemma odd_sum_odd: "odd (\<Sum>j<(n :: nat). f j :: nat) = odd (\<Sum>j<n. of_bool (odd (f j)) :: nat)"
proof (induction n)
  case (Suc n)
  then show ?case unfolding sum.lessThan_Suc by (cases "odd (f n)") simp_all
qed simp

lemma sum_8: "(\<Sum>j<(8 :: nat). f j :: nat) = f 0 + f 1 + f 2 + f 3 + f 4 + f 5 + f 6 + f 7"
  by (simp add: lessThan_nat_numeral lessThan_Suc)

lemma and_exp: "w AND 2 ^ n = (if bit w n then 2 ^ n else 0)" for w :: "'a::len word"
  by (rule bit_word_eqI) (auto simp: bit_and_iff bit_exp_iff)

lemma nibble_bits:
  fixes w :: u32
  shows "w AND 0x11111111 =
    (if bit w 0 then 0x1 else 0) OR (if bit w 4 then 0x10 else 0) OR (if bit w 8 then 0x100 else 0) OR (if bit w 12 then 0x1000 else 0) OR
    (if bit w 16 then 0x10000 else 0) OR (if bit w 20 then 0x100000 else 0) OR (if bit w 24 then 0x1000000 else 0) OR
    (if bit w 28 then 0x10000000 else 0)"
proof -
  have e: "(0x11111111 :: u32) = 2 ^ 0 OR 2 ^ 4 OR 2 ^ 8 OR 2 ^ 12 OR 2 ^ 16 OR 2 ^ 20 OR 2 ^ 24 OR 2 ^ 28" by simp
  have "w AND 0x11111111 = (w AND 2 ^ 0) OR (w AND 2 ^ 4) OR (w AND 2 ^ 8) OR (w AND 2 ^ 12) OR (w AND 2 ^ 16) OR
      (w AND 2 ^ 20) OR (w AND 2 ^ 24) OR (w AND 2 ^ 28)"
    unfolding e by (simp only: bit.conj_disj_distrib)
  then show ?thesis unfolding and_exp by simp
qed

lemma multiply_nibbles:
  "(let x = ((if b0 then 0x1 else 0) OR (if b1 then 0x10 else 0) OR (if b2 then 0x100 else 0) OR (if b3 then 0x1000 else 0) OR
    (if b4 then 0x10000 else 0) OR (if b5 then 0x100000 else 0) OR (if b6 then 0x1000000 else 0) OR
    (if b7 then 0x10000000 else 0) :: u32) in drop_bit 28 (x * 0x11111111) AND 1 \<noteq> 0) =
   odd (of_bool b0 + of_bool b1 + of_bool b2 + of_bool b3 + of_bool b4 + of_bool b5 + of_bool b6 + of_bool b7 :: nat)"
  by (cases b0; cases b1; cases b2; cases b3; cases b4; cases b5; cases b6; cases b7) (simp_all add: Let_def)

lemma parity_multiply_eq: "parity_multiply v = lowpar 32 v"
proof -
  define w where "w = xshr 2 (xshr 1 v)"
  have b: "bit w k = odd (\<Sum>i<4. of_bool (bit v (k + i)) :: nat)" for k
  proof -
    have "(\<Sum>i<4. of_bool (bit v (k + i)) :: nat) = of_bool (bit v k) + of_bool (bit v (k + 1)) + of_bool (bit v (k + 2)) + of_bool (bit v (k + 3))"
      by (simp add: lessThan_nat_numeral lessThan_Suc)
    moreover have "bit w k = (bit v k \<noteq> (bit v (k + 1) \<noteq> (bit v (k + 2) \<noteq> bit v (k + 3))))"
      by (auto simp: w_def xshr_def bit_xor_iff bit_drop_bit_eq numeral_3_eq_3 numeral_2_eq_2)
    ultimately show ?thesis by (cases "bit v k"; cases "bit v (k + 1)"; cases "bit v (k + 2)"; cases "bit v (k + 3)") simp_all
  qed
  have "lowpar 32 v = odd (\<Sum>j<8. \<Sum>i<4. of_bool (bit v (4 * j + i)) :: nat)"
  proof -
    have "(\<Sum>j<8. \<Sum>i<4. of_bool (bit v (4 * j + i)) :: nat) = (\<Sum>j<8. \<Sum>i = j * 4..<j * 4 + 4. of_bool (bit v i))"
      by (rule sum.cong [OF refl]) (simp add: sum.shift_bounds_nat_ivl [of _ 0 _ 4, simplified] atLeast0LessThan [symmetric] ac_simps)
    also have "\<dots> = (\<Sum>i<8 * 4. of_bool (bit v i))" by (rule sum.nat_group)
    finally show ?thesis unfolding lowpar_def by (simp del: sum_of_bool_eq)
  qed
  also have "\<dots> = odd (\<Sum>j<8. of_bool (bit w (4 * j)) :: nat)" unfolding b by (rule odd_sum_odd)
  also have "\<dots> = parity_multiply v"
    using multiply_nibbles [of "bit w 0" "bit w 4" "bit w 8" "bit w 12" "bit w 16" "bit w 20" "bit w 24" "bit w 28"]
    unfolding parity_multiply_def Let_def xshr_def [symmetric] w_def [symmetric] nibble_bits sum_8 by simp
  finally show ?thesis by simp
qed

text \<open>
  C35: the six parity computations agree on every 32 bit value: the two bit loops, the multiplication,
  the xor folding and the two table look-ups all return whether the number of set bits is odd; so
  the parity stressor leaves the state, reports included, as it was.
\<close>

theorem parity_methods_agree:
  "parity_naive v False = odd (card {k. bit v k}) \<and> parity_kernighan v False = odd (card {k. bit v k}) \<and>
   parity_multiply v = odd (card {k. bit v k}) \<and> parity_parallel v = odd (card {k. bit v k}) \<and>
   parity_lookup1 v = odd (card {k. bit v k}) \<and> parity_lookup2 v = odd (card {k. bit v k}) \<and>
   stress_cpu_parity flags st = st"
proof -
  have "parity_round flags i s = s" for i s
    by (simp add: parity_round_def Let_def parity_naive_eq parity_kernighan_eq parity_multiply_eq parity_parallel_eq
        parity_lookup1_eq parity_lookup2_eq)
  then have "fold (parity_round flags) xs st = st" for xs by (induction xs) simp_all
  moreover have "lowpar 32 v = odd (card {k. bit v k})" using lowpar_card [of v] by simp
  ultimately show ?thesis
    by (simp add: parity_naive_eq parity_kernighan_eq parity_multiply_eq parity_parallel_eq
        parity_lookup1_eq parity_lookup2_eq stress_cpu_parity_def)
qed

section \<open>Gray code lemmas\<close>

lemma xshr_twice: "xshr n (xshr n v) = xshr (2 * n) v"
  by (rule bit_word_eqI) (auto simp: xshr_def bit_xor_iff bit_drop_bit_eq add.commute mult_2 add.left_commute)

lemma from_to_gray: "from_gray (to_gray i) = i"
proof -
  have "from_gray (to_gray i) = xshr 16 (xshr 8 (xshr 4 (xshr 2 (xshr 1 (xshr 1 i)))))"
    by (simp only: from_gray_def to_gray_def xshr_def Let_def xor.commute [of "drop_bit 1 i"])
  also have "\<dots> = xshr 32 i" by (simp add: xshr_twice)
  also have "\<dots> = i" by (rule bit_word_eqI) (auto simp: xshr_def bit_xor_iff bit_drop_bit_eq dest: bit_imp_le_length)
  finally show ?thesis .
qed

lemma to_gray_bound: "i < 2 ^ 16 \<Longrightarrow> unat (to_gray (of_nat i)) < 2 ^ 16"
proof -
  assume i: "i < 2 ^ 16"
  have "take_bit 16 (to_gray (of_nat i)) = to_gray (of_nat i)"
  proof (rule bit_word_eqI)
    fix k assume "k < LENGTH(32)"
    have "\<not> bit (of_nat i :: u32) k" if "16 \<le> k" for k
      using i that by (metis bit_take_bit_iff linorder_not_le of_nat_take_bit take_bit_nat_eq_self)
    from this [of k] this [of "Suc k"] show "bit (take_bit 16 (to_gray (of_nat i))) k = bit (to_gray (of_nat i)) k"
      by (cases "k < 16") (simp_all add: to_gray_def bit_take_bit_iff bit_xor_iff bit_drop_bit_eq)
  qed
  then have "unat (to_gray (of_nat i)) = take_bit 16 (unat (to_gray (of_nat i)))" by (metis unsigned_take_bit_eq)
  then show ?thesis by (metis take_bit_nat_less_exp)
qed

lemma sum_to_gray: "(\<Sum>i<2 ^ 16. unat (to_gray (of_nat i))) = (\<Sum>i<2 ^ 16. i)"
proof (rule sum.reindex_bij_betw [where g = "\<lambda>i. i" and h = "\<lambda>i. unat (to_gray (of_nat i))"])
  have inj: "inj_on (\<lambda>i. unat (to_gray (of_nat i))) {..<2 ^ 16}"
  proof (rule inj_onI)
    fix i j :: nat assume ij: "i \<in> {..<2 ^ 16}" "j \<in> {..<2 ^ 16}" "unat (to_gray (of_nat i)) = unat (to_gray (of_nat j))"
    then have "(of_nat i :: u32) = of_nat j" by (metis from_to_gray word_unat_eq_iff)
    then have "unat (of_nat i :: u32) = unat (of_nat j :: u32)" by simp
    then show "i = j" using ij(1,2) by (simp add: unat_of_nat take_bit_nat_eq_self)
  qed
  have "(\<lambda>i. unat (to_gray (of_nat i))) ` {..<2 ^ 16} \<subseteq> {..<2 ^ 16}" using to_gray_bound by auto
  then have "(\<lambda>i. unat (to_gray (of_nat i))) ` {..<2 ^ 16} = {..<2 ^ 16}"
    by (rule card_subset_eq [OF finite_lessThan]) (simp only: card_image [OF inj])
  then show "bij_betw (\<lambda>i. unat (to_gray (of_nat i))) {..<2 ^ 16} {..<2 ^ 16}" using inj by (simp only: bij_betw_def)
qed

text \<open>
  C38: decoding a Gray code with the five xor steps gives back every 32 bit value, and the
  stressor's sum of all codes below 65536 and their decodings is the expected constant, so it reports nothing.
\<close>

theorem gray_round_trip: "from_gray (to_gray i) = i \<and> stress_cpu_gray flags st = st"
proof -
  let ?f = "\<lambda>i. ucast (to_gray (of_nat i)) + ucast (from_gray (to_gray (of_nat i))) :: u64"
  have "fold (\<lambda>i (s :: u64). s + ucast (to_gray (of_nat i)) + ucast (from_gray (to_gray (of_nat i)))) [0..<0x10000] 0 =
      (\<Sum>i<0x10000. ?f i)"
    using fold_add_sum [of ?f 65536 0] by (simp only: add.assoc add_0)
  also have "\<dots> = (\<Sum>i<0x10000. of_nat (unat (to_gray (of_nat i)) + i))"
  proof (rule sum.cong [OF refl])
    fix i :: nat assume "i \<in> {..<0x10000}"
    then have "unat (of_nat i :: u32) = i" by (simp add: unat_of_nat take_bit_nat_eq_self)
    then have "(ucast (of_nat i :: u32) :: u64) = of_nat i" by (metis of_nat_unat)
    moreover have "(ucast (to_gray (of_nat i)) :: u64) = of_nat (unat (to_gray (of_nat i)))" by (simp only: of_nat_unat)
    ultimately show "?f i = of_nat (unat (to_gray (of_nat i)) + i)" by (simp only: from_to_gray of_nat_add)
  qed
  also have "\<dots> = of_nat (2 * (\<Sum>i<2 ^ 16. i))"
  proof -
    have "(\<Sum>i<0x10000. of_nat (unat (to_gray (of_nat i)) + i)) = (of_nat (\<Sum>i<0x10000. unat (to_gray (of_nat i)) + i) :: u64)"
      by (rule of_nat_sum [symmetric])
    also have "(\<Sum>i<0x10000. unat (to_gray (of_nat i)) + i) = (\<Sum>i<0x10000. unat (to_gray (of_nat i))) + (\<Sum>i<0x10000. i)"
      by (rule sum.distrib)
    also have "(\<Sum>i<0x10000. unat (to_gray (of_nat i))) = (\<Sum>i<2 ^ 16. i)" using sum_to_gray by simp
    finally show ?thesis by (simp only: mult_2) simp
  qed
  also have "2 * (\<Sum>i<2 ^ 16. i) = (65536 * 65535 :: nat)"
    using gauss_sum_nat [of 65535] by (simp add: lessThan_Suc_atMost [symmetric] atLeast0AtMost)
  finally show ?thesis by (simp add: stress_cpu_gray_def Let_def from_to_gray)
qed

section \<open>Hamming code lemmas\<close>

lemma HAMMING_xor: "HAMMING G i (a XOR b) (c XOR d) = HAMMING G i a c XOR HAMMING G i b d"
  unfolding HAMMING_def Let_def drop_bit_xor bit.conj_xor_distrib bit.conj_xor_distrib2 push_bit_xor
  by (simp only: xor.assoc xor.commute xor.left_commute)

lemma hamming84_xor: "hamming84 (a XOR b) = hamming84 a XOR hamming84 b"
proof -
  have "fold (\<lambda>i. HAMMING G i (a XOR b)) is (c XOR d) = fold (\<lambda>i. HAMMING G i a) is c XOR fold (\<lambda>i. HAMMING G i b) is d" for G "is" c d
    by (induction "is" arbitrary: c d) (simp_all add: HAMMING_xor)
  from this [of hamming_G "[7, 6, 5, 4, 3, 2, 1, 0]" 0 0] show ?thesis by (simp add: hamming84_def)
qed

lemma hamming84_values:
  "map hamming84 [0, 1, 2, 3, 4, 5, 6, 7, 8, 9, 10, 11, 12, 13, 14, 15] =
   [0x00, 0xf1, 0xd2, 0x23, 0xb4, 0x45, 0x66, 0x97, 0x78, 0x89, 0xaa, 0x5b, 0xcc, 0x3d, 0x1e, 0xef]"
  by (simp add: hamming84_def HAMMING_def hamming_G_def)

lemma nybble_cases:
  fixes n :: u8
  assumes "n < 16"
  shows "n \<in> {0, 1, 2, 3, 4, 5, 6, 7, 8, 9, 10, 11, 12, 13, 14, 15}"
proof -
  have "unat n < 16" using assms by (simp add: word_less_nat_alt)
  then have "unat n \<in> {0, 1, 2, 3, 4, 5, 6, 7, 8, 9, 10, 11, 12, 13, 14, 15}" unfolding insert_iff empty_iff by presburger
  then have "(of_nat (unat n) :: u8) \<in> of_nat ` {0, 1, 2, 3, 4, 5, 6, 7, 8, 9, 10, 11, 12, 13, 14, 15}" by (rule imageI)
  then show ?thesis by simp
qed

lemma hamming84_weight:
  assumes "n < 16" "n \<noteq> 0"
  shows "3 \<le> card {k. bit (hamming84 n) k}"
proof -
  have c: "card {k. bit v k} = of_bool (bit v 0) + of_bool (bit v 1) + of_bool (bit v 2) + of_bool (bit v 3) +
      of_bool (bit v 4) + of_bool (bit v 5) + of_bool (bit v 6) + of_bool (bit v 7)" for v :: u8
    unfolding card_bits_sum using sum_8 [of "\<lambda>k. of_bool (bit v k)"] by simp
  show ?thesis
    using nybble_cases [OF assms(1)] assms(2) hamming84_values unfolding c
    by (elim insertE emptyE) simp_all
qed

lemma nybble_mask: "n < 16 \<longleftrightarrow> n AND 0xf = (n :: u8)"
proof -
  have "(0xf :: u8) = mask 4" by (simp add: mask_eq_exp_minus_1)
  then have "unat (n AND 0xf) = unat n mod 16" using and_mask_unat [of n 4] by simp
  moreover have "unat n mod 16 = unat n \<longleftrightarrow> unat n < 16" by (metis mod_less mod_less_divisor zero_less_numeral)
  ultimately show ?thesis by (simp add: word_less_nat_alt word_unat_eq_iff)
qed

text \<open>
  C36: the codes of two different nybbles differ in at least three bits, and each code carries its nybble
  in the low four bits; but the codes of 0 and 5 differ in three bits only, so the code does not have
  the distance four of the generator matrix in the comment, whose last row is 0xe1 and not 0xf1.
\<close>

theorem hamming_code:
  assumes "m < 16" "n < 16"
  shows "(m \<noteq> n \<longrightarrow> 3 \<le> card {k. bit (hamming84 m XOR hamming84 n) k}) \<and> hamming84 m AND 0xf = m \<and>
    card {k. bit (hamming84 0 XOR hamming84 5) k} = 3"
proof -
  have "m XOR n < 16" using assms by (simp add: nybble_mask bit.conj_xor_distrib2)
  moreover have "m XOR n = 0 \<longleftrightarrow> m = n" by (metis xor.assoc xor.comm_neutral xor.commute xor_self_eq)
  ultimately have "m \<noteq> n \<longrightarrow> 3 \<le> card {k. bit (hamming84 m XOR hamming84 n) k}"
    using hamming84_weight by (simp add: hamming84_xor [symmetric])
  moreover have "hamming84 m AND 0xf = m"
    using nybble_cases [OF assms(1)] hamming84_values by (elim insertE emptyE) simp_all
  moreover have "card {k. bit (hamming84 0 XOR hamming84 5) k} = 3"
    using hamming84_values unfolding card_bits_sum using sum_8 [of "\<lambda>k. of_bool (bit (hamming84 0 XOR hamming84 5) k)"] by simp
  ultimately show ?thesis by blast
qed

theorem hamming_code_witness: "3 \<le> card {k. bit (hamming84 3 XOR hamming84 12) k} \<and> hamming84 3 AND 0xf = 3"
  using hamming_code [of 3 12] by simp

lemma sum_div:
  fixes m p :: nat
  assumes "0 < m"
  shows "(\<Sum>i<p * m. f (i div m) :: nat) = m * (\<Sum>j<p. f j)"
proof -
  have "(\<Sum>i<p * m. f (i div m)) = (\<Sum>j<p. \<Sum>i = j * m..<j * m + m. f (i div m))" by (rule sum.nat_group [symmetric])
  also have "\<dots> = (\<Sum>j<p. \<Sum>i = j * m..<j * m + m. f j)"
  proof (intro sum.cong refl)
    fix j i assume "i \<in> {j * m..<j * m + m}"
    then have "i div m = j" using assms by (intro div_nat_eqI) (simp_all add: ac_simps)
    then show "f (i div m) = f j" by simp
  qed
  finally show ?thesis by (simp add: sum_distrib_left)
qed

lemma sum_mod: "(\<Sum>i<p * m. f (i mod m) :: nat) = p * (\<Sum>j<m. f j)" for m p :: nat
proof -
  have "(\<Sum>i<p * m. f (i mod m)) = (\<Sum>j<p. \<Sum>i = j * m..<j * m + m. f (i mod m))" by (rule sum.nat_group [symmetric])
  also have "\<dots> = (\<Sum>j<p. \<Sum>i<m. f i)"
  proof (rule sum.cong [OF refl])
    fix j
    have "(\<Sum>i = j * m..<j * m + m. f (i mod m)) = (\<Sum>i = 0..<m. f ((i + j * m) mod m))"
      using sum.shift_bounds_nat_ivl [of "\<lambda>i. f (i mod m)" 0 "j * m" m] by (simp add: add.commute)
    also have "\<dots> = (\<Sum>i<m. f i)" by (simp add: atLeast0LessThan)
    finally show "(\<Sum>i = j * m..<j * m + m. f (i mod m)) = (\<Sum>i<m. f i)" .
  qed
  finally show ?thesis by simp
qed

lemma digit_sum:
  fixes f :: "nat \<Rightarrow> nat"
  assumes "k < 4"
  shows "(\<Sum>i<65536. f (i div 16 ^ k mod 16) :: nat) = 4096 * (\<Sum>n<16. f n)"
proof -
  have e: "(65536 :: nat) = 16 ^ (3 - k) * 16 * 16 ^ k"
  proof -
    have "(16 :: nat) ^ (3 - k) * 16 * 16 ^ k = 16 ^ (3 - k + 1 + k)" by (simp add: power_add)
    also have "3 - k + 1 + k = 4" using assms by simp
    finally show ?thesis by simp
  qed
  have "(\<Sum>i<65536. f (i div 16 ^ k mod 16)) = 16 ^ k * (\<Sum>j<16 ^ (3 - k) * 16. f (j mod 16))"
    unfolding e by (rule sum_div) simp
  also have "\<dots> = 16 ^ k * 16 ^ (3 - k) * (\<Sum>n<16. f n)" unfolding sum_mod by simp
  also have "(16 :: nat) ^ k * 16 ^ (3 - k) = 4096" using assms by (simp flip: power_add)
  finally show ?thesis .
qed


definition ham :: "nat \<Rightarrow> nat" where
  "ham n = unat (hamming84 (of_nat n))"

lemma ham_less: "ham n < 256"
  using unsigned_less [of "hamming84 (of_nat n)"] by (simp add: ham_def)

lemma sum_ham: "(\<Sum>n<16. ham n) = 2040"
proof -
  have "(\<Sum>n<(16 :: nat). f n :: nat) = f 0 + f 1 + f 2 + f 3 + f 4 + f 5 + f 6 + f 7 + f 8 + f 9 + f 10 + f 11 + f 12 + f 13 + f 14 + f 15" for f
    by (simp add: lessThan_nat_numeral lessThan_Suc)
  from this [of ham] show ?thesis using hamming84_values by (simp add: ham_def)
qed

lemma hamming_digit:
  assumes "i < 65536"
  shows "ucast (hamming84 (ucast (drop_bit (4 * k) (of_nat i :: u32) AND 0xf))) = (of_nat (ham (i div 16 ^ k mod 16)) :: u32)"
proof -
  have m: "(0xf :: u32) = mask 4" by (simp add: mask_eq_exp_minus_1)
  have "unat (of_nat i :: u32) = i" using assms by (simp add: unat_of_nat take_bit_nat_eq_self)
  then have u: "unat (drop_bit (4 * k) (of_nat i :: u32) AND 0xf) = i div 16 ^ k mod 16"
    unfolding m and_mask_unat drop_bit_unat by (simp add: power_mult)
  then have "(ucast (drop_bit (4 * k) (of_nat i :: u32) AND 0xf) :: u8) = of_nat (i div 16 ^ k mod 16)"
    by (metis of_nat_unat)
  then show ?thesis by (simp add: ham_def)
qed

lemma hamming_encode_nat:
  assumes "i < 65536"
  shows "hamming_encode (of_nat i) = of_nat (ham (i div 16 ^ 3 mod 16) * 2 ^ 24 + ham (i div 16 ^ 2 mod 16) * 2 ^ 16 +
    ham (i div 16 ^ 1 mod 16) * 2 ^ 8 + ham (i div 16 ^ 0 mod 16))"
proof -
  have join: "push_bit n (of_nat a) OR of_nat b = (of_nat (a * 2 ^ n + b) :: u32)" if "b < 2 ^ n" for a b n
  proof -
    have "push_bit n (of_nat a) OR (of_nat b :: u32) = of_nat (push_bit n a OR b)" by (simp add: of_nat_push_bit of_nat_or_eq)
    also have "push_bit n a OR b = push_bit n a + b"
      using that by (intro disjunctive_add [symmetric]) (metis bit_push_bit_iff bit_take_bit_iff linorder_not_le take_bit_nat_eq_self)
    finally show ?thesis by (simp add: push_bit_eq_mult)
  qed
  let ?h = "\<lambda>k. ham (i div 16 ^ k mod 16)"
  have l: "?h 0 < 2 ^ 8" "?h 1 * 2 ^ 8 + ?h 0 < 2 ^ 16" "?h 2 * 2 ^ 16 + (?h 1 * 2 ^ 8 + ?h 0) < 2 ^ 24"
    using ham_less [of "i div 16 ^ 0 mod 16"] ham_less [of "i div 16 ^ 1 mod 16"] ham_less [of "i div 16 ^ 2 mod 16"] by simp_all
  have "hamming_encode (of_nat i) = push_bit 24 (of_nat (?h 3)) OR push_bit 16 (of_nat (?h 2)) OR push_bit 8 (of_nat (?h 1)) OR of_nat (?h 0)"
    using hamming_digit [OF assms, of 3] hamming_digit [OF assms, of 2] hamming_digit [OF assms, of 1] hamming_digit [OF assms, of 0]
    by (simp add: hamming_encode_def or.assoc)
  then show ?thesis using join [OF l(1), of "?h 1"] join [OF l(2), of "?h 2"] join [OF l(3), of "?h 3"] by (simp add: add.assoc or.assoc)
qed

text \<open>
  The sum of the codes of all 65536 inputs is the constant the Hamming stressor expects: it never reports a failure.
\<close>

lemma hamming_no_report: "stress_cpu_hamming flags st = st"
proof -
  have d: "(\<Sum>i<65536. ham (i div 16 ^ k mod 16) * c) = 4096 * 2040 * c" if "k < 4" for k c
    using digit_sum [OF that, of ham] sum_ham by (simp add: sum_distrib_right [symmetric])
  have "(\<Sum>i<65536. hamming_encode (of_nat i)) = (of_nat (\<Sum>i<65536. ham (i div 16 ^ 3 mod 16) * 2 ^ 24 + ham (i div 16 ^ 2 mod 16) * 2 ^ 16 +
      ham (i div 16 ^ 1 mod 16) * 2 ^ 8 + ham (i div 16 ^ 0 mod 16)) :: u32)"
    unfolding of_nat_sum by (rule sum.cong [OF refl], rule hamming_encode_nat) simp
  also have "(\<Sum>i<65536. ham (i div 16 ^ 3 mod 16) * 2 ^ 24 + ham (i div 16 ^ 2 mod 16) * 2 ^ 16 +
      ham (i div 16 ^ 1 mod 16) * 2 ^ 8 + ham (i div 16 ^ 0 mod 16)) = 4096 * 2040 * (2 ^ 24 + 2 ^ 16 + 2 ^ 8 + (1 :: nat))"
  proof -
    have lt: "(3 :: nat) < 4" "(2 :: nat) < 4" "(1 :: nat) < 4" "(0 :: nat) < 4" by simp_all
    show ?thesis unfolding sum.distrib d [OF lt(1)] d [OF lt(2)] d [OF lt(3)]
      using d [OF lt(4), of 1] by (simp only: mult_1_right) simp
  qed
  finally have "(\<Sum>i<65536. hamming_encode (of_nat i)) = 0xffff8000" by simp
  then show ?thesis using fold_add_sum [of "\<lambda>i. hamming_encode (of_nat i)" 65536 0] by (simp add: stress_cpu_hamming_def Let_def)
qed

section \<open>Reversal and rounding\<close>

lemma reverse_loop_bits:
  assumes "v = drop_bit (Suc t) i" "s = 31 - t" "t \<le> 31" "\<forall>k \<le> t. bit r k = bit i (t - k)"
  shows "k < 32 \<Longrightarrow> bit (reverse_loop v r s) k = bit i (31 - k)"
  using assms
proof (induction v r s arbitrary: t rule: reverse_loop.induct)
  case (1 v r s)
  show ?case
  proof (cases "v = 0")
    case True
    have hi: "\<not> bit i j" if "t < j" for j
    proof -
      have "\<not> bit (drop_bit (Suc t) i) (j - Suc t)" using True "1.prems"(2) by simp
      then show ?thesis using that by (simp add: bit_drop_bit_eq)
    qed
    have "bit (push_bit s r) k = bit i (31 - k)"
    proof (cases "s \<le> k")
      case True
      then have "t - (k - s) = 31 - k" "k - s \<le> t" using "1.prems" by auto
      then show ?thesis using True "1.prems"(1,5) by (simp add: bit_push_bit_iff)
    next
      case False
      then show ?thesis using hi [of "31 - k"] "1.prems" by (simp add: bit_push_bit_iff)
    qed
    then show ?thesis using True by (subst reverse_loop.simps) simp
  next
    case False
    have "t < 31"
    proof (rule ccontr)
      assume "\<not> t < 31"
      then have "v = 0" using "1.prems"(2,4) by (intro bit_word_eqI) (auto simp: bit_drop_bit_eq dest: bit_imp_le_length)
      then show False using False by simp
    qed
    have "bit (push_bit 1 r OR (v AND 1)) k = bit i (Suc t - k)" if "k \<le> Suc t" for k
    proof -
      have "bit (push_bit 1 r OR (v AND 1)) k \<longleftrightarrow> 1 \<le> k \<and> k < 32 \<and> bit r (k - 1) \<or> k = 0 \<and> bit v 0"
        unfolding bit_or_iff bit_push_bit_iff bit_and_iff bit_1_iff by (cases k) auto
      then show ?thesis using that "1.prems"(2,5) \<open>t < 31\<close> by (cases k) (auto simp: bit_drop_bit_eq)
    qed
    moreover have "drop_bit 1 v = drop_bit (Suc (Suc t)) i" using "1.prems"(2) by simp
    ultimately have "bit (reverse_loop (drop_bit 1 v) (push_bit 1 r OR (v AND 1)) (s - 1)) k = bit i (31 - k)"
      using "1.IH" [OF False "1.prems"(1), of "Suc t"] "1.prems"(3) \<open>t < 31\<close> by simp
    then show ?thesis using False by (subst reverse_loop.simps) simp
  qed
qed

lemma round_up_bits: "bit (round_up i) k \<longleftrightarrow> (\<exists>j \<ge> k. bit (i - 1) j)"
proof -
  have step: "bit (v OR drop_bit n v) k \<longleftrightarrow> (\<exists>j. k \<le> j \<and> j < k + 2 * n \<and> bit w j)"
    if "\<And>k. bit v k \<longleftrightarrow> (\<exists>j. k \<le> j \<and> j < k + n \<and> bit w j)" for v w :: u32 and n k
  proof -
    have "bit (v OR drop_bit n v) k \<longleftrightarrow> bit v k \<or> bit v (n + k)" by (simp add: bit_or_iff bit_drop_bit_eq)
    also have "\<dots> \<longleftrightarrow> (\<exists>j. k \<le> j \<and> j < k + n \<and> bit w j) \<or> (\<exists>j. n + k \<le> j \<and> j < n + k + n \<and> bit w j)"
      using that [of k] that [of "n + k"] by simp
    also have "\<dots> \<longleftrightarrow> (\<exists>j. k \<le> j \<and> j < k + 2 * n \<and> bit w j)"
    proof (intro iffI; elim disjE exE conjE)
      fix j assume "k \<le> j" "j < k + 2 * n" "bit w j"
      then show "(\<exists>j. k \<le> j \<and> j < k + n \<and> bit w j) \<or> (\<exists>j. n + k \<le> j \<and> j < n + k + n \<and> bit w j)"
        by (cases "j < k + n") auto
    next
      fix j assume "n + k \<le> j" "j < n + k + n" "bit w j"
      then show "\<exists>j. k \<le> j \<and> j < k + 2 * n \<and> bit w j" by (intro exI [of _ j]) simp
    qed auto
    finally show ?thesis .
  qed
  let ?w = "i - 1"
  have 0: "bit ?w k \<longleftrightarrow> (\<exists>j. k \<le> j \<and> j < k + 1 \<and> bit ?w j)" for k by (auto simp: less_Suc_eq_le dest: le_antisym)
  define v1 where "v1 = ?w OR drop_bit 1 ?w"
  define v2 where "v2 = v1 OR drop_bit 2 v1"
  define v3 where "v3 = v2 OR drop_bit 4 v2"
  define v4 where "v4 = v3 OR drop_bit 8 v3"
  have 1: "bit v1 k \<longleftrightarrow> (\<exists>j. k \<le> j \<and> j < k + 2 \<and> bit ?w j)" for k using step [OF 0, of k] by (simp add: v1_def)
  have 2: "bit v2 k \<longleftrightarrow> (\<exists>j. k \<le> j \<and> j < k + 4 \<and> bit ?w j)" for k using step [OF 1, of k] by (simp add: v2_def)
  have 3: "bit v3 k \<longleftrightarrow> (\<exists>j. k \<le> j \<and> j < k + 8 \<and> bit ?w j)" for k using step [OF 2, of k] by (simp add: v3_def)
  have 4: "bit v4 k \<longleftrightarrow> (\<exists>j. k \<le> j \<and> j < k + 16 \<and> bit ?w j)" for k using step [OF 3, of k] by (simp add: v4_def)
  have "round_up i = v4 OR drop_bit 16 v4" by (simp only: round_up_def Let_def v1_def v2_def v3_def v4_def)
  then have "bit (round_up i) k \<longleftrightarrow> (\<exists>j. k \<le> j \<and> j < k + 32 \<and> bit ?w j)" using step [OF 4, of k] by simp
  moreover have "j < k + 32" if "bit ?w j" for j using bit_imp_le_length [OF that] by simp
  ultimately show ?thesis by blast
qed

text \<open>
  C37: for every 32 bit value the loop reverses the order of the bits and the counting loop returns the number of set bits.  The
  rounding steps give one less than the smallest power of two that is not below the argument, for arguments from 1 to 2^31; the comment in the
  source promises the power itself.
\<close>

theorem bitops_spec:
  assumes "k < 32"
  shows "bit (bit_reverse v) k = bit v (31 - k) \<and> count_loop 0 v = of_nat (card {j. bit v j}) \<and>
    (0 < unat v \<and> unat v \<le> 2 ^ n \<and> n < 32 \<and> (n = 0 \<or> 2 ^ (n - 1) < unat v) \<longrightarrow> unat (round_up v) = 2 ^ n - 1)"
proof (intro conjI impI)
  show "bit (bit_reverse v) k = bit v (31 - k)"
    unfolding bit_reverse_def by (rule reverse_loop_bits [of _ 0, OF _ _ _ _ assms]) auto
  have "count_loop j v = j + of_nat (card {j. bit v j})" for j
  proof (induction j v rule: count_loop.induct)
    case (1 j v)
    show ?case
    proof (cases "v = 0")
      case True
      then show ?thesis by (subst count_loop.simps) (simp add: bot_fun_def)
    next
      case False
      then show ?thesis using 1 [OF False] card_clear_lowest [OF False] by (subst count_loop.simps) simp
    qed
  qed
  then show "count_loop 0 v = of_nat (card {j. bit v j})" by simp
  assume a: "0 < unat v \<and> unat v \<le> 2 ^ n \<and> n < 32 \<and> (n = 0 \<or> 2 ^ (n - 1) < unat v)"
  then have u: "unat (v - 1) = unat v - 1" by (simp add: unat_minus_one unat_gt_0)
  have "bit (round_up v) j = bit (mask n :: u32) j" for j
  proof -
    have hi: "\<not> bit (v - 1) m" if "n \<le> m" for m
    proof -
      have "unat (v - 1) < 2 ^ n" using a u by linarith
      then have "take_bit n (unat (v - 1)) = unat (v - 1)" by (simp add: take_bit_nat_eq_self)
      then show ?thesis using that by (metis bit_take_bit_iff bit_unat linorder_not_le)
    qed
    have top: "bit (v - 1) (n - 1)" if "0 < n"
    proof -
      have "unat (v - 1) div 2 ^ (n - 1) = 1"
      proof (rule div_nat_eqI)
        show "2 ^ (n - 1) * 1 \<le> unat (v - 1)" using a u that by linarith
        have "(2 :: nat) ^ n = 2 ^ (n - 1) * 2" using that by (metis Suc_pred' power_Suc2)
        then show "unat (v - 1) < 2 ^ (n - 1) * Suc 1" using a u by (simp only: Suc_1) linarith
      qed
      then show ?thesis unfolding bit_unat [symmetric] bit_iff_odd by simp
    qed
    have "(\<exists>m \<ge> j. bit (v - 1) m) \<longleftrightarrow> j < n"
    proof
      assume "\<exists>m \<ge> j. bit (v - 1) m"
      then show "j < n" using hi by (meson le_trans linorder_not_le)
    next
      assume "j < n"
      then show "\<exists>m \<ge> j. bit (v - 1) m" using top by (intro exI [of _ "n - 1"]) auto
    qed
    moreover have "j < n \<longleftrightarrow> j < 32 \<and> j < n" using a by linarith
    ultimately show ?thesis by (simp add: round_up_bits bit_mask_iff)
  qed
  then have "round_up v = mask n" by (intro bit_word_eqI) simp
  moreover have "unat (mask n :: u32) = mask n" using a by (intro bit_eqI) (auto simp: bit_unat bit_mask_iff)
  ultimately show "unat (round_up v) = 2 ^ n - 1" by (simp add: mask_eq_exp_minus_1)
qed

theorem bitops_spec_witness: "bit (bit_reverse 1) 31 \<and> unat (round_up 5) = 7"
  using bitops_spec [of 31 1 0] bitops_spec [of 0 5 3] by simp

end
