(* ===== verification/Cpu_Hash.thy ===== *)
theory Cpu_Hash
  imports Cpu_Base
begin

text \<open>
  The hash and checksum stressors of stress-cpu.c.  A hash function reads its buffer byte by byte
  until a terminating NUL (or for a given length); a read past the end of the buffer has no value,
  so each of them returns an option.  Characters are signed: they are extended with their sign
  before they meet the 32-bit state.
\<close>

subsection \<open>Hash functions\<close>

definition jenkin_step :: "u32 \<Rightarrow> u8 \<Rightarrow> u32" where
  "jenkin_step h d =
    (let h = h + ucast d;
         h = h + push_bit 10 h
     in h XOR drop_bit 6 h)"

text \<open>The loop counter has eight bits, the bound does not.\<close>

fun jenkin_loop :: "u8 \<Rightarrow> nat \<Rightarrow> u32 \<Rightarrow> u8 list \<Rightarrow> u32 option" where
  "jenkin_loop i len h data =
    (if unat i < len
     then (case data of [] \<Rightarrow> None | d # ds \<Rightarrow> jenkin_loop (i + 1) len (jenkin_step h d) ds)
     else Some h)"

definition jenkin_final :: "u32 \<Rightarrow> u32" where
  "jenkin_final h =
    (let h = h + push_bit 3 h;
         h = h XOR drop_bit 11 h
     in h + push_bit 15 h)"

definition jenkin :: "u8 list \<Rightarrow> nat \<Rightarrow> u32 option" where
  "jenkin data len = map_option jenkin_final (jenkin_loop 0 len 0 data)"

text \<open>The loop over a NUL-terminated string that the four string hashes have in common.\<close>

fun str_loop :: "(u32 \<Rightarrow> u8 \<Rightarrow> u32) \<Rightarrow> u32 \<Rightarrow> u8 list \<Rightarrow> u32 option" where
  "str_loop step h [] = None"
| "str_loop step h (c # cs) = (if c = 0 then Some h else str_loop step (step h c) cs)"

definition pjw_step :: "u32 \<Rightarrow> u8 \<Rightarrow> u32" where
  "pjw_step h c =
    (let h = push_bit 4 h + scast c;
         g = h AND 0xf0000000
     in if g \<noteq> 0 then (h XOR drop_bit 24 g) XOR g else h)"

definition pjw :: "u8 list \<Rightarrow> u32 option" where
  "pjw str = str_loop pjw_step 0 str"

definition djb2a_step :: "u32 \<Rightarrow> u8 \<Rightarrow> u32" where
  "djb2a_step hash c = (push_bit 5 hash + hash) XOR scast c"

definition djb2a :: "u8 list \<Rightarrow> u32 option" where
  "djb2a str = str_loop djb2a_step 5381 str"

definition fnv1a_step :: "u32 \<Rightarrow> u8 \<Rightarrow> u32" where
  "fnv1a_step hash c = (hash XOR scast c) * 16777619"

definition fnv1a :: "u8 list \<Rightarrow> u32 option" where
  "fnv1a str = str_loop fnv1a_step 5381 str"

definition sdbm_step :: "u32 \<Rightarrow> u8 \<Rightarrow> u32" where
  "sdbm_step hash c = scast c + push_bit 6 hash + push_bit 16 hash - hash"

definition sdbm :: "u8 list \<Rightarrow> u32 option" where
  "sdbm str = str_loop sdbm_step 0 str"

subsection \<open>The hash stressors\<close>

fun hash_sum :: "(u8 list \<Rightarrow> u32 option) \<Rightarrow> nat \<Rightarrow> u8 list \<Rightarrow> u32 \<Rightarrow> u32 option" where
  "hash_sum hash_func 0 buffer i_sum = Some i_sum"
| "hash_sum hash_func (Suc i) buffer i_sum =
    (let buffer = buffer[Suc i := 0]
     in case hash_func buffer of
          None \<Rightarrow> None
        | Some h \<Rightarrow> hash_sum hash_func i buffer (i_sum + h))"

definition stress_cpu_hash_generic ::
    "u64 \<Rightarrow> string \<Rightarrow> (u8 list \<Rightarrow> u32 option) \<Rightarrow> u32 \<Rightarrow> cpu_st \<Rightarrow> cpu_st option" where
  "stress_cpu_hash_generic flags hash_name hash_func result st =
    (case random_buffer 128 (MWC_SEED st) of (buffer, st) \<Rightarrow>
       let buffer = map (\<lambda>b. (b AND 0x3f) + 0x20) buffer
       in case hash_sum hash_func 127 buffer 0 of
            None \<Rightarrow> None
          | Some i_sum \<Rightarrow> Some (cpu_verify flags (i_sum \<noteq> result) hash_name st))"

definition stress_cpu_pjw :: "u64 \<Rightarrow> cpu_st \<Rightarrow> cpu_st option" where
  "stress_cpu_pjw flags = stress_cpu_hash_generic flags ''pjw'' pjw 0xa89a91c0"

definition stress_cpu_djb2a :: "u64 \<Rightarrow> cpu_st \<Rightarrow> cpu_st option" where
  "stress_cpu_djb2a flags = stress_cpu_hash_generic flags ''djb2a'' djb2a 0x6a60cb5a"

definition stress_cpu_fnv1a :: "u64 \<Rightarrow> cpu_st \<Rightarrow> cpu_st option" where
  "stress_cpu_fnv1a flags = stress_cpu_hash_generic flags ''fnv1a'' fnv1a 0x8ef17e80"

definition stress_cpu_sdbm :: "u64 \<Rightarrow> cpu_st \<Rightarrow> cpu_st option" where
  "stress_cpu_sdbm flags = stress_cpu_hash_generic flags ''sdbm'' sdbm 0x46357819"

fun jenkin_sum :: "nat \<Rightarrow> u8 list \<Rightarrow> u32 \<Rightarrow> u32 option" where
  "jenkin_sum 0 buffer i_sum = Some i_sum"
| "jenkin_sum (Suc n) buffer i_sum =
    (case jenkin buffer (length buffer) of
       None \<Rightarrow> None
     | Some h \<Rightarrow> jenkin_sum n buffer (i_sum + h))"

definition stress_cpu_jenkin :: "u64 \<Rightarrow> cpu_st \<Rightarrow> cpu_st option" where
  "stress_cpu_jenkin flags st =
    (case random_buffer 128 (MWC_SEED st) of (buffer, st) \<Rightarrow>
       case jenkin_sum 128 buffer 0 of
         None \<Rightarrow> None
       | Some i_sum \<Rightarrow> Some (cpu_verify flags (i_sum \<noteq> 0x96673680) ''jenkin'' st))"

subsection \<open>The CCITT checksum\<close>

definition crc_round :: "u16 \<Rightarrow> bool \<Rightarrow> u16" where
  "crc_round crc v = drop_bit 1 crc XOR (if v \<noteq> bit crc 0 then 0x8408 else 0)"

fun crc_byte :: "nat \<Rightarrow> u8 \<Rightarrow> u16 \<Rightarrow> u16" where
  "crc_byte 0 val crc = crc"
| "crc_byte (Suc i) val crc = crc_byte i (drop_bit 1 val) (crc_round crc (bit val 0))"

definition crc_loop :: "u16 \<Rightarrow> u8 list \<Rightarrow> u16" where
  "crc_loop crc data = foldl (\<lambda>crc val. crc_byte 8 val crc) crc data"

definition ccitt_crc16 :: "u8 list \<Rightarrow> nat \<Rightarrow> u16 option" where
  "ccitt_crc16 data n =
    (if n = 0 then Some 0
     else if length data < n then None
     else let crc = NOT (crc_loop (NOT 0) (take n data))
          in Some (push_bit 8 crc OR drop_bit 8 crc))"

definition stress_cpu_crc16 :: "cpu_st \<Rightarrow> (u16 list \<times> cpu_st) option" where
  "stress_cpu_crc16 st =
    (case random_buffer 1024 st of (buffer, st) \<Rightarrow>
       map_option (\<lambda>puts. (puts, st)) (those (map (ccitt_crc16 buffer) [0..<1024])))"

subsection \<open>Mixing steps\<close>

text \<open>
  A step that loses nothing: from the new state and the character the old state can be found, and
  from the new state and the old one the character.
\<close>

locale mixing =
  fixes step :: "'s \<Rightarrow> 'c \<Rightarrow> 's"
  assumes state_inj: "step s c = step s' c \<Longrightarrow> s = s'"
    and char_inj: "step s c = step s c' \<Longrightarrow> c = c'"
begin

lemma fold_inj: "foldl step s cs = foldl step s' cs \<Longrightarrow> s = s'"
  by (induction cs arbitrary: s s') (auto dest: state_inj)

lemma one_char: "foldl step s (xs @ c # ys) = foldl step s (xs @ c' # ys) \<longleftrightarrow> c = c'"
  by (auto dest: fold_inj char_inj)

end

lemma scast_u8_inj: "(scast c :: u32) = scast c' \<longleftrightarrow> c = (c' :: u8)"
proof
  assume "(scast c :: u32) = scast c'"
  then have e: "bit (scast c :: u32) n = bit (scast c' :: u32) n" for n by simp
  have "bit c n = bit c' n" if "n < 8" for n
    using that e [of n] by (cases "n = 7") (simp_all add: bit_simps min_def split: if_splits)
  then show "c = c'" by (intro bit_word_eqI) simp
qed simp

lemma ucast_u8_inj: "(ucast c :: u32) = ucast c' \<longleftrightarrow> c = (c' :: u8)"
proof
  assume "(ucast c :: u32) = ucast c'"
  then have e: "bit (ucast c :: u32) n = bit (ucast c' :: u32) n" for n by simp
  have "bit c n = bit c' n" if "n < 8" for n using that e [of n] by (simp add: bit_simps)
  then show "c = c'" by (intro bit_word_eqI) simp
qed simp

interpretation djb2a_mix: mixing djb2a_step
proof
  fix s s' :: u32 and c c' :: u8
  have e: "push_bit 5 h + h = h * 33" for h :: u32 by (simp add: push_bit_eq_mult algebra_simps)
  have u: "(1041204193 :: u32) * 33 = 1" by simp
  show "s = s'" if "djb2a_step s c = djb2a_step s' c"
    using that unfolding djb2a_step_def e xor_cancel_right unit_cancel [OF u] .
  show "c = c'" if "djb2a_step s c = djb2a_step s c'"
    using that unfolding djb2a_step_def xor_cancel_left scast_u8_inj .
qed

interpretation fnv1a_mix: mixing fnv1a_step
proof
  fix s s' :: u32 and c c' :: u8
  have u: "(899433627 :: u32) * 16777619 = 1" by simp
  show "s = s'" if "fnv1a_step s c = fnv1a_step s' c"
    using that unfolding fnv1a_step_def unit_cancel [OF u] xor_cancel_right .
  show "c = c'" if "fnv1a_step s c = fnv1a_step s c'"
    using that unfolding fnv1a_step_def unit_cancel [OF u] xor_cancel_left scast_u8_inj .
qed

lemma sdbm_step_mult: "sdbm_step h c = scast c + h * 65599"
  by (simp add: sdbm_step_def push_bit_eq_mult algebra_simps)

interpretation sdbm_mix: mixing sdbm_step
proof
  fix s s' :: u32 and c c' :: u8
  have u: "(2390421439 :: u32) * 65599 = 1" by simp
  show "s = s'" if "sdbm_step s c = sdbm_step s' c"
    using that unfolding sdbm_step_mult add_left_cancel unit_cancel [OF u] .
  show "c = c'" if "sdbm_step s c = sdbm_step s c'"
    using that unfolding sdbm_step_mult add_right_cancel scast_u8_inj .
qed

interpretation jenkin_mix: mixing jenkin_step
proof
  fix s s' :: u32 and c c' :: u8
  have e: "h + push_bit 10 h = h * 1025" for h :: u32 by (simp add: push_bit_eq_mult algebra_simps)
  have u: "(3222273025 :: u32) * 1025 = 1" by simp
  have i: "s + ucast c = s' + ucast c'" if "jenkin_step s c = jenkin_step s' c'" for s s' :: u32 and c c' :: u8
    using xor_drop_inj [of 6, OF _ that [unfolded jenkin_step_def Let_def e]] by (simp only: unit_cancel [OF u])
  show "s = s'" if "jenkin_step s c = jenkin_step s' c" using i [OF that] by simp
  show "c = c'" if "jenkin_step s c = jenkin_step s c'" using i [OF that] by (simp add: ucast_u8_inj)
qed

lemma jenkin_final_inj: "jenkin_final h = jenkin_final h' \<Longrightarrow> h = h'"
proof -
  have e: "k + push_bit 15 k = k * 32769" "k + push_bit 3 k = k * 9" for k :: u32
    by (simp_all add: push_bit_eq_mult algebra_simps)
  have u: "(1073709057 :: u32) * 32769 = 1" "(954437177 :: u32) * 9 = 1" by simp_all
  assume "jenkin_final h = jenkin_final h'"
  then have "h * 9 XOR drop_bit 11 (h * 9) = h' * 9 XOR drop_bit 11 (h' * 9)"
    unfolding jenkin_final_def Let_def e unit_cancel [OF u(1)] .
  from xor_drop_inj [of 11, OF _ this] show ?thesis by (simp only: unit_cancel [OF u(2)])
qed


subsection \<open>Reading the buffer\<close>

lemma str_loop_foldl: "0 \<notin> set xs \<Longrightarrow> str_loop step h (xs @ 0 # ys) = Some (foldl step h xs)"
  by (induction xs arbitrary: h) auto

lemma str_loop_returns: "0 \<in> set cs \<Longrightarrow> \<exists>h'. str_loop step h cs = Some h'"
  by (induction cs arbitrary: h) auto

lemma str_loop_overrun: "0 \<notin> set cs \<Longrightarrow> str_loop step h cs = None"
  by (induction cs arbitrary: h) auto

text \<open>
  The three multiplicative string hashes tell apart any two strings that differ in exactly one
  character, whatever follows the terminating NUL in the two buffers.
\<close>

theorem string_hash_one_char:
  assumes "0 \<notin> set xs" and "0 \<notin> set ys" and "a \<noteq> 0" and "b \<noteq> 0"
  shows "(djb2a (xs @ a # ys @ 0 # r) = djb2a (xs @ b # ys @ 0 # r') \<longleftrightarrow> a = b)
    \<and> (fnv1a (xs @ a # ys @ 0 # r) = fnv1a (xs @ b # ys @ 0 # r') \<longleftrightarrow> a = b)
    \<and> (sdbm (xs @ a # ys @ 0 # r) = sdbm (xs @ b # ys @ 0 # r') \<longleftrightarrow> a = b)"
proof -
  have "str_loop step h (xs @ c # ys @ 0 # q) = Some (foldl step h (xs @ c # ys))"
    if "c \<noteq> 0" for step h c q
    using str_loop_foldl [of "xs @ c # ys" step h q] assms that by simp
  then show ?thesis using assms
    by (simp only: djb2a_def fnv1a_def sdbm_def option.inject djb2a_mix.one_char fnv1a_mix.one_char
        sdbm_mix.one_char simp_thms)
qed

theorem string_hash_one_char_witness:
  "djb2a [0x61, 0x62, 0] \<noteq> djb2a [0x61, 0x63, 0] \<and> sdbm [0x61, 0x62, 0, 7] \<noteq> sdbm [0x61, 0x63, 0]"
  using string_hash_one_char [of "[0x61]" "[]" "0x62" "0x63" "[]" "[]"]
    string_hash_one_char [of "[0x61]" "[]" "0x62" "0x63" "[7]" "[]"] by simp

lemma high_bits_clear:
  fixes w :: u32
  assumes "\<And>k. 28 \<le> k \<Longrightarrow> \<not> bit w k"
  shows "unat w < 2 ^ 28"
proof -
  have "take_bit 28 w = w" using assms by (intro bit_word_eqI) (auto simp: bit_take_bit_iff not_le [symmetric])
  then have "unat w = unat w mod 2 ^ 28" by (metis unsigned_take_bit_eq take_bit_eq_mod)
  then show ?thesis by (metis mod_less_divisor zero_less_numeral zero_less_power)
qed

lemma pjw_step_small: "unat (pjw_step h c) < 2 ^ 28"
proof (rule high_bits_clear)
  fix k :: nat
  assume k: "28 \<le> k"
  define w where "w = push_bit 4 h + (scast c :: u32)"
  have m: "(0xf0000000 :: u32) = push_bit 28 (mask 4)" by (simp add: mask_eq_exp_minus_1)
  have g: "bit (w AND 0xf0000000) j \<longleftrightarrow> bit w j \<and> 28 \<le> j" for j
    unfolding m by (auto simp: bit_and_iff bit_push_bit_iff bit_mask_iff dest: bit_imp_le_length)
  have "\<not> bit (w AND 0xf0000000) (24 + k)" unfolding g using k by (auto dest: bit_imp_le_length)
  then have "\<not> bit (drop_bit 24 (w AND 0xf0000000)) k" unfolding bit_drop_bit_eq o_apply .
  then have "\<not> bit ((w XOR drop_bit 24 (w AND 0xf0000000)) XOR (w AND 0xf0000000)) k"
    using g [of k] k by (simp only: bit_xor_iff) blast
  moreover have "\<not> bit w k" if "w AND 0xf0000000 = 0" using g [of k] k that by (simp only: bit_0_eq) simp
  ultimately show "\<not> bit (pjw_step h c) k"
    unfolding pjw_step_def Let_def w_def [symmetric] by simp
qed

lemma str_loop_pjw_small: "str_loop pjw_step h cs = Some r \<Longrightarrow> unat h < 2 ^ 28 \<Longrightarrow> unat r < 2 ^ 28"
  by (induction cs arbitrary: h) (auto split: if_splits intro: pjw_step_small [simplified])

text \<open>
  Whatever the bytes of the string, the hash of Aho, Sethi and Ullman stays below 2 to the 28;
  it has a value exactly when the buffer holds a NUL, and it reads no byte after the first one.
\<close>

theorem pjw_bounds:
  "(case pjw str of None \<Rightarrow> 0 \<notin> set str | Some h \<Rightarrow> 0 \<in> set str \<and> unat h < 2 ^ 28)
    \<and> pjw (xs @ 0 # ys) = pjw (xs @ [0])"
proof
  have "str_loop step h (xs @ 0 # ys) = str_loop step h (xs @ [0])" for step h
    by (induction xs arbitrary: h) auto
  then show "pjw (xs @ 0 # ys) = pjw (xs @ [0])" by (simp add: pjw_def)
  show "case pjw str of None \<Rightarrow> 0 \<notin> set str | Some h \<Rightarrow> 0 \<in> set str \<and> unat h < 2 ^ 28"
    using str_loop_returns [of str pjw_step 0] str_loop_overrun [of str pjw_step 0]
      str_loop_pjw_small [of 0 str]
    unfolding pjw_def by (cases "0 \<in> set str") (auto simp del: power_numeral)
qed

declare jenkin_loop.simps [simp del]

lemma jenkin_loop_small:
  "unat i \<le> len \<Longrightarrow> len < 256 \<Longrightarrow> len \<le> unat i + length data
    \<Longrightarrow> jenkin_loop i len h data = Some (foldl jenkin_step h (take (len - unat i) data))"
proof (induction data arbitrary: i h)
  case Nil
  then show ?case by (simp add: jenkin_loop.simps)
next
  case (Cons d ds)
  show ?case
  proof (cases "unat i < len")
    case True
    have "unat i < 255" using True Cons.prems(2) by simp
    then have "i \<noteq> 0xff" by auto
    moreover have "(0xff :: u8) = - 1" by simp
    ultimately have "i + 1 \<noteq> 0" by (simp only: eq_neg_iff_add_eq_0 [symmetric] simp_thms)
    then have "unat (i + 1) = Suc (unat i)" using unatSuc [of i] by (simp add: add.commute)
    then show ?thesis using True Cons.IH [of "i + 1" "jenkin_step h d"] Cons.prems
      by (cases "len - unat i") (auto simp: jenkin_loop.simps [of i] Suc_diff_Suc [symmetric])
  next
    case False
    then show ?thesis using Cons.prems by (simp add: jenkin_loop.simps)
  qed
qed

lemma jenkin_loop_large:
  assumes "256 \<le> len"
  shows "jenkin_loop i len h data = None"
proof -
  have b: "unat i < 2 ^ LENGTH(8)" for i :: u8 by (rule unsigned_less)
  have "unat i < len" for i :: u8 using b [of i] assms by simp
  then show ?thesis by (induction data arbitrary: i h) (simp_all add: jenkin_loop.simps)
qed

lemma jenkin_value: "length cs < 256 \<Longrightarrow> jenkin cs (length cs) = Some (jenkin_final (foldl jenkin_step 0 cs))"
  by (simp add: jenkin_def jenkin_loop_small)

text \<open>
  C34: on at most 255 bytes the Jenkins hash returns, and changing one byte changes it.  For a longer
  length the eight-bit loop counter wraps around before it reaches the bound: the loop never ends
  inside any buffer.
\<close>

theorem jenkin_terminates:
  "(length (xs @ a # ys) < 256 \<longrightarrow>
      (\<exists>h. jenkin (xs @ a # ys) (length (xs @ a # ys)) = Some h)
      \<and> (jenkin (xs @ a # ys) (length (xs @ a # ys)) = jenkin (xs @ b # ys) (length (xs @ b # ys)) \<longleftrightarrow> a = b))
    \<and> (256 \<le> len \<longrightarrow> jenkin data len = None)"
proof (intro conjI impI)
  assume l: "length (xs @ a # ys) < 256"
  then show "\<exists>h. jenkin (xs @ a # ys) (length (xs @ a # ys)) = Some h" by (simp only: jenkin_value) blast
  have "length (xs @ b # ys) < 256" using l by simp
  with l show "jenkin (xs @ a # ys) (length (xs @ a # ys)) = jenkin (xs @ b # ys) (length (xs @ b # ys)) \<longleftrightarrow> a = b"
    using jenkin_final_inj jenkin_mix.one_char by (metis jenkin_value option.inject)
next
  show "jenkin data len = None" if "256 \<le> len" using that by (simp add: jenkin_def jenkin_loop_large)
qed

theorem jenkin_terminates_witness:
  "jenkin [1, 2, 3] 3 \<noteq> jenkin [1, 9, 3] 3 \<and> jenkin [1, 2, 3] 300 = None"
  using jenkin_terminates [of "[1]" 2 "[3]" 9 300 "[1, 2, 3]"] by (simp add: numeral_3_eq_3)


subsection \<open>The hash stressors run inside their buffer\<close>

lemma hash_sum_returns:
  assumes "\<And>buf. 0 \<in> set buf \<Longrightarrow> \<exists>h. f buf = Some h" and "n < length buf"
  shows "\<exists>s'. hash_sum f n buf s = Some s'"
  using assms(2)
proof (induction n arbitrary: buf s)
  case (Suc n)
  have "0 \<in> set (buf[Suc n := 0])" using Suc.prems by (simp add: set_update_memI)
  then obtain h where "f (buf[Suc n := 0]) = Some h" using assms(1) by blast
  then show ?case using Suc.IH [of "buf[Suc n := 0]" "s + h"] Suc.prems by simp
qed simp

lemma hash_generic_returns:
  assumes "\<And>buf. 0 \<in> set buf \<Longrightarrow> \<exists>h. f buf = Some h"
  shows "\<exists>bad. \<forall>flags st. stress_cpu_hash_generic flags name f result st
    = Some (cpu_verify flags bad name (snd (random_buffer 128 (MWC_SEED st))))"
proof -
  define buf where "buf = map (\<lambda>b. (b AND 0x3f) + (0x20 :: u8)) (fst (random_buffer 128 (MWC_SEED undefined)))"
  have b: "map (\<lambda>b. (b AND 0x3f) + (0x20 :: u8)) (fst (random_buffer 128 (MWC_SEED st))) = buf" for st
    by (simp add: buf_def random_buffer_seeded)
  have "length buf = 128" by (simp add: buf_def)
  then obtain s where s: "hash_sum f 127 buf 0 = Some s" using hash_sum_returns [of f 127 buf 0] assms by auto
  have "stress_cpu_hash_generic flags name f result st
    = Some (cpu_verify flags (s \<noteq> result) name (snd (random_buffer 128 (MWC_SEED st))))" for flags st
    using s b [of st] by (simp add: stress_cpu_hash_generic_def split_def Let_def del: hash_sum.simps)
  then show ?thesis by blast
qed

lemma jenkin_sum_returns: "length buf < 256 \<Longrightarrow> \<exists>s'. jenkin_sum n buf s = Some s'"
  by (induction n arbitrary: s) (simp_all add: jenkin_value)

text \<open>
  Every hash stressor runs to its end without reading outside its buffer, and its verdict is a
  constant of the program: it depends neither on the state of the generator before nor on the
  failures reported so far.
\<close>

theorem hash_stressors_return:
  "\<exists>p d f s j. \<forall>flags st. let st' = snd (random_buffer 128 (MWC_SEED st)) in
    stress_cpu_pjw flags st = Some (cpu_verify flags p ''pjw'' st')
    \<and> stress_cpu_djb2a flags st = Some (cpu_verify flags d ''djb2a'' st')
    \<and> stress_cpu_fnv1a flags st = Some (cpu_verify flags f ''fnv1a'' st')
    \<and> stress_cpu_sdbm flags st = Some (cpu_verify flags s ''sdbm'' st')
    \<and> stress_cpu_jenkin flags st = Some (cpu_verify flags j ''jenkin'' st')"
proof -
  define buf where "buf = fst (random_buffer 128 (MWC_SEED undefined))"
  have b: "fst (random_buffer 128 (MWC_SEED st)) = buf" for st by (simp add: buf_def random_buffer_seeded)
  have "length buf < 256" by (simp add: buf_def)
  then obtain t where t: "jenkin_sum 128 buf 0 = Some t" using jenkin_sum_returns [of buf 128 0] by blast
  have j: "stress_cpu_jenkin flags st
      = Some (cpu_verify flags (t \<noteq> 0x96673680) ''jenkin'' (snd (random_buffer 128 (MWC_SEED st))))" for flags st
    using t b [of st] by (simp add: stress_cpu_jenkin_def split_def del: jenkin_sum.simps)
  have g: "\<exists>bad. \<forall>flags st. stress_cpu_hash_generic flags name (str_loop step h) result st
    = Some (cpu_verify flags bad name (snd (random_buffer 128 (MWC_SEED st))))" for step h name result
    by (rule hash_generic_returns [OF str_loop_returns])
  obtain p where p: "\<And>flags st. stress_cpu_pjw flags st
      = Some (cpu_verify flags p ''pjw'' (snd (random_buffer 128 (MWC_SEED st))))"
    using g [where step = pjw_step and h = 0 and name = "''pjw''" and result = "0xa89a91c0"]
    unfolding stress_cpu_pjw_def pjw_def [abs_def] by blast
  obtain d where d: "\<And>flags st. stress_cpu_djb2a flags st
      = Some (cpu_verify flags d ''djb2a'' (snd (random_buffer 128 (MWC_SEED st))))"
    using g [where step = djb2a_step and h = 5381 and name = "''djb2a''" and result = "0x6a60cb5a"]
    unfolding stress_cpu_djb2a_def djb2a_def [abs_def] by blast
  obtain f where f: "\<And>flags st. stress_cpu_fnv1a flags st
      = Some (cpu_verify flags f ''fnv1a'' (snd (random_buffer 128 (MWC_SEED st))))"
    using g [where step = fnv1a_step and h = 5381 and name = "''fnv1a''" and result = "0x8ef17e80"]
    unfolding stress_cpu_fnv1a_def fnv1a_def [abs_def] by blast
  obtain s where s: "\<And>flags st. stress_cpu_sdbm flags st
      = Some (cpu_verify flags s ''sdbm'' (snd (random_buffer 128 (MWC_SEED st))))"
    using g [where step = sdbm_step and h = 0 and name = "''sdbm''" and result = "0x46357819"]
    unfolding stress_cpu_sdbm_def sdbm_def [abs_def] by blast
  show ?thesis
    unfolding Let_def
    by (rule exI [of _ p], rule exI [of _ d], rule exI [of _ f], rule exI [of _ s], rule exI [of _ "t \<noteq> 0x96673680"])
      (simp only: p d f s j simp_thms)
qed

subsection \<open>What the checksum detects\<close>

definition crc_bits :: "u8 list \<Rightarrow> bool list" where
  "crc_bits data = concat (map (\<lambda>v. map (bit v) [0..<8]) data)"

lemma crc_byte_bits: "crc_byte n v crc = foldl crc_round crc (map (bit v) [0..<n])"
proof (induction n arbitrary: v crc)
  case (Suc n)
  have "map (bit v) [0..<Suc n] = bit v 0 # map (bit (drop_bit 1 v)) [0..<n]"
    by (simp add: upt_conv_Cons map_Suc_upt [symmetric] bit_drop_bit_eq del: upt_Suc)
  then show ?case using Suc by simp
qed simp

lemma crc_loop_bits: "crc_loop crc data = foldl crc_round crc (crc_bits data)"
  by (induction data arbitrary: crc) (simp_all add: crc_loop_def crc_bits_def crc_byte_bits del: crc_byte.simps)

text \<open>The polynomial has its top bit set: the top bit of the new remainder tells whether it was added.\<close>

lemma crc_round_top:
  assumes "k \<le> 15" and "drop_bit k (crc_round x a) = drop_bit k (crc_round y b)"
  shows "drop_bit (Suc k) x = drop_bit (Suc k) y \<and> ((a \<noteq> bit x 0) = (b \<noteq> bit y 0))"
proof -
  have e: "bit (crc_round z c) j \<longleftrightarrow> bit z (Suc j) \<noteq> ((c \<noteq> bit z 0) \<and> bit (0x8408 :: u16) j)" for z c j
    by (simp add: crc_round_def bit_xor_iff bit_drop_bit_eq)
  have q: "bit (crc_round x a) j = bit (crc_round y b) j" if "k \<le> j" for j
    using arg_cong [OF assms(2), of "\<lambda>w. bit w (j - k)"] that by (simp only: bit_drop_bit_eq o_apply le_add_diff_inverse)
  have "bit (0x8408 :: u16) 15" by simp
  moreover have "\<not> bit z 16" for z :: u16 by (auto dest: bit_imp_le_length)
  ultimately have d: "(a \<noteq> bit x 0) = (b \<noteq> bit y 0)" using q [of 15] assms(1) unfolding e by simp
  have "bit x (Suc j) = bit y (Suc j)" if "k \<le> j" for j using q [OF that] d unfolding e by blast
  then have "drop_bit (Suc k) x = drop_bit (Suc k) y"
    by (intro bit_word_eqI) (simp only: bit_drop_bit_eq o_apply add_Suc le_add1)
  with d show ?thesis by blast
qed

lemma crc_rounds_top:
  assumes "length as = length bs" and "k + length as \<le> 16"
    and "drop_bit k (foldl crc_round x as) = drop_bit k (foldl crc_round y bs)"
  shows "drop_bit (k + length as) x = drop_bit (k + length as) y"
  using assms
proof (induction as bs arbitrary: x y rule: list_induct2)
  case (Cons a as b bs)
  then have "drop_bit (k + length as) (crc_round x a) = drop_bit (k + length as) (crc_round y b)" by simp
  then show ?case using crc_round_top [of "k + length as" x a y b] Cons.prems by simp
qed simp

lemma crc_rounds_inj:
  assumes "length as = length bs" and "length as \<le> 16"
    and "foldl crc_round x as = foldl crc_round x bs"
  shows "as = bs"
  using assms
proof (induction as bs arbitrary: x rule: list_induct2)
  case (Cons a as b bs)
  have "drop_bit (0 + length as) (crc_round x a) = drop_bit (0 + length as) (crc_round x b)"
    by (rule crc_rounds_top) (use Cons in auto)
  then have "a = b" using crc_round_top [of "length as" x a x b] Cons.prems by auto
  then show ?case using Cons by simp
qed simp

interpretation crc_mix: mixing crc_round
proof
  fix s s' :: u16 and c c' :: bool
  show "s = s'" if "crc_round s c = crc_round s' c"
  proof -
    have d: "drop_bit 1 s = drop_bit 1 s'" "(c \<noteq> bit s 0) = (c \<noteq> bit s' 0)"
      using crc_round_top [of 0 s c s' c] that by auto
    have b: "bit s 0 = bit s' 0" using d(2) by blast
    have "bit s (1 + j) = bit s' (1 + j)" for j
      using arg_cong [OF d(1), of "\<lambda>w. bit w j"] by (simp only: bit_drop_bit_eq o_apply)
    with b have b: "bit s 0 = bit s' 0" "bit s (Suc j) = bit s' (Suc j)" for j by simp_all
    have "bit s j = bit s' j" for j using b by (cases j) simp_all
    then show ?thesis by (intro bit_word_eqI) simp
  qed
  show "c = c'" if "crc_round s c = crc_round s c'" using crc_round_top [of 0 s c s c'] that by auto
qed

lemma crc_bits_append [simp]: "crc_bits (xs @ ys) = crc_bits xs @ crc_bits ys"
  by (simp add: crc_bits_def)

lemma length_crc_bits [simp]: "length (crc_bits xs) = 8 * length xs"
  by (induction xs) (simp_all add: crc_bits_def)

lemma crc_bits_inj: "length xs = length ys \<Longrightarrow> crc_bits xs = crc_bits ys \<Longrightarrow> xs = ys"
proof (induction xs ys rule: list_induct2)
  case (Cons x xs y ys)
  then have "map (bit x) [0..<8] = map (bit y) [0..<8]" and "crc_bits xs = crc_bits ys"
    by (simp_all add: crc_bits_def del: upt_rec_numeral)
  then show ?case using Cons.IH by (auto intro!: bit_word_eqI simp: map_eq_conv simp del: upt_rec_numeral)
qed simp

lemma byte_swap_inj: "(push_bit 8 x OR drop_bit 8 x :: u16) = push_bit 8 y OR drop_bit 8 y \<Longrightarrow> x = y"
proof (rule bit_word_eqI)
  fix n
  assume e: "(push_bit 8 x OR drop_bit 8 x :: u16) = push_bit 8 y OR drop_bit 8 y" and n: "n < LENGTH(16)"
  have b: "bit (push_bit 8 z OR drop_bit 8 z) k \<longleftrightarrow> (8 \<le> k \<and> k < 16 \<and> bit z (k - 8)) \<or> bit z (8 + k)" for z :: u16 and k
    by (auto simp: bit_or_iff bit_push_bit_iff bit_drop_bit_eq)
  show "bit x n = bit y n"
  proof (cases "n < 8")
    case True
    then show ?thesis using arg_cong [OF e, of "\<lambda>w. bit w (n + 8)"] unfolding b
      by (auto dest: bit_imp_le_length)
  next
    case False
    then show ?thesis using arg_cong [OF e, of "\<lambda>w. bit w (n - 8)"] n unfolding b by auto
  qed
qed

text \<open>
  C19: the checksum detects every burst error of up to sixteen bits that lies in two neighbouring
  bytes: two messages that agree except in at most two consecutive bytes have different checksums.
\<close>

theorem crc16_detects_bursts:
  assumes "length mid = length mid'" and "0 < length mid" and "length mid \<le> 2"
  shows "ccitt_crc16 (pre @ mid @ post @ r) (length (pre @ mid @ post))
      = ccitt_crc16 (pre @ mid' @ post @ r') (length (pre @ mid' @ post)) \<longleftrightarrow> mid = mid'"
proof -
  define F where "F m = crc_loop (NOT 0) (pre @ m @ post)" for m
  have v: "ccitt_crc16 (pre @ m @ post @ q) (length (pre @ m @ post))
      = Some (push_bit 8 (NOT (F m)) OR drop_bit 8 (NOT (F m)))" if "0 < length m" for m q
    using that by (simp add: ccitt_crc16_def Let_def F_def)
  have "m = m'" if "F m = F m'" and "length m = length m'" and "length m \<le> 2" for m m'
  proof -
    have "foldl crc_round (foldl crc_round (NOT 0) (crc_bits pre)) (crc_bits m)
        = foldl crc_round (foldl crc_round (NOT 0) (crc_bits pre)) (crc_bits m')"
      using that(1) by (auto simp: F_def crc_loop_bits intro: crc_mix.fold_inj)
    then have "crc_bits m = crc_bits m'" using that by (intro crc_rounds_inj) simp_all
    then show ?thesis using that crc_bits_inj by blast
  qed
  then have "F mid = F mid' \<longleftrightarrow> mid = mid'" using assms by blast
  moreover have w: "push_bit 8 (NOT x) OR drop_bit 8 (NOT x) = push_bit 8 (NOT y) OR drop_bit 8 (NOT y) \<longleftrightarrow> x = y"
    for x y :: u16 using byte_swap_inj [of "NOT x" "NOT y"] by (auto simp only: bit.compl_eq_compl_iff)
  moreover have "0 < length mid'" using assms by simp
  ultimately show ?thesis by (simp only: v [OF assms(2)] v [OF \<open>0 < length mid'\<close>] option.inject)
qed

theorem crc16_detects_bursts_witness:
  "ccitt_crc16 [1, 2, 3, 4] 4 \<noteq> ccitt_crc16 [1, 7, 8, 4] 4"
proof -
  have e: "(4 :: nat) = Suc (Suc (Suc (Suc 0)))" by simp
  show ?thesis unfolding e using crc16_detects_bursts [of "[2, 3]" "[7, 8]" "[1]" "[4]" "[]" "[]"] by simp
qed

end
