(* ===== verification/Cpu_Prime.thy ===== *)
theory Cpu_Prime
  imports Cpu_Base
begin

text \<open>
  Primes: trial division by numbers next to multiples of six, as is_prime of stress-cpu.c and
  stress_is_prime64 of helper.c do it, and the bit array sieve of stress-cpu.c.  All values stay
  far below the width of their C types (the bound of a loop is the square root of a 32 bit value, the
  sieve has ten million bits), so they are natural numbers here; the array is a list of words.
\<close>

section \<open>Specification\<close>

definition prim :: "nat \<Rightarrow> bool" where
  "prim n \<longleftrightarrow> 2 \<le> n \<and> (\<forall>d \<in> {2..<n}. \<not> d dvd n)"

text \<open>The integer part of the square root, as the conversion of sqrt to an integer gives it.\<close>

primrec isqrt :: "nat \<Rightarrow> nat" where
  "isqrt 0 = 0"
| "isqrt (Suc n) = (if Suc (isqrt n) * Suc (isqrt n) \<le> Suc n then Suc (isqrt n) else isqrt n)"

lemma isqrt_bounds: "isqrt n * isqrt n \<le> n \<and> n < Suc (isqrt n) * Suc (isqrt n)"
  by (induction n) auto

lemma isqrt_le_iff: "m \<le> isqrt n \<longleftrightarrow> m * m \<le> n"
proof
  assume "m \<le> isqrt n"
  then have "m * m \<le> isqrt n * isqrt n" by (intro mult_le_mono)
  then show "m * m \<le> n" using isqrt_bounds [of n] by linarith
next
  assume a: "m * m \<le> n"
  show "m \<le> isqrt n"
  proof (rule ccontr)
    assume "\<not> m \<le> isqrt n"
    then have "Suc (isqrt n) * Suc (isqrt n) \<le> m * m" by (intro mult_le_mono) auto
    then show False using a isqrt_bounds [of n] by linarith
  qed
qed

text \<open>The least divisor above one is prime, and of a composite it is at most the square root.\<close>

lemma least_divisor:
  assumes "2 \<le> n"
  obtains q where "prim q" and "q dvd n" and "prim n \<or> q * q \<le> n"
proof -
  define q where "q = (LEAST d. 2 \<le> d \<and> d dvd n)"
  have q: "2 \<le> q" "q dvd n" using LeastI [of "\<lambda>d. 2 \<le> d \<and> d dvd n" n] assms by (auto simp: q_def)
  have least: "q \<le> d" if "2 \<le> d" "d dvd n" for d
    using Least_le [of "\<lambda>d. 2 \<le> d \<and> d dvd n" d] that by (simp add: q_def)
  have "\<not> d dvd q" if "d \<in> {2..<q}" for d using least [of d] that q(2) dvd_trans [of d q n] by auto
  then have "prim q" unfolding prim_def using q by blast
  moreover have "prim n \<or> q * q \<le> n"
  proof (rule disjCI)
    assume "\<not> q * q \<le> n"
    show "prim n"
    proof (rule ccontr)
      assume "\<not> prim n"
      then obtain d where d: "2 \<le> d" "d < n" "d dvd n" using assms by (auto simp: prim_def)
      then obtain e where e: "n = d * e" by (auto elim: dvdE)
      then have "2 \<le> e" using d assms by (cases e) (auto simp: Suc_le_eq)
      then have "q \<le> e" "q \<le> d" using least d e by auto
      then have "q * q \<le> d * e" by (intro mult_le_mono)
      then show False using \<open>\<not> q * q \<le> n\<close> e by simp
    qed
  qed
  ultimately show thesis using q that by blast
qed

lemma prim_mod6:
  assumes "prim q" and "3 < q"
  shows "q mod 6 = 1 \<or> q mod 6 = 5"
proof -
  have "\<not> 2 dvd q" "\<not> 3 dvd q" using assms by (auto simp: prim_def)
  then show ?thesis by presburger
qed

section \<open>Trial division\<close>

function trial_loop :: "nat \<Rightarrow> nat \<Rightarrow> nat \<Rightarrow> bool" where
  "trial_loop n i mx =
    (if i < mx
     then if n mod i = 0 \<or> n mod (i + 2) = 0 then False else trial_loop n (i + 6) mx
     else True)"
  by auto
termination by (relation "measure (\<lambda>(n, i, mx). mx - i)") auto

declare trial_loop.simps [simp del]

definition is_prime :: "nat \<Rightarrow> bool" where
  "is_prime n =
    (if n \<le> 3 then 2 \<le> n
     else if n mod 2 = 0 \<or> n mod 3 = 0 then False
     else trial_loop n 5 (isqrt n + 1))"

definition stress_cpu_prime :: "u64 \<Rightarrow> cpu_st \<Rightarrow> cpu_st" where
  "stress_cpu_prime flags st =
    (let nprimes = fold (\<lambda>i np. if is_prime i then np + 1 else np) [0..<1000000] (0 :: u32)
     in cpu_verify flags (nprimes \<noteq> 78498) ''prime'' st)"

lemma trial_loop_iff:
  "trial_loop n i mx \<longleftrightarrow> (\<forall>k. i + 6 * k < mx \<longrightarrow> \<not> (i + 6 * k) dvd n \<and> \<not> (i + 6 * k + 2) dvd n)"
proof (induction n i mx rule: trial_loop.induct)
  case (1 n i mx)
  let ?P = "\<lambda>k. i + 6 * k < mx \<longrightarrow> \<not> (i + 6 * k) dvd n \<and> \<not> (i + 6 * k + 2) dvd n"
  have s: "(\<forall>k. ?P k) \<longleftrightarrow> ?P 0 \<and> (\<forall>k. ?P (Suc k))" by (metis nat.exhaust)
  show ?case
  proof (cases "i < mx \<and> \<not> (n mod i = 0 \<or> n mod (i + 2) = 0)")
    case True
    then have "trial_loop n i mx \<longleftrightarrow> (\<forall>k. ?P (Suc k))"
      using 1 by (subst trial_loop.simps) (simp add: add.assoc)
    moreover have "?P 0" using True by (simp add: mod_eq_0_iff_dvd)
    ultimately show ?thesis using s by blast
  next
    case False
    then show ?thesis by (subst trial_loop.simps) (auto simp: mod_eq_0_iff_dvd intro!: exI [of _ 0])
  qed
qed

lemma is_prime_prim: "is_prime n \<longleftrightarrow> prim n"
proof (cases "n \<le> 3")
  case True
  then consider "n = 0" | "n = 1" | "n = 2" | "n = 3" by linarith
  moreover have "{2..<3 :: nat} = {2}" by auto
  ultimately show ?thesis by cases (simp_all add: is_prime_def prim_def)
next
  case False
  show ?thesis
  proof (cases "2 dvd n \<or> 3 dvd n")
    case True
    then have "\<not> prim n" using False by (auto simp: prim_def intro: bexI [of _ 2] bexI [of _ 3])
    then show ?thesis using True False by (auto simp: is_prime_def mod_eq_0_iff_dvd)
  next
    case odd: False
    have "is_prime n \<longleftrightarrow> trial_loop n 5 (isqrt n + 1)"
      using odd False by (simp add: is_prime_def mod_eq_0_iff_dvd)
    also have "\<dots> \<longleftrightarrow> prim n"
    proof
      assume p: "prim n"
      have "\<not> (5 + 6 * k) dvd n \<and> \<not> (5 + 6 * k + 2) dvd n" if "5 + 6 * k < isqrt n + 1" for k
      proof -
        have "5 + 6 * k \<le> isqrt n" using that by simp
        then have "(5 + 6 * k) * (5 + 6 * k) \<le> n" by (simp only: isqrt_le_iff)
        moreover have "5 + 6 * k + 2 < (5 + 6 * k) * (5 + 6 * k)" by (simp add: algebra_simps)
        ultimately have "5 + 6 * k + 2 < n" by linarith
        then show ?thesis using p by (auto simp: prim_def)
      qed
      then show "trial_loop n 5 (isqrt n + 1)" by (simp only: trial_loop_iff) blast
    next
      assume t: "trial_loop n 5 (isqrt n + 1)"
      obtain q where q: "prim q" "q dvd n" "prim n \<or> q * q \<le> n" using least_divisor [of n] False by auto
      have "False" if "q * q \<le> n"
      proof -
        have "q \<noteq> 2" "q \<noteq> 3" "2 \<le> q" using q odd by (auto simp: prim_def)
        then have "3 < q" by linarith
        have le: "q \<le> isqrt n" using that by (simp only: isqrt_le_iff)
        have "(\<exists>k. q = 5 + 6 * k) \<or> (\<exists>k. q = 5 + 6 * k + 2)" using prim_mod6 [OF q(1) \<open>3 < q\<close>] \<open>3 < q\<close> by presburger
        then obtain k where k: "q = 5 + 6 * k \<or> q = 5 + 6 * k + 2" by blast
        then have "5 + 6 * k < isqrt n + 1" using le by auto
        then show False using t k q(2) unfolding trial_loop_iff by blast
      qed
      then show "prim n" using q(3) by blast
    qed
    finally show ?thesis .
  qed
qed

text \<open>
  C33: trial division decides primality, and the prime stressor counts the primes below a million:
  its verdict is the comparison of that number with the constant of the source.
\<close>

theorem prime_stressor_counts:
  "(is_prime n \<longleftrightarrow> prim n)
    \<and> stress_cpu_prime flags st = cpu_verify flags (card {p. p < 1000000 \<and> prim p} \<noteq> 78498) ''prime'' st"
proof
  have c: "fold (\<lambda>i np. if is_prime i then np + 1 else np) [0..<m] (s :: u32) = s + of_nat (card {p. p < m \<and> prim p})" for m s
  proof (induction m)
    case (Suc m)
    have "{p. p < Suc m \<and> prim p} = (if prim m then insert m {p. p < m \<and> prim p} else {p. p < m \<and> prim p})"
      by (auto simp: less_Suc_eq)
    then show ?case using Suc by (simp add: is_prime_prim)
  qed simp
  define c where "c = card {p. p < 1000000 \<and> prim p}"
  have "c \<le> card {..<1000000 :: nat}" unfolding c_def by (rule card_mono) auto
  then have "c \<le> 1000000" by simp
  then have "(of_nat c :: u32) = 78498 \<longleftrightarrow> c = 78498"
    using eq_of_nat_iff_unat [of c "78498 :: u32"] by auto
  then show "stress_cpu_prime flags st = cpu_verify flags (card {p. p < 1000000 \<and> prim p} \<noteq> 78498) ''prime'' st"
    unfolding stress_cpu_prime_def c Let_def c_def [symmetric] by simp
qed (rule is_prime_prim)

section \<open>The sieve\<close>

definition SIEVE_SIZE :: nat where "SIEVE_SIZE = 10000000"

definition STRESS_GETBIT :: "u32 list \<Rightarrow> nat \<Rightarrow> u32" where
  "STRESS_GETBIT a i = (a ! (i div 32)) AND push_bit (i mod 32) 1"

definition STRESS_CLRBIT :: "u32 list \<Rightarrow> nat \<Rightarrow> u32 list" where
  "STRESS_CLRBIT a i = a[i div 32 := (a ! (i div 32)) AND NOT (push_bit (i mod 32) 1)]"

text \<open>The inner loop; its stride is at least two whenever the outer loop runs it.\<close>

function sieve_strike :: "nat \<Rightarrow> nat \<Rightarrow> nat \<Rightarrow> u32 list \<Rightarrow> u32 list" where
  "sieve_strike sz i j sieve =
    (if j < sz \<and> 0 < i then sieve_strike sz i (j + i) (STRESS_CLRBIT sieve j) else sieve)"
  by auto
termination by (relation "measure (\<lambda>(sz, i, j, sieve). sz - j)") auto

declare sieve_strike.simps [simp del]

definition sieve_outer :: "nat \<Rightarrow> nat list \<Rightarrow> u32 list \<Rightarrow> u32 list" where
  "sieve_outer sz ixs sieve =
    fold (\<lambda>i sieve. if STRESS_GETBIT sieve i \<noteq> 0 then sieve_strike sz i (i * i) sieve else sieve) ixs sieve"

definition sieve_run :: "nat \<Rightarrow> nat \<Rightarrow> u32 list" where
  "sieve_run sz nsqrt = sieve_outer sz [2..<nsqrt] (replicate ((sz + 31) div 32) (- 1))"

definition stress_cpu_sieve :: "u64 \<Rightarrow> cpu_st \<Rightarrow> cpu_st" where
  "stress_cpu_sieve flags st =
    (let sieve = sieve_run SIEVE_SIZE (isqrt SIEVE_SIZE);
         j = fold (\<lambda>i j. if STRESS_GETBIT sieve i \<noteq> 0 then j + 1 else j) [2..<SIEVE_SIZE] (0 :: u32)
     in cpu_verify flags (j \<noteq> 664579) ''sieve'' st)"

definition marked :: "u32 list \<Rightarrow> nat \<Rightarrow> bool" where
  "marked a i \<longleftrightarrow> bit (a ! (i div 32)) (i mod 32)"

lemma getbit_marked: "STRESS_GETBIT a i \<noteq> 0 \<longleftrightarrow> marked a i"
proof -
  have "bit (STRESS_GETBIT a i) k \<longleftrightarrow> k = i mod 32 \<and> marked a i" for k
    by (auto simp: STRESS_GETBIT_def marked_def bit_and_iff bit_exp_iff dest: bit_imp_le_length)
  then show ?thesis by (metis bit_0_eq bot_apply bot_bool_def bit_eqI)
qed

lemma clrbit_marked:
  assumes "i div 32 < length a"
  shows "marked (STRESS_CLRBIT a i) k \<longleftrightarrow> marked a k \<and> k \<noteq> i"
proof (cases "k div 32 = i div 32")
  case True
  have "k = i \<longleftrightarrow> k mod 32 = i mod 32" using True by (metis div_mult_mod_eq)
  moreover have "bit (push_bit (i mod 32) (1 :: u32)) (k mod 32) \<longleftrightarrow> k mod 32 = i mod 32"
    by (auto simp: bit_exp_iff)
  ultimately show ?thesis using assms True
    by (simp add: STRESS_CLRBIT_def marked_def bit_and_iff bit_not_iff)
next
  case False
  then show ?thesis by (auto simp: STRESS_CLRBIT_def marked_def)
qed

lemma length_clrbit [simp]: "length (STRESS_CLRBIT a i) = length a"
  by (simp add: STRESS_CLRBIT_def)

lemma sieve_strike_marked:
  assumes "0 < i" and "sz \<le> 32 * length a"
  shows "length (sieve_strike sz i j a) = length a \<and>
    (marked (sieve_strike sz i j a) k \<longleftrightarrow> marked a k \<and> \<not> (k < sz \<and> j \<le> k \<and> i dvd k - j))"
  using assms
proof (induction sz i j a rule: sieve_strike.induct)
  case (1 sz i j a)
  show ?case
  proof (cases "j < sz")
    case True
    have "j div 32 < length a" using True 1 by (simp add: less_mult_imp_div_less mult.commute)
    then have c: "marked (STRESS_CLRBIT a j) k \<longleftrightarrow> marked a k \<and> k \<noteq> j" for k by (rule clrbit_marked)
    have "k = j \<or> (j + i \<le> k \<and> i dvd k - (j + i)) \<longleftrightarrow> j \<le> k \<and> i dvd k - j"
    proof -
      have "i dvd k - (j + i) \<longleftrightarrow> i dvd k - j" if "j + i \<le> k"
        using that by (metis diff_diff_left dvd_minus_self le_diff_conv2 add.commute add_leD1 not_less)
      moreover have "j + i \<le> k" if "j < k" "i dvd k - j" using that dvd_imp_le [of i "k - j"] by linarith
      ultimately show ?thesis using 1(2) by force
    qed
    then show ?thesis using 1 True c [of k] by (subst (1 2) sieve_strike.simps) auto
  next
    case False
    then show ?thesis by (subst (1 2) sieve_strike.simps) auto
  qed
qed


text \<open>After the rounds below \<open>m\<close>, what is struck out is what a prime below \<open>m\<close> divides properly.\<close>

definition struck :: "nat \<Rightarrow> nat \<Rightarrow> bool" where
  "struck m k \<longleftrightarrow> (\<exists>p. prim p \<and> p < m \<and> p * p \<le> k \<and> p dvd k)"

lemma struck_self: "2 \<le> m \<Longrightarrow> struck m m \<longleftrightarrow> \<not> prim m"
proof
  assume m: "2 \<le> m" "struck m m"
  then show "\<not> prim m" by (auto simp: struck_def prim_def)
next
  assume m: "2 \<le> m" "\<not> prim m"
  obtain q where q: "prim q" "q dvd m" "q * q \<le> m" using least_divisor [OF m(1)] m(2) by blast
  have "q \<noteq> m" "q \<le> m" using m q dvd_imp_le [of q m] by auto
  then show "struck m m" using q by (auto simp: struck_def)
qed

lemma sieve_outer_marked:
  assumes "m \<le> sz" and "sz \<le> 32 * length a" and "\<And>k. k < sz \<Longrightarrow> marked a k"
  shows "length (sieve_outer sz [2..<m] a) = length a
    \<and> (\<forall>k < sz. 2 \<le> k \<longrightarrow> marked (sieve_outer sz [2..<m] a) k = (\<not> struck m k))"
  using assms(1)
proof (induction m)
  case 0
  then show ?case using assms by (simp add: sieve_outer_def struck_def)
next
  case (Suc m)
  define b where "b = sieve_outer sz [2..<m] a"
  have b: "length b = length a" "\<And>k. k < sz \<Longrightarrow> 2 \<le> k \<Longrightarrow> marked b k = (\<not> struck m k)"
    using Suc by (auto simp: b_def)
  show ?case
  proof (cases "2 \<le> m")
    case True
    have o: "sieve_outer sz [2..<Suc m] a = (if marked b m then sieve_strike sz m (m * m) b else b)"
      using True by (simp add: sieve_outer_def b_def getbit_marked)
    have pm: "marked b m = prim m" using b(2) [of m] struck_self [OF True] Suc.prems True by simp
    have "marked (sieve_outer sz [2..<Suc m] a) k = (\<not> struck (Suc m) k)" if "k < sz" "2 \<le> k" for k
    proof -
      have "m dvd k - m * m \<longleftrightarrow> m dvd k" if "m * m \<le> k" using that dvd_diffD [of m k "m * m"] dvd_diff_nat [of m k "m * m"] by auto
      moreover have "struck (Suc m) k \<longleftrightarrow> struck m k \<or> (prim m \<and> m * m \<le> k \<and> m dvd k)"
        by (auto simp: struck_def less_Suc_eq)
      ultimately show ?thesis
        using sieve_strike_marked [of m sz b "m * m" k] b(1) b(2) [OF that] that True assms(2) unfolding o pm by auto
    qed
    moreover have "length (sieve_outer sz [2..<Suc m] a) = length a"
      using sieve_strike_marked [of m sz b "m * m"] b(1) True assms(2) unfolding o by auto
    ultimately show ?thesis by blast
  next
    case False
    then have "struck (Suc m) k = struck m k" for k by (auto simp: struck_def prim_def)
    moreover have "[2..<Suc m] = [2..<m]" using False by auto
    ultimately show ?thesis using b by (simp only: b_def) blast
  qed
qed

lemma sieve_run_prim:
  assumes "nsqrt \<le> sz" and "\<And>p. prim p \<Longrightarrow> p * p < sz \<Longrightarrow> p < nsqrt" and "2 \<le> k" and "k < sz"
  shows "STRESS_GETBIT (sieve_run sz nsqrt) k \<noteq> 0 \<longleftrightarrow> prim k"
proof -
  let ?a = "replicate ((sz + 31) div 32) (- 1 :: u32)"
  have s: "sz \<le> 32 * length ?a" by simp
  have "marked ?a j" if "j < sz" for j
  proof -
    have "j div 32 < (sz + 31) div 32" using that by linarith
    then show ?thesis by (simp add: marked_def)
  qed
  then have "marked (sieve_run sz nsqrt) k \<longleftrightarrow> \<not> struck nsqrt k"
    using sieve_outer_marked [OF assms(1) s] assms by (simp add: sieve_run_def)
  moreover have "struck nsqrt k \<longleftrightarrow> \<not> prim k"
  proof
    show "\<not> prim k" if "struck nsqrt k"
    proof -
      obtain p where p: "prim p" "p * p \<le> k" "p dvd k" using \<open>struck nsqrt k\<close> by (auto simp: struck_def)
      have "2 \<le> p" using p by (simp add: prim_def)
      then have "p < p * p" by simp
      then have "p < k" using p(2) by (rule order.strict_trans2)
      then have "p \<in> {2..<k}" using \<open>2 \<le> p\<close> by simp
      then show ?thesis using p by (auto simp only: prim_def)
    qed
    show "struck nsqrt k" if n: "\<not> prim k"
    proof -
      obtain q where q: "prim q" "q dvd k" "q * q \<le> k" using least_divisor [OF assms(3)] n by blast
      then have "q < nsqrt" using assms(2) [of q] assms(4) by simp
      then show ?thesis using q by (auto simp: struck_def)
    qed
  qed
  ultimately show ?thesis by (simp add: getbit_marked)
qed

lemma isqrt_sieve: "isqrt SIEVE_SIZE = 3162"
proof (rule antisym)
  show "isqrt SIEVE_SIZE \<le> 3162" using isqrt_le_iff [of 3163 SIEVE_SIZE] by (simp add: SIEVE_SIZE_def)
  show "3162 \<le> isqrt SIEVE_SIZE" using isqrt_le_iff [of 3162 SIEVE_SIZE] by (simp add: SIEVE_SIZE_def)
qed

text \<open>
  C32: although the outer loop stops before the square root itself, at the size it is used with the
  sieve leaves exactly the bits of the primes set, and the stressor compares the number of
  primes below ten million with the constant of the source.
\<close>

theorem sieve_stressor_counts:
  "(\<forall>k \<in> {2..<SIEVE_SIZE}. STRESS_GETBIT (sieve_run SIEVE_SIZE (isqrt SIEVE_SIZE)) k \<noteq> 0 \<longleftrightarrow> prim k)
    \<and> stress_cpu_sieve flags st = cpu_verify flags (card {p. p < SIEVE_SIZE \<and> prim p} \<noteq> 664579) ''sieve'' st"
proof -
  define a where "a = sieve_run SIEVE_SIZE (isqrt SIEVE_SIZE)"
  have "p < 3162" if "prim p" "p * p < SIEVE_SIZE" for p
  proof -
    have "p \<le> isqrt SIEVE_SIZE" using that by (simp only: isqrt_le_iff)
    moreover have "\<not> prim 3162" by (auto simp: prim_def intro!: bexI [of _ 2])
    ultimately show ?thesis using that(1) unfolding isqrt_sieve by (cases "p = 3162") auto
  qed
  then have g: "STRESS_GETBIT a k \<noteq> 0 \<longleftrightarrow> prim k" if "2 \<le> k" "k < SIEVE_SIZE" for k
    unfolding a_def isqrt_sieve by (intro sieve_run_prim) (use that in \<open>auto simp: SIEVE_SIZE_def\<close>)
  have c: "fold (\<lambda>i j. if STRESS_GETBIT a i \<noteq> 0 then j + 1 else j) [2..<m] (0 :: u32) = of_nat (card {p. p < m \<and> prim p})"
    if "m \<le> SIEVE_SIZE" for m
    using that
  proof (induction m)
    case (Suc m)
    have e: "{p. p < Suc m \<and> prim p} = (if prim m then insert m {p. p < m \<and> prim p} else {p. p < m \<and> prim p})"
      by (auto simp: less_Suc_eq)
    show ?case
    proof (cases "2 \<le> m")
      case True
      then show ?thesis using Suc g [of m] e by simp
    next
      case False
      then have "\<not> prim m" by (simp add: prim_def)
      then show ?thesis using Suc False e by simp
    qed
  qed simp
  define n where "n = card {p. p < SIEVE_SIZE \<and> prim p}"
  have "n \<le> card {..<SIEVE_SIZE}" unfolding n_def by (rule card_mono) auto
  then have "n \<le> 10000000" by (simp add: SIEVE_SIZE_def)
  then have "(of_nat n :: u32) = 664579 \<longleftrightarrow> n = 664579"
    using eq_of_nat_iff_unat [of n "664579 :: u32"] by auto
  then have "stress_cpu_sieve flags st = cpu_verify flags (n \<noteq> 664579) ''sieve'' st"
    unfolding stress_cpu_sieve_def Let_def a_def [symmetric] c [OF order_refl] n_def [symmetric] by simp
  then show ?thesis using g unfolding a_def n_def by auto
qed

theorem sieve_stressor_counts_witness:
  "STRESS_GETBIT (sieve_run SIEVE_SIZE (isqrt SIEVE_SIZE)) 9 = 0"
proof -
  have "\<not> prim 9" by (auto simp: prim_def intro!: bexI [of _ 3])
  moreover have "(9 :: nat) \<in> {2..<SIEVE_SIZE}" by (simp add: SIEVE_SIZE_def)
  ultimately show ?thesis using sieve_stressor_counts by blast
qed

end
