(* ===== verification/Cpu_Arith.thy ===== *)
theory Cpu_Arith
  imports Cpu_Base
begin

text \<open>
  The integer stressors of stress-cpu.c: busy loop, greatest common divisor, pseudo-random sum,
  integer operations at each width, Fibonacci numbers, Ackermann function, jumps, Towers of Hanoi
  and the dithering of a grey scale image.
\<close>

section \<open>Loops and recursive functions\<close>

definition stress_cpu_loop :: "u64 \<Rightarrow> cpu_st \<Rightarrow> cpu_st" where
  "stress_cpu_loop flags st =
    (let i_sum = fold (\<lambda>i s. s + of_nat i) [0..<16384] (0 :: u32)
     in cpu_verify flags (i_sum \<noteq> 134209536) ''loop'' st)"

function gcd_loop :: "u32 \<Rightarrow> u32 \<Rightarrow> u32" where
  "gcd_loop a b = (if b \<noteq> 0 then gcd_loop b (a mod b) else a)"
  by auto
termination
  by (relation "measure (\<lambda>(a, b). unat b)") (simp_all add: unat_mod word_neq_0_conv unat_gt_0)

declare gcd_loop.simps [simp del]

definition stress_cpu_gcd :: "u64 \<Rightarrow> cpu_st \<Rightarrow> cpu_st" where
  "stress_cpu_gcd flags st =
    (let i_sum = fold (\<lambda>i s. s + gcd_loop (of_nat i) (of_nat i mod (3 + (1997 XOR of_nat i)))) [0..<16384] (0 :: u32)
     in cpu_verify flags (i_sum \<noteq> 63000868) ''gcd'' st)"

definition stress_cpu_rand :: "u64 \<Rightarrow> cpu_st \<Rightarrow> cpu_st" where
  "stress_cpu_rand flags st =
    (case cdraw (draws mwc32 16384) (MWC_SEED st) of (vs, st) \<Rightarrow>
       cpu_verify flags (fold (\<lambda>v s. s + v) vs 0 \<noteq> 0xc253698c) ''rand'' st)"

partial_function (option) fibonacci_loop :: "u64 \<Rightarrow> u64 \<Rightarrow> u64 option" where
  "fibonacci_loop f1 f2 =
    (let fn = f1 + f2; f1 = f2; f2 = fn
     in if fn AND 0x8000000000000000 = 0 then fibonacci_loop f1 f2 else Some fn)"

definition stress_cpu_fibonacci :: "u64 \<Rightarrow> cpu_st \<Rightarrow> cpu_st option" where
  "stress_cpu_fibonacci flags st =
    (case fibonacci_loop 0 1 of
       None \<Rightarrow> None
     | Some fn \<Rightarrow> Some (cpu_verify flags (0xa94fad42221f2702 \<noteq> fn) ''fibonacci'' st))"

function ackermann :: "u32 \<Rightarrow> u32 \<Rightarrow> u32" where
  "ackermann m n =
    (if m = 0 then n + 1
     else if n = 0 then ackermann (m - 1) 1
     else ackermann (m - 1) (ackermann m (n - 1)))"
  by auto
termination
  by (relation "measures [\<lambda>(m, n). unat m, \<lambda>(m, n). unat n]") (simp_all add: unat_minus_one unat_gt_0 word_neq_0_conv)

declare ackermann.simps [simp del]

definition stress_cpu_ackermann :: "u64 \<Rightarrow> cpu_st \<Rightarrow> cpu_st" where
  "stress_cpu_ackermann flags st = cpu_verify flags (ackermann 3 10 \<noteq> 0x1ffd) ''ackermann'' st"

definition JMP :: "bool \<Rightarrow> int \<Rightarrow> int \<Rightarrow> int \<Rightarrow> (int \<times> int list) \<Rightarrow> (int \<times> int list)" where
  "JMP c a b i st = (let v = (if c then a else b) in (v, snd st @ [v + i]))"

definition jmp_three :: "int \<Rightarrow> (int \<times> int list) \<Rightarrow> (int \<times> int list)" where
  "jmp_three i st =
    (let st = JMP (fst st = 1) 2 3 i st;
         st = JMP (fst st > 2) 0 1 i st
     in JMP (fst st < 1) 1 0 i st)"

text \<open>The values handed to \<open>uint64_put\<close>, in order.\<close>

definition stress_cpu_jmp :: "int list" where
  "stress_cpu_jmp = snd (fold (\<lambda>i st. (jmp_three i ^^ 4) st) [1..999] (0, []))"

function hanoi :: "u16 \<Rightarrow> char \<Rightarrow> char \<Rightarrow> char \<Rightarrow> u32" where
  "hanoi n p1 p2 p3 =
    (if n = 0 then 1
     else let m = hanoi (n - 1) p1 p3 p2 in m + hanoi (n - 1) p3 p2 p1)"
  by auto
termination
  by (relation "measure (\<lambda>(n, p1, p2, p3). unat n)") (simp_all add: unat_minus_one unat_gt_0 word_neq_0_conv)

declare hanoi.simps [simp del]

definition stress_cpu_hanoi :: "u64 \<Rightarrow> cpu_st \<Rightarrow> u32 \<times> cpu_st" where
  "stress_cpu_hanoi flags st =
    (let n = hanoi 20 (CHR ''X'') (CHR ''Y'') (CHR ''Z'')
     in (n, cpu_verify flags (n \<noteq> 1048576) ''hanoi'' st))"

section \<open>Integer operations at a given width\<close>

text \<open>
  The macros are instantiated at 8, 16, 32, 64 and 128 bits; narrow operands are widened for
  each operation and truncated by the assignment, which is arithmetic at their own width.
\<close>

definition int_C1 :: u64 where "int_C1 = 0xf0f0f0f0f0f0f0f0"
definition int_C2 :: u64 where "int_C2 = 0x1000100010001000"
definition int_C3 :: u64 where "int_C3 = 0xffeffffefebefffe"

definition UINT128 :: "u64 \<Rightarrow> u64 \<Rightarrow> 128 word" where
  "UINT128 hi lo = push_bit 64 (ucast hi) OR ucast lo"

definition int_ops :: "'a::len word \<Rightarrow> 'a word \<Rightarrow> 'a word \<Rightarrow> 'a word \<times> 'a word \<times> cpu_st \<Rightarrow> 'a word \<times> 'a word \<times> cpu_st" where
  "int_ops c1 c2 c3 abst =
    (case abst of (a, b, st) \<Rightarrow>
      let a = a + b; b = b XOR a; a = drop_bit 1 a; b = push_bit 2 b; b = b - a;
          a = a XOR NOT 0; b = b XOR NOT c1; a = a * 3; b = b * 7; a = a + 2; b = b - 3;
          a = a div 77; b = b div 3; a = push_bit 1 a; b = push_bit 2 b; a = a OR 1; b = b OR 3;
          (v1, st) = cdraw mwc32 st; a = a * ucast v1;
          (v2, st) = cdraw mwc32 st; b = b XOR ucast v2;
          (v3, st) = cdraw mwc32 st; a = a + ucast v3;
          (v4, st) = cdraw mwc32 st; b = b - ucast v4;
          a = a div 7; b = b div 9; a = a OR c2; b = b AND c3
      in (a, b, st))"

definition stress_cpu_int_result :: "'a::len word \<Rightarrow> 'a word \<Rightarrow> 'a word \<Rightarrow> cpu_st \<Rightarrow> 'a word \<times> 'a word \<times> cpu_st" where
  "stress_cpu_int_result c1 c2 c3 st =
    (let (a, st) = cdraw mwc32 (MWC_SEED st); (b, st) = cdraw mwc32 st
     in (int_ops c1 c2 c3 ^^ 1000) (ucast a, ucast b, st))"

definition stress_cpu_int :: "string \<Rightarrow> 'a::len word \<Rightarrow> 'a word \<Rightarrow> 'a word \<Rightarrow> 'a word \<Rightarrow> 'a word \<Rightarrow> u64 \<Rightarrow> cpu_st \<Rightarrow> cpu_st" where
  "stress_cpu_int name a_final b_final c1 c2 c3 flags st =
    (case stress_cpu_int_result c1 c2 c3 st of (a, b, st) \<Rightarrow>
       cpu_verify flags (a \<noteq> a_final \<or> b \<noteq> b_final) name st)"

definition stress_cpu_int128 :: "u64 \<Rightarrow> cpu_st \<Rightarrow> cpu_st" where
  "stress_cpu_int128 = stress_cpu_int ''int128''
     (UINT128 0x132af604d8b9183a 0x5e3af8fa7a663d74) (UINT128 0x62f086e6160e4e 0xd84c9f800365858)
     (UINT128 int_C1 int_C1) (UINT128 int_C2 int_C2) (UINT128 int_C3 int_C3)"

definition stress_cpu_int64 :: "u64 \<Rightarrow> cpu_st \<Rightarrow> cpu_st" where
  "stress_cpu_int64 = stress_cpu_int ''int64''
     (0x013f7f6dc1d79197c :: u64) 0x01863d2c6969a51ce int_C1 int_C2 int_C3"

definition stress_cpu_int32 :: "u64 \<Rightarrow> cpu_st \<Rightarrow> cpu_st" where
  "stress_cpu_int32 = stress_cpu_int ''int32''
     (0x1ce9b547 :: u32) 0xa24b33a (ucast int_C1) (ucast int_C2) (ucast int_C3)"

definition stress_cpu_int16 :: "u64 \<Rightarrow> cpu_st \<Rightarrow> cpu_st" where
  "stress_cpu_int16 = stress_cpu_int ''int16''
     (0x1871 :: u16) 0x07f0 (ucast int_C1) (ucast int_C2) (ucast int_C3)"

definition stress_cpu_int8 :: "u64 \<Rightarrow> cpu_st \<Rightarrow> cpu_st" where
  "stress_cpu_int8 = stress_cpu_int ''int8''
     (0x12 :: u8) 0x1a (ucast int_C1) (ucast int_C2) (ucast int_C3)"


section \<open>Properties\<close>

lemma gcd_loop_gcd: "unat (gcd_loop a b) = gcd (unat a) (unat b)"
proof (induction a b rule: gcd_loop.induct)
  case (1 a b)
  show ?case
  proof (cases "b = 0")
    case True
    then show ?thesis by (simp add: gcd_loop.simps)
  next
    case False
    then show ?thesis using 1 by (subst gcd_loop.simps) (simp add: unat_mod gcd_red_nat [symmetric] gcd.commute)
  qed
qed

text \<open>
  The inner loop of the gcd stressor ends and computes greatest common divisors, so the stressor compares
  the sum of these divisors with the constant of the source.
\<close>

lemma gcd_stressor_sums:
  "unat (gcd_loop a b) = gcd (unat a) (unat b)
    \<and> stress_cpu_gcd flags st
      = cpu_verify flags ((\<Sum>i<16384. of_nat (gcd i (i mod (3 + (1997 XOR i))))) \<noteq> (63000868 :: u32)) ''gcd'' st"
proof
  have "gcd_loop (of_nat i) (of_nat i mod (3 + (1997 XOR of_nat i))) = of_nat (gcd i (i mod (3 + (1997 XOR i))))"
    if "i < 16384" for i
  proof -
    have u: "unat (of_nat i :: u32) = i" using that by (intro unat_of_nat_small) simp
    have x: "1997 XOR i < 2 ^ 14"
    proof -
      have "take_bit 14 (1997 XOR i) = take_bit 14 1997 XOR take_bit 14 i" by simp
      moreover have "take_bit 14 i = i" "take_bit 14 (1997 :: nat) = 1997" using that by (simp_all add: take_bit_nat_eq_self)
      ultimately show ?thesis by (metis take_bit_nat_less_exp)
    qed
    have w: "(3 + (1997 XOR of_nat i) :: u32) = of_nat (3 + (1997 XOR i))" by (simp add: of_nat_xor_eq)
    have "unat (3 + (1997 XOR of_nat i) :: u32) = 3 + (1997 XOR i)"
      unfolding w by (rule unat_of_nat_small) (use x in simp)
    then have "unat (gcd_loop (of_nat i) (of_nat i mod (3 + (1997 XOR of_nat i)))) = gcd i (i mod (3 + (1997 XOR i)))"
      by (simp only: gcd_loop_gcd unat_mod u)
    moreover have "of_nat (unat x) = x" for x :: u32 by simp
    ultimately show ?thesis by metis
  qed
  then have "(\<Sum>i<16384. gcd_loop (of_nat i) (of_nat i mod (3 + (1997 XOR of_nat i))))
      = (\<Sum>i<16384. of_nat (gcd i (i mod (3 + (1997 XOR i)))) :: u32)"
    by (intro sum.cong) auto
  then show "stress_cpu_gcd flags st
      = cpu_verify flags ((\<Sum>i<16384. of_nat (gcd i (i mod (3 + (1997 XOR i))))) \<noteq> (63000868 :: u32)) ''gcd'' st"
    by (simp only: stress_cpu_gcd_def fold_add_sum Let_def add_0)
qed (rule gcd_loop_gcd)

lemma ackermann_1: "ackermann 1 n = n + 2"
  by (induction n rule: word_pred_induct) (subst ackermann.simps, simp add: ackermann.simps [of 0])+

lemma ackermann_2: "ackermann 2 n = 2 * n + 3"
  by (induction n rule: word_pred_induct) (subst ackermann.simps, simp add: ackermann_1 algebra_simps)+

lemma ackermann_3: "ackermann 3 n = 2 ^ (unat n + 3) - 3"
proof (induction n rule: word_pred_induct)
  case 1
  show ?case by (subst ackermann.simps) (simp add: ackermann_2)
next
  case (2 n)
  have "unat n = Suc (unat (n - 1))" using 2 by (simp add: unat_minus_one unat_gt_0)
  moreover have "ackermann 3 n = 2 * ackermann 3 (n - 1) + 3"
    using 2(1) by (subst ackermann.simps) (simp add: ackermann_2)
  ultimately show ?case using 2(2) by (simp add: algebra_simps power_add)
qed

lemma hanoi_power: "hanoi n p1 p2 p3 = 2 ^ unat n"
proof (induction n arbitrary: p1 p2 p3 rule: word_pred_induct)
  case 1
  show ?case by (simp add: hanoi.simps)
next
  case (2 n)
  have "unat n = Suc (unat (n - 1))" using 2(1) by (simp add: unat_minus_one unat_gt_0)
  then show ?case using 2 by (subst hanoi.simps) (simp add: Let_def)
qed

text \<open>The Fibonacci numbers, for the specification of the loop.\<close>

primrec fib_pair :: "nat \<Rightarrow> int \<times> int" where
  "fib_pair 0 = (0, 1)"
| "fib_pair (Suc n) = (case fib_pair n of (a, b) \<Rightarrow> (b, a + b))"

definition fib :: "nat \<Rightarrow> int" where
  "fib n = fst (fib_pair n)"

lemma fib_rec: "fib (Suc (Suc n)) = fib n + fib (Suc n)"
  by (simp add: fib_def split_def)

lemma fib_mono:
  assumes "m \<le> n"
  shows "fib m \<le> fib n"
proof (rule lift_Suc_mono_le [OF _ assms])
  have "0 \<le> fst (fib_pair k) \<and> fst (fib_pair k) \<le> snd (fib_pair k)" for k by (induction k) (auto simp: split_def)
  then show "fib k \<le> fib (Suc k)" for k by (simp add: fib_def split_def)
qed

lemma fib_92_93: "fib 92 < 2 ^ 63 \<and> 2 ^ 63 \<le> fib 93 \<and> fib 93 = 0xa94fad42221f2702"
  by code_simp

lemma top_bit_clear: "(w :: u64) AND 0x8000000000000000 = 0 \<longleftrightarrow> unat w < 2 ^ 63"
proof -
  have p: "(0x8000000000000000 :: u64) = 2 ^ 63" by simp
  have "bit (w AND 0x8000000000000000) k \<longleftrightarrow> k = 63 \<and> bit w 63" for k
    unfolding p bit_and_iff bit_exp_iff by (auto dest: bit_imp_le_length)
  then have "w AND 0x8000000000000000 = 0 \<longleftrightarrow> \<not> bit w 63" by (metis bit_0_eq bot_apply bot_bool_def bit_eqI)
  also have "\<dots> \<longleftrightarrow> even (unat w div 2 ^ 63)" by (simp only: bit_unat [symmetric] bit_iff_odd not_not)
  also have "\<dots> \<longleftrightarrow> unat w < 2 ^ 63"
  proof -
    have "unat w < 2 ^ LENGTH(64)" by (rule unsigned_less)
    then have "unat w div 2 ^ 63 < 2" by (simp add: less_mult_imp_div_less)
    then have "even (unat w div 2 ^ 63) \<longleftrightarrow> unat w div 2 ^ 63 = 0" by (cases "unat w div 2 ^ 63") auto
    then show ?thesis by (simp add: div_eq_0_iff)
  qed
  finally show ?thesis .
qed

lemma fibonacci_loop_fib:
  assumes "k \<le> 91"
  shows "fibonacci_loop (word_of_int (fib k)) (word_of_int (fib (Suc k))) = Some (word_of_int (fib 93))"
  using assms
proof (induction "91 - k" arbitrary: k)
  case (0 k)
  then have k: "Suc (Suc k) = 93" by simp
  have "\<not> unat (word_of_int (fib 93) :: u64) < 2 ^ 63" using fib_92_93 by simp
  then have t: "word_of_int (fib 93) AND (0x8000000000000000 :: u64) \<noteq> 0" unfolding top_bit_clear .
  have e: "word_of_int (fib k) + word_of_int (fib (Suc k)) = (word_of_int (fib 93) :: u64)"
    using fib_rec [of k] unfolding k by simp
  show ?case by (subst fibonacci_loop.simps) (simp only: Let_def e t simp_thms if_False)
next
  case (Suc d k)
  have e: "word_of_int (fib k) + word_of_int (fib (Suc k)) = (word_of_int (fib (Suc (Suc k))) :: u64)"
    using fib_rec [of k] by simp
  have "Suc (Suc k) \<le> 92" using Suc.hyps(2) by simp
  then have b: "0 \<le> fib (Suc (Suc k))" "fib (Suc (Suc k)) < 2 ^ 63"
    using fib_mono [of 0 "Suc (Suc k)"] fib_mono [of "Suc (Suc k)" 92] fib_92_93 by (auto simp: fib_def [of 0])
  have "unat (word_of_int (fib (Suc (Suc k))) :: u64) = nat (fib (Suc (Suc k)))"
    using unat_of_nat_small [of "nat (fib (Suc (Suc k)))", where 'a = 64] b by simp
  then have "unat (word_of_int (fib (Suc (Suc k))) :: u64) < 2 ^ 63" using b by simp
  then have t: "word_of_int (fib (Suc (Suc k))) AND (0x8000000000000000 :: u64) = 0" by (simp only: top_bit_clear)
  have "d = 91 - Suc k" "Suc k \<le> 91" using Suc by auto
  from Suc.hyps(1) [OF this] show ?case by (subst fibonacci_loop.simps) (simp only: Let_def e t simp_thms if_True)
qed

text \<open>
  C39: four recursive or iterative stressors end with the value their check expects, so on a
  machine that computes as specified they report nothing: the sum of the busy loop, the first
  Fibonacci number with 64 bits, the Ackermann value (from its closed form at every argument) and the number
  of moves of the Towers of Hanoi.
\<close>

theorem recursive_stressors_exact:
  "stress_cpu_loop flags st = st
    \<and> fibonacci_loop 0 1 = Some (word_of_int (fib 93)) \<and> stress_cpu_fibonacci flags st = Some st
    \<and> ackermann 3 n = 2 ^ (unat n + 3) - 3 \<and> stress_cpu_ackermann flags st = st
    \<and> hanoi m p1 p2 p3 = 2 ^ unat m \<and> stress_cpu_hanoi flags st = (2 ^ 20, st)"
proof (intro conjI)
  have "(\<Sum>i<k. of_nat i) = (of_nat (k * (k - 1) div 2) :: u32)" for k
  proof -
    have "(\<Sum>i<k. of_nat i) = (of_nat (\<Sum>i<k. i) :: u32)" by simp
    also have "(\<Sum>i<k. i) = k * (k - 1) div 2" by (simp add: lessThan_atLeast0 Sum_Ico_nat)
    finally show ?thesis .
  qed
  from this [of 16384] have "(\<Sum>i<16384. of_nat i) = (134209536 :: u32)" by simp
  then show "stress_cpu_loop flags st = st" by (simp only: stress_cpu_loop_def fold_add_sum Let_def) simp
  show f: "fibonacci_loop 0 1 = Some (word_of_int (fib 93))"
    using fibonacci_loop_fib [of 0] by (simp add: fib_def)
  show "stress_cpu_fibonacci flags st = Some st" using fib_92_93 by (simp add: stress_cpu_fibonacci_def f)
  show "ackermann 3 n = 2 ^ (unat n + 3) - 3" by (rule ackermann_3)
  show "stress_cpu_ackermann flags st = st" by (simp add: stress_cpu_ackermann_def ackermann_3)
  show "hanoi m p1 p2 p3 = 2 ^ unat m" by (rule hanoi_power)
  show "stress_cpu_hanoi flags st = (2 ^ 20, st)" by (simp add: stress_cpu_hanoi_def hanoi_power)
qed

text \<open>
  The chain of conditional jumps has a fixed course: every round starts and ends with zero and puts the
  same twelve values, shifted by the loop counter.
\<close>

lemma jmp_course:
  "stress_cpu_jmp = concat (map (\<lambda>i. map ((+) i) [3, 0, 1, 2, 1, 0, 3, 0, 1, 2, 1, 0]) [1..999])"
proof -
  have r: "(jmp_three i ^^ 4) (0, out) = (0, out @ map ((+) i) [3, 0, 1, 2, 1, 0, 3, 0, 1, 2, 1, 0])" for i out
    by (simp add: numeral_eq_Suc jmp_three_def JMP_def Let_def)
  have "fold (\<lambda>i st. (jmp_three i ^^ 4) st) xs (0, out)
      = (0, out @ concat (map (\<lambda>i. map ((+) i) [3, 0, 1, 2, 1, 0, 3, 0, 1, 2, 1, 0]) xs))" for xs out
    by (induction xs arbitrary: out) (simp_all only: fold_simps r list.map concat.simps append_Nil2 append_assoc)
  then show ?thesis by (simp only: stress_cpu_jmp_def snd_conv append_Nil)
qed

lemma int_ops_masks:
  fixes c1 c2 c3 :: "'a::len word"
  assumes "int_ops c1 c2 c3 (a, b, st) = (a', b', st')"
  shows "a' AND c2 = c2 \<and> b' AND NOT c3 = 0 \<and> cfails st' = cfails st"
proof -
  have m: "(x OR c2) AND c2 = c2" "(y AND c3) AND NOT c3 = 0" for x y :: "'a word"
    by (auto intro!: bit_word_eqI simp: bit_or_iff bit_and_iff bit_not_iff)
  obtain v1 s1 where 1: "cdraw mwc32 st = (v1, s1)" by fastforce
  obtain v2 s2 where 2: "cdraw mwc32 s1 = (v2, s2)" by fastforce
  obtain v3 s3 where 3: "cdraw mwc32 s2 = (v3, s3)" by fastforce
  obtain v4 s4 where 4: "cdraw mwc32 s3 = (v4, s4)" by fastforce
  have "cfails s4 = cfails st" using 1 2 3 4 cdraw_fails by metis
  then show ?thesis using assms m unfolding int_ops_def Let_def 1 2 3 4 prod.case by (auto simp del: push_bit_eq_mult)
qed

text \<open>
  At every width, an integer stressor ends with all bits of the second constant set in \<open>a\<close> and only bits of the
  third constant set in \<open>b\<close>; a wrong result is reported once, under the verify option only.
\<close>

theorem int_stressor_masks:
  fixes c1 c2 c3 :: "'a::len word"
  shows "case stress_cpu_int_result c1 c2 c3 st of (a, b, st') \<Rightarrow>
    a AND c2 = c2 \<and> b AND NOT c3 = 0 \<and> cfails st' = cfails st
    \<and> cfails (stress_cpu_int name af bf c1 c2 c3 flags st)
      = cfails st @ (if flags AND OPT_FLAGS_VERIFY \<noteq> 0 \<and> (a, b) \<noteq> (af, bf) then [name] else [])"
proof -
  have iter: "case (int_ops c1 c2 c3 ^^ Suc n) abst of (a, b, st') \<Rightarrow>
      a AND c2 = c2 \<and> b AND NOT c3 = 0 \<and> cfails st' = cfails (snd (snd abst))" for n abst
  proof (induction n)
    case 0
    then show ?case using int_ops_masks [of c1 c2 c3] by (cases abst) (auto split: prod.splits)
  next
    case (Suc n)
    then show ?case using int_ops_masks [of c1 c2 c3] by (fastforce split: prod.splits)
  qed
  obtain a s1 where 1: "cdraw mwc32 (MWC_SEED st) = (a, s1)" by fastforce
  obtain b s2 where 2: "cdraw mwc32 s1 = (b, s2)" by fastforce
  have f: "cfails s2 = cfails st" using cdraw_fails [OF 1] cdraw_fails [OF 2] by simp
  have k: "1000 = Suc 999" by simp
  have r: "stress_cpu_int_result c1 c2 c3 st = (int_ops c1 c2 c3 ^^ Suc 999) (ucast a, ucast b, s2)"
    unfolding stress_cpu_int_result_def Let_def 1 2 prod.case k ..
  show ?thesis
    using iter [where n = 999 and abst = "(ucast a, ucast b, s2)"] f
    by (auto simp: stress_cpu_int_def r cpu_verify_def simp del: funpow.simps split: prod.splits)
qed

section \<open>Dithering\<close>

text \<open>
  The image as a function of the two indices; an update outside of the 1024 by 768 array is what
  the three tests on the coordinates must exclude.
\<close>

type_synonym image = "nat \<Rightarrow> nat \<Rightarrow> u8"

definition STRESS_CPU_DITHER_X :: nat where "STRESS_CPU_DITHER_X = 1024"
definition STRESS_CPU_DITHER_Y :: nat where "STRESS_CPU_DITHER_Y = 768"

definition pixel_set :: "image \<Rightarrow> nat \<Rightarrow> nat \<Rightarrow> u8 \<Rightarrow> image" where
  "pixel_set p x y v = p(x := (p x)(y := v))"

definition pixel_add :: "image \<Rightarrow> nat \<Rightarrow> nat \<Rightarrow> int \<Rightarrow> image" where
  "pixel_add p x y d = pixel_set p x y (p x y + word_of_int d)"

definition dither_fill :: "nat \<Rightarrow> nat \<Rightarrow> image \<times> cpu_st \<Rightarrow> image \<times> cpu_st" where
  "dither_fill y x pst =
    (case pst of (p, st) \<Rightarrow> case cdraw mwc64 st of (v, st) \<Rightarrow>
       (fold (\<lambda>k p. pixel_set p x (y + k) (ucast (drop_bit (8 * k) v))) [0..<8] p, st))"

definition dither_random :: "image \<times> cpu_st \<Rightarrow> image \<times> cpu_st" where
  "dither_random pst =
    fold (\<lambda>b. fold (dither_fill (8 * b)) [0..<STRESS_CPU_DITHER_X]) [0..<STRESS_CPU_DITHER_Y div 8] pst"

definition dither_error :: "u8 \<Rightarrow> int" where
  "dither_error pixel = (let quant = (if pixel < 128 then 0 else 255) in int (unat pixel) - quant)"

definition dither_pixel :: "nat \<Rightarrow> nat \<Rightarrow> image \<Rightarrow> image" where
  "dither_pixel y x p =
    (let error = dither_error (p x y);
         xok1 = x < STRESS_CPU_DITHER_X - 1; xok2 = 0 < x; yok1 = y < STRESS_CPU_DITHER_Y - 1;
         p = (if xok1 then pixel_add p (x + 1) y (drop_bit 4 (error * 7)) else p);
         p = (if xok2 \<and> yok1 then pixel_add p (x - 1) (y + 1) (drop_bit 4 (error * 3)) else p);
         p = (if yok1 then pixel_add p x (y + 1) (drop_bit 4 (error * 5)) else p)
     in if xok1 \<and> yok1 then pixel_add p (x + 1) (y + 1) (drop_bit 4 error) else p)"

definition stress_cpu_dither :: "image \<times> cpu_st \<Rightarrow> image \<times> cpu_st" where
  "stress_cpu_dither pst =
    (case dither_random pst of (p, st) \<Rightarrow>
      (fold (\<lambda>y. fold (dither_pixel y) [0..<STRESS_CPU_DITHER_X]) [0..<STRESS_CPU_DITHER_Y] p, st))"

lemma dither_error_range: "\<bar>dither_error v\<bar> \<le> 127"
proof -
  have "unat v < 2 ^ LENGTH(8)" by (rule unsigned_less)
  moreover have "v < 128 \<longleftrightarrow> unat v < 128" by (simp add: word_less_nat_alt)
  moreover define n where "n = unat v"
  ultimately show ?thesis unfolding dither_error_def Let_def n_def [symmetric] by auto
qed

text \<open>
  Dithering a pixel touches only pixels inside the image that come later in the scan, the error it
  passes on is at most 127 either way, and away from the border the four neighbours together
  receive the whole error up to a loss of at most three by rounding.
\<close>

theorem dither_diffusion:
  assumes "x < STRESS_CPU_DITHER_X" and "y < STRESS_CPU_DITHER_Y"
  shows "\<bar>dither_error (p x y)\<bar> \<le> 127
    \<and> (dither_pixel y x p u v \<noteq> p u v \<longrightarrow>
        u < STRESS_CPU_DITHER_X \<and> v < STRESS_CPU_DITHER_Y
        \<and> (v = y \<and> u = x + 1 \<or> v = y + 1 \<and> x \<le> u + 1 \<and> u \<le> x + 1))
    \<and> (0 < x \<and> x + 1 < STRESS_CPU_DITHER_X \<and> y + 1 < STRESS_CPU_DITHER_Y \<longrightarrow>
        (\<exists>loss \<in> {0..3}. let q = dither_pixel y x p in
          q (x + 1) y + q (x - 1) (y + 1) + q x (y + 1) + q (x + 1) (y + 1)
          = p (x + 1) y + p (x - 1) (y + 1) + p x (y + 1) + p (x + 1) (y + 1)
            + word_of_int (dither_error (p x y) - loss)))"
proof (intro conjI impI)
  show "\<bar>dither_error (p x y)\<bar> \<le> 127" by (rule dither_error_range)
  define e where "e = dither_error (p x y)"
  assume "dither_pixel y x p u v \<noteq> p u v"
  then have m: "(v = y \<and> u = x + 1 \<and> x < STRESS_CPU_DITHER_X - 1)
      \<or> (v = y + 1 \<and> u = x - 1 \<and> 0 < x \<and> y < STRESS_CPU_DITHER_Y - 1)
      \<or> (v = y + 1 \<and> u = x \<and> y < STRESS_CPU_DITHER_Y - 1)
      \<or> (v = y + 1 \<and> u = x + 1 \<and> x < STRESS_CPU_DITHER_X - 1 \<and> y < STRESS_CPU_DITHER_Y - 1)"
    unfolding dither_pixel_def Let_def e_def [symmetric] pixel_add_def pixel_set_def
    by (auto split: if_splits)
  then show "u < STRESS_CPU_DITHER_X" "v < STRESS_CPU_DITHER_Y"
    "v = y \<and> u = x + 1 \<or> v = y + 1 \<and> x \<le> u + 1 \<and> u \<le> x + 1"
    using assms by auto
next
  define e where "e = dither_error (p x y)"
  assume i: "0 < x \<and> x + 1 < STRESS_CPU_DITHER_X \<and> y + 1 < STRESS_CPU_DITHER_Y"
  then have b: "x < STRESS_CPU_DITHER_X - 1" "y < STRESS_CPU_DITHER_Y - 1" "0 < x" by auto
  have n: "x - Suc 0 \<noteq> x" "x \<noteq> x - Suc 0" "x - Suc 0 \<noteq> Suc x" "Suc x \<noteq> x - Suc 0" using b(3) by auto
  have q: "dither_pixel y x p (x + 1) y = p (x + 1) y + word_of_int (drop_bit 4 (e * 7))"
    "dither_pixel y x p (x - 1) (y + 1) = p (x - 1) (y + 1) + word_of_int (drop_bit 4 (e * 3))"
    "dither_pixel y x p x (y + 1) = p x (y + 1) + word_of_int (drop_bit 4 (e * 5))"
    "dither_pixel y x p (x + 1) (y + 1) = p (x + 1) (y + 1) + word_of_int (drop_bit 4 e)"
    using b n unfolding dither_pixel_def Let_def e_def [symmetric] pixel_add_def pixel_set_def by simp_all
  define s where "s = drop_bit 4 (e * 7) + drop_bit 4 (e * 3) + drop_bit 4 (e * 5) + drop_bit 4 e"
  have "e - 3 \<le> s" "s \<le> e" unfolding s_def drop_bit_eq_div by simp_all
  then show "\<exists>loss \<in> {0..3}. let q = dither_pixel y x p in
      q (x + 1) y + q (x - 1) (y + 1) + q x (y + 1) + q (x + 1) (y + 1)
      = p (x + 1) y + p (x - 1) (y + 1) + p x (y + 1) + p (x + 1) (y + 1)
        + word_of_int (dither_error (p x y) - loss)"
    unfolding e_def [symmetric] Let_def q
    by (intro bexI [of _ "e - s"]) (simp_all add: s_def algebra_simps)
qed

theorem dither_diffusion_witness:
  "\<exists>loss \<in> {0..3}. let q = dither_pixel 0 1 (\<lambda>x y. 200) in
     q (1 + 1) 0 + q (1 - 1) (0 + 1) + q 1 (0 + 1) + q (1 + 1) (0 + 1)
     = 200 + 200 + 200 + 200 + word_of_int (dither_error 200 - loss)"
proof -
  have a: "0 < (1 :: nat) \<and> 1 + 1 < STRESS_CPU_DITHER_X \<and> 0 + 1 < STRESS_CPU_DITHER_Y"
    by (simp add: STRESS_CPU_DITHER_X_def STRESS_CPU_DITHER_Y_def)
  have "(1 :: nat) < STRESS_CPU_DITHER_X" "(0 :: nat) < STRESS_CPU_DITHER_Y" using a by simp_all
  from mp [OF conjunct2 [OF conjunct2 [OF dither_diffusion [OF this, of "\<lambda>x y. 200"]]] a] show ?thesis .
qed

end
