(* ===== verification/Cpu_Queens.thy ===== *)
theory Cpu_Queens
  imports Cpu_Base C_Lib
begin

text \<open>
  The n queens stressor of stress-cpu.c: the backtracking over bit masks of attacked columns and
  diagonals, and the proof that it counts the placements of n queens that do not attack each other.
\<close>

section \<open>Backtracking\<close>

text \<open>The values of \<open>bit\<close> in the successive rounds of the loop over \<open>poss\<close>.\<close>

function low_bits :: "u32 \<Rightarrow> u32 list" where
  "low_bits poss = (if poss = 0 then [] else let b = poss AND - poss in b # low_bits (poss - b))"
  by auto
termination
  by (relation "measure unat") (simp_all add: minus_lowest and_minus_one_less)

declare low_bits.simps [simp del]

lemma low_bits_set:
  "distinct (low_bits p) \<and> set (low_bits p) = (\<lambda>k. 2 ^ k) ` {k. bit p k}"
proof (induction p rule: low_bits.induct)
  case (1 p)
  show ?case
  proof (cases "p = 0")
    case True
    then show ?thesis by (simp add: low_bits.simps bot_fun_def)
  next
    case False
    obtain k where k: "bit p k" "p AND - p = 2 ^ k" "\<And>j. bit (p AND (p - 1)) j \<longleftrightarrow> bit p j \<and> j \<noteq> k"
      using lowest_bit [OF False] by blast
    have l: "low_bits p = 2 ^ k # low_bits (p AND (p - 1))"
      using False k(2) minus_lowest [of p] by (subst low_bits.simps) (simp add: Let_def)
    have ih: "distinct (low_bits (p AND (p - 1)))"
      "set (low_bits (p AND (p - 1))) = (\<lambda>k. 2 ^ k) ` {j. bit p j \<and> j \<noteq> k}"
      using 1 [OF False refl] minus_lowest [of p] k(3) by simp_all
    have "(2 :: u32) ^ k \<noteq> 2 ^ j" if "bit p j" "j \<noteq> k" for j
    proof
      assume "(2 :: u32) ^ k = 2 ^ j"
      then have "bit ((2 :: u32) ^ k) j = bit ((2 :: u32) ^ j) j" by simp
      then show False using that bit_imp_le_length [OF that(1)] by (simp add: bit_exp_iff)
    qed
    moreover have "{j. bit p j} = insert k {j. bit p j \<and> j \<noteq> k}" using k(1) by auto
    ultimately show ?thesis using ih l by auto
  qed
qed

lemma low_bits_new:
  assumes "b \<in> set (low_bits (NOT (l OR c OR r) AND all))"
  shows "card {k. bit (all AND NOT (c OR b)) k} < card {k. bit (all AND NOT c) k}"
proof -
  obtain k where k: "b = 2 ^ k" "bit (NOT (l OR c OR r) AND all) k" using assms low_bits_set by auto
  then have "bit all k" "\<not> bit c k" "k < 32"
    using bit_imp_le_length [OF k(2)] by (auto simp: bit_and_iff bit_not_iff bit_or_iff)
  then have "{j. bit (all AND NOT (c OR b)) j} \<subset> {j. bit (all AND NOT c) j}"
    using k(1) by (auto simp: bit_and_iff bit_not_iff bit_or_iff bit_exp_iff)
  then show ?thesis by (intro psubset_card_mono finite_bits)
qed

function queens_try :: "u32 \<Rightarrow> u32 \<Rightarrow> u32 \<Rightarrow> u32 \<Rightarrow> u32" where
  "queens_try left_diag cols right_diag all =
    fold (\<lambda>b solutions.
        let new_cols = cols OR b
        in solutions + (if new_cols = all then 1
             else queens_try (push_bit 1 (left_diag OR b)) new_cols (drop_bit 1 (right_diag OR b)) all))
      (low_bits (NOT (left_diag OR cols OR right_diag) AND all)) 0"
  by auto
termination
  by (relation "measure (\<lambda>(l, c, r, all). card {k. bit (all AND NOT c) k})") (auto simp only: wf_measure in_measure prod.case low_bits_new)

declare queens_try.simps [simp del]

definition queens_solutions :: "u32 list" where
  "queens_solutions = [- 1, 1, 0, 0, 2, 10, 4, 40, 92, 352, 724, 2680, 14200]"

fun queens_loop :: "nat list \<Rightarrow> u32 \<Rightarrow> u64 \<Rightarrow> cpu_st \<Rightarrow> cpu_st" where
  "queens_loop [] all flags st = st"
| "queens_loop (n # ns) all flags st =
    queens_loop ns ((all + all) + 1) flags
      (cpu_verify flags (queens_try 0 0 0 all \<noteq> queens_solutions ! n) (''queens '' @ show_nat n) st)"

definition stress_cpu_queens :: "u64 \<Rightarrow> cpu_st \<Rightarrow> cpu_st" where
  "stress_cpu_queens flags st = queens_loop [1..<13] 1 flags st"


section \<open>Placements\<close>

text \<open>Rows from the last one up: the queen of row \<open>i\<close> stands in column \<open>qs ! i\<close>.\<close>

definition peaceful :: "nat list \<Rightarrow> bool" where
  "peaceful qs \<longleftrightarrow> (\<forall>j < length qs. \<forall>i < j. qs ! i \<noteq> qs ! j \<and> qs ! i + (j - i) \<noteq> qs ! j \<and> qs ! j + (j - i) \<noteq> qs ! i)"

definition queens :: "nat \<Rightarrow> nat list set" where
  "queens n = {qs. length qs = n \<and> set qs \<subseteq> {..<n} \<and> peaceful qs}"

definition free_col :: "nat \<Rightarrow> nat list \<Rightarrow> bool" where
  "free_col c ps \<longleftrightarrow> (\<forall>d < length ps. ps ! d \<noteq> c \<and> ps ! d + Suc d \<noteq> c \<and> c + Suc d \<noteq> ps ! d)"

lemma peaceful_Cons: "peaceful (c # ps) \<longleftrightarrow> free_col c ps \<and> peaceful ps"
proof -
  have "(\<forall>j < Suc (length ps). \<forall>i < j. P i j) \<longleftrightarrow> (\<forall>j < length ps. P 0 (Suc j) \<and> (\<forall>i < j. P (Suc i) (Suc j)))" for P
    by (simp only: All_less_Suc2 not_less_zero simp_thms)
  from this [of "\<lambda>i j. (c # ps) ! i \<noteq> (c # ps) ! j \<and> (c # ps) ! i + (j - i) \<noteq> (c # ps) ! j \<and> (c # ps) ! j + (j - i) \<noteq> (c # ps) ! i"]
  show ?thesis unfolding peaceful_def free_col_def by (auto simp: eq_commute)
qed

text \<open>The ways to place \<open>m\<close> more queens above those already placed.\<close>

definition extensions :: "nat \<Rightarrow> nat \<Rightarrow> nat list \<Rightarrow> nat list set" where
  "extensions n m ps = {qs. length qs = m \<and> set qs \<subseteq> {..<n} \<and> peaceful (qs @ ps)}"

lemma peaceful_suffix: "peaceful (qs @ ps) \<Longrightarrow> peaceful ps"
  by (induction qs) (simp_all add: peaceful_Cons)

lemma finite_extensions: "finite (extensions n m ps)"
  by (rule finite_subset [OF _ finite_lists_length_eq [of "{..<n}" m]]) (auto simp: extensions_def)

lemma card_extensions_Suc:
  assumes "peaceful ps"
  shows "card (extensions n (Suc m) ps) = (\<Sum>c \<in> {c. c < n \<and> free_col c ps}. card (extensions n m (c # ps)))"
proof -
  let ?C = "{c. c < n \<and> free_col c ps}"
  have e: "extensions n (Suc m) ps = (\<Union>c \<in> ?C. (\<lambda>qs. qs @ [c]) ` extensions n m (c # ps))"
  proof (intro equalityI subsetI)
    fix qs
    assume q: "qs \<in> extensions n (Suc m) ps"
    then obtain rs c where rs: "qs = rs @ [c]" by (cases qs rule: rev_cases) (auto simp: extensions_def)
    then have "peaceful (c # ps)" using q peaceful_suffix [of rs "c # ps"] by (simp add: extensions_def)
    then have "c \<in> ?C" "rs \<in> extensions n m (c # ps)"
      using q rs by (auto simp: extensions_def peaceful_Cons)
    then show "qs \<in> (\<Union>c \<in> ?C. (\<lambda>qs. qs @ [c]) ` extensions n m (c # ps))" using rs by blast
  next
    fix qs
    assume "qs \<in> (\<Union>c \<in> ?C. (\<lambda>qs. qs @ [c]) ` extensions n m (c # ps))"
    then show "qs \<in> extensions n (Suc m) ps" by (auto simp: extensions_def)
  qed
  have "card (extensions n (Suc m) ps) = (\<Sum>c \<in> ?C. card ((\<lambda>qs. qs @ [c]) ` extensions n m (c # ps)))"
    unfolding e by (rule card_UN_disjoint) (auto simp: finite_extensions)
  also have "\<dots> = (\<Sum>c \<in> ?C. card (extensions n m (c # ps)))"
    by (intro sum.cong refl card_image) (simp add: inj_on_def)
  finally show ?thesis .
qed

lemma peaceful_distinct: "peaceful qs \<Longrightarrow> distinct qs"
  by (induction qs) (auto simp: peaceful_Cons free_col_def in_set_conv_nth)

text \<open>What the three masks say of the queens already placed.\<close>

definition masks :: "nat \<Rightarrow> nat list \<Rightarrow> u32 \<Rightarrow> u32 \<Rightarrow> u32 \<Rightarrow> bool" where
  "masks n ps l c r \<longleftrightarrow>
    (\<forall>k < n. bit l k \<longleftrightarrow> (\<exists>d < length ps. ps ! d + Suc d = k))
    \<and> (\<forall>k. bit c k \<longleftrightarrow> k \<in> set ps)
    \<and> (\<forall>k. bit r k \<longleftrightarrow> (\<exists>d < length ps. k + Suc d = ps ! d))"

lemma masks_free:
  assumes "masks n ps l c r" and "n \<le> 32"
  shows "bit (NOT (l OR c OR r) AND mask n) k \<longleftrightarrow> k < n \<and> free_col k ps"
proof -
  have "bit (NOT (l OR c OR r) AND mask n) k \<longleftrightarrow> k < n \<and> \<not> bit l k \<and> \<not> bit c k \<and> \<not> bit r k"
    using assms(2) by (auto simp: bit_and_iff bit_not_iff bit_or_iff bit_mask_iff)
  then show ?thesis using assms(1) unfolding masks_def free_col_def
    by (auto simp: in_set_conv_nth)
qed

lemma ex_less_Suc_shift: "(\<exists>d < Suc m. P d) \<longleftrightarrow> P 0 \<or> (\<exists>d < m. P (Suc d))"
  using less_Suc_eq_0_disj by auto

lemma masks_place:
  assumes "masks n ps l c r" and "n \<le> 32" and "q < n"
  shows "masks n (q # ps) (push_bit 1 (l OR 2 ^ q)) (c OR 2 ^ q) (drop_bit 1 (r OR 2 ^ q))"
proof -
  have q: "bit ((2 :: u32) ^ q) k \<longleftrightarrow> k = q" for k using assms by (auto simp: bit_exp_iff)
  have "bit (push_bit 1 (l OR 2 ^ q)) k \<longleftrightarrow> (\<exists>d < Suc (length ps). (q # ps) ! d + Suc d = k)" if "k < n" for k
  proof (cases k)
    case 0
    then show ?thesis unfolding ex_less_Suc_shift bit_push_bit_iff by simp
  next
    case (Suc j)
    have "bit (push_bit 1 (l OR 2 ^ q)) k \<longleftrightarrow> bit l j \<or> j = q"
      using Suc that assms(2) unfolding bit_push_bit_iff bit_or_iff q by simp
    then show ?thesis using assms(1) Suc that unfolding ex_less_Suc_shift masks_def by auto
  qed
  moreover have "bit (c OR 2 ^ q) k \<longleftrightarrow> k \<in> set (q # ps)" for k
    using assms(1) unfolding bit_or_iff q masks_def by auto
  moreover have "bit (drop_bit 1 (r OR 2 ^ q)) k \<longleftrightarrow> (\<exists>d < Suc (length ps). k + Suc d = (q # ps) ! d)" for k
    using assms(1) unfolding ex_less_Suc_shift bit_drop_bit_eq o_apply bit_or_iff q masks_def by auto
  ultimately show ?thesis unfolding masks_def by simp
qed

lemma fold_low_bits:
  "fold (\<lambda>b s. s + f b) (low_bits p) (0 :: u32) = (\<Sum>k \<in> {k. bit p k}. f (2 ^ k))"
proof -
  have "fold (\<lambda>b s. s + f b) bs s = s + sum_list (map f bs)" for bs and s :: u32
    by (induction bs arbitrary: s) (simp_all add: add.assoc)
  then have "fold (\<lambda>b s. s + f b) (low_bits p) 0 = sum f (set (low_bits p))"
    using low_bits_set [of p] by (simp add: sum_list_distinct_conv_sum_set)
  also have "\<dots> = (\<Sum>k \<in> {k. bit p k}. f (2 ^ k))"
  proof -
    have "inj_on (\<lambda>k. (2 :: u32) ^ k) {k. bit p k}"
    proof (rule inj_onI)
      fix i j
      assume "i \<in> {k. bit p k}" "j \<in> {k. bit p k}" "(2 :: u32) ^ i = 2 ^ j"
      then have "i < 32" "bit ((2 :: u32) ^ i) i = bit ((2 :: u32) ^ j) i" by (auto dest: bit_imp_le_length)
      then show "i = j" by (simp add: bit_exp_iff)
    qed
    then show ?thesis using low_bits_set [of p] by (simp add: sum.reindex)
  qed
  finally show ?thesis .
qed

lemma queens_try_extensions:
  assumes "masks n ps l c r" and "n \<le> 32" and "length ps < n" and "set ps \<subseteq> {..<n}" and "peaceful ps"
  shows "queens_try l c r (mask n) = of_nat (card (extensions n (n - length ps) ps))"
  using assms
proof (induction "n - length ps" arbitrary: ps l c r)
  case (Suc m)
  have m: "n - length ps = Suc m" using Suc.hyps(2) by simp
  let ?C = "{k. k < n \<and> free_col k ps}"
  let ?f = "\<lambda>b. if c OR b = mask n then 1
    else queens_try (push_bit 1 (l OR b)) (c OR b) (drop_bit 1 (r OR b)) (mask n)"
  have "?f (2 ^ q) = of_nat (card (extensions n m (q # ps)))" if q: "q \<in> ?C" for q
  proof -
    have new: "masks n (q # ps) (push_bit 1 (l OR 2 ^ q)) (c OR 2 ^ q) (drop_bit 1 (r OR 2 ^ q))"
      using masks_place Suc.prems q by blast
    have pf: "peaceful (q # ps)" using q Suc.prems by (simp add: peaceful_Cons)
    have sub: "set (q # ps) \<subseteq> {..<n}" using q Suc.prems by auto
    have b: "bit (c OR 2 ^ q) k \<longleftrightarrow> k \<in> set (q # ps)" for k using new unfolding masks_def by blast
    have mk: "bit (mask n :: u32) k \<longleftrightarrow> k < n" for k using Suc.prems(2) by (auto simp: bit_mask_iff)
    have "c OR 2 ^ q = mask n \<longleftrightarrow> set (q # ps) = {..<n}"
    proof
      assume "c OR 2 ^ q = mask n"
      then have "k \<in> set (q # ps) \<longleftrightarrow> k < n" for k using b [of k] mk [of k] by (simp only:)
      then show "set (q # ps) = {..<n}" by blast
    next
      assume "set (q # ps) = {..<n}"
      then show "c OR 2 ^ q = mask n" by (intro bit_word_eqI) (simp only: b mk lessThan_iff)
    qed
    also have "\<dots> \<longleftrightarrow> m = 0"
      using m Suc.prems(3) sub card_subset_eq [of "{..<n}" "set (q # ps)"] distinct_card [OF peaceful_distinct [OF pf]]
      by auto
    finally have all: "c OR 2 ^ q = mask n \<longleftrightarrow> m = 0" .
    show ?thesis
    proof (cases "m = 0")
      case True
      then have "extensions n m (q # ps) = {[]}" using pf by (auto simp: extensions_def)
      then show ?thesis using all True by simp
    next
      case False
      have "m = n - length (q # ps)" "length (q # ps) < n" using m False by auto
      then show ?thesis using Suc.hyps(1) [OF _ new Suc.prems(2) _ sub pf] all False by simp
    qed
  qed
  then have "(\<Sum>q \<in> ?C. ?f (2 ^ q)) = of_nat (card (extensions n (Suc m) ps))"
    using card_extensions_Suc [OF Suc.prems(5), of n m] by simp
  moreover have "{k. bit (NOT (l OR c OR r) AND mask n) k} = ?C"
    using masks_free [OF Suc.prems(1,2)] by blast
  moreover have "queens_try l c r (mask n) = fold (\<lambda>b s. s + ?f b) (low_bits (NOT (l OR c OR r) AND mask n)) 0"
    by (subst queens_try.simps) (simp only: Let_def)
  ultimately show ?case unfolding m by (simp only: fold_low_bits)
qed simp

text \<open>
  C4: for every board size up to 32 the bit mask backtracking ends and returns the number of placements of n queens no two of
  which share a column or a diagonal (modulo the width of the counter), and the stressor reports exactly
  the sizes from 1 to 12 for which that number differs from its table, by their numbers and in this order.
\<close>

theorem queens_counts:
  "(0 < n \<and> n \<le> 32 \<longrightarrow> queens_try 0 0 0 (mask n) = of_nat (card (queens n)))
    \<and> cfails (stress_cpu_queens flags st) = cfails st @
      (if flags AND OPT_FLAGS_VERIFY \<noteq> 0
       then map (\<lambda>n. ''queens '' @ show_nat n) (filter (\<lambda>n. of_nat (card (queens n)) \<noteq> queens_solutions ! n) [1..<13])
       else [])"
proof -
  have q: "queens_try 0 0 0 (mask n) = of_nat (card (queens n))" if "0 < n" "n \<le> 32" for n
    using queens_try_extensions [of n "[]" 0 0 0] that by (simp add: masks_def extensions_def queens_def peaceful_def)
  have double: "(mask n + mask n) + 1 = (mask (Suc n) :: u32)" for n by (simp add: mask_eq_exp_minus_1)
  have "cfails (queens_loop [a..<b] (mask a) flags st) = cfails st @
      (if flags AND OPT_FLAGS_VERIFY \<noteq> 0
       then map (\<lambda>n. ''queens '' @ show_nat n) (filter (\<lambda>n. of_nat (card (queens n)) \<noteq> queens_solutions ! n) [a..<b])
       else [])" if "0 < a" "a \<le> b" "b \<le> 13" for a b st
    using that
  proof (induction "b - a" arbitrary: a st)
    case (Suc d)
    have u: "[a..<b] = a # [Suc a..<b]" using Suc by (simp add: upt_conv_Cons)
    have t: "queens_try 0 0 0 (mask a) = of_nat (card (queens a))" using Suc by (intro q) auto
    show ?case
      using Suc(1) [of "Suc a"] Suc(2-)
      unfolding u queens_loop.simps double t by (simp add: cpu_verify_def)
  qed simp
  from this [of 1 13 st] q show ?thesis by (simp add: stress_cpu_queens_def mask_Suc_0)
qed

theorem queens_counts_witness: "queens_try 0 0 0 (mask 4) = of_nat (card (queens 4))"
  using queens_counts [of 4] by simp

end
