(* ===== verification/Stressors.thy ===== *)
theory Stressors
  imports Stress_Prelude
begin

text \<open>
  The tables of stress-ng.c and stress-ng.h: the identifiers of the stressors, the stressors with
  their names and classes, the classes; look-up of a stressor and of a class by name, and the parsing of a list of classes.
\<close>

section \<open>Classes\<close>

definition CLASS_CPU :: u32 where "CLASS_CPU = 0x00000001"
definition CLASS_MEMORY :: u32 where "CLASS_MEMORY = 0x00000002"
definition CLASS_CPU_CACHE :: u32 where "CLASS_CPU_CACHE = 0x00000004"
definition CLASS_IO :: u32 where "CLASS_IO = 0x00000008"
definition CLASS_NETWORK :: u32 where "CLASS_NETWORK = 0x00000010"
definition CLASS_SCHEDULER :: u32 where "CLASS_SCHEDULER = 0x00000020"
definition CLASS_VM :: u32 where "CLASS_VM = 0x00000040"
definition CLASS_INTERRUPT :: u32 where "CLASS_INTERRUPT = 0x00000080"
definition CLASS_OS :: u32 where "CLASS_OS = 0x00000100"
definition CLASS_PIPE_IO :: u32 where "CLASS_PIPE_IO = 0x00000200"
definition CLASS_FILESYSTEM :: u32 where "CLASS_FILESYSTEM = 0x00000400"
definition CLASS_DEV :: u32 where "CLASS_DEV = 0x00000800"
definition CLASS_SECURITY :: u32 where "CLASS_SECURITY = 0x00001000"
definition CLASS_PATHOLOGICAL :: u32 where "CLASS_PATHOLOGICAL = 0x00002000"

text \<open>The classes that can be named.\<close>

definition classes :: "(u32 \<times> string) list" where
  "classes =
    [(CLASS_CPU_CACHE, ''cpu-cache''), (CLASS_CPU, ''cpu''), (CLASS_DEV, ''device''),
     (CLASS_FILESYSTEM, ''filesystem''), (CLASS_INTERRUPT, ''interrupt''), (CLASS_IO, ''io''),
     (CLASS_MEMORY, ''memory''), (CLASS_NETWORK, ''network''), (CLASS_OS, ''os''),
     (CLASS_PIPE_IO, ''pipe''), (CLASS_SCHEDULER, ''scheduler''), (CLASS_SECURITY, ''security''),
     (CLASS_VM, ''vm'')]"

section \<open>Stressors\<close>

text \<open>The enumeration of identifiers, in order: an identifier is the position of its name.\<close>

definition stress_ids :: "string list" where
  "stress_ids =
    [''AFFINITY'', ''AF_ALG'', ''AIO'', ''AIO_LINUX'', ''APPARMOR'', ''ATOMIC'', ''BRANCH'',
     ''BRK'', ''BSEARCH'', ''BIGHEAP'', ''BIND_MOUNT'', ''CACHE'', ''CAP'', ''CHDIR'', ''CHMOD'',
     ''CHOWN'', ''CHROOT'', ''CLOCK'', ''CLONE'', ''CONTEXT'', ''COPY_FILE'', ''CPU'',
     ''CPU_ONLINE'', ''CRYPT'', ''CYCLIC'', ''DAEMON'', ''DCCP'', ''DENTRY'', ''DEV'', ''DIR'',
     ''DIRDEEP'', ''DNOTIFY'', ''DUP'', ''EPOLL'', ''EVENTFD'', ''EXEC'', ''FALLOCATE'',
     ''FANOTIFY'', ''FAULT'', ''FCNTL'', ''FIEMAP'', ''FIFO'', ''FILENAME'', ''FLOCK'', ''FORK'',
     ''FP_ERROR'', ''FSTAT'', ''FULL'', ''FUNCCALL'', ''FUTEX'', ''GET'', ''GETRANDOM'',
     ''GETDENT'', ''HANDLE'', ''HDD'', ''HEAPSORT'', ''HRTIMERS'', ''HSEARCH'', ''ICACHE'',
     ''ICMP_FLOOD'', ''INODE_FLAGS'', ''INOTIFY'', ''IOMIX'', ''IOPORT'', ''IOPRIO'', ''IOSYNC'',
     ''ITIMER'', ''KCMP'', ''KEY'', ''KILL'', ''KLOG'', ''LEASE'', ''LINK'', ''LOCKBUS'',
     ''LOCKA'', ''LOCKF'', ''LOCKOFD'', ''LONGJMP'', ''LSEARCH'', ''MADVISE'', ''MALLOC'',
     ''MATRIX'', ''MEMBARRIER'', ''MEMCPY'', ''MEMFD'', ''MEMRATE'', ''MEMTHRASH'', ''MERGESORT'',
     ''MINCORE'', ''MKNOD'', ''MLOCK'', ''MMAP'', ''MMAPADDR'', ''MMAPFORK'', ''MMAPMANY'',
     ''MREMAP'', ''MSG'', ''MSYNC'', ''MQ'', ''NETDEV'', ''NETLINK_PROC'', ''NICE'', ''NOP'',
     ''NULL'', ''NUMA'', ''OOM_PIPE'', ''OPCODE'', ''OPEN'', ''PERSONALITY'', ''PHYSPAGE'',
     ''PIPE'', ''POLL'', ''PROCFS'', ''PTHREAD'', ''PTRACE'', ''PTY'', ''QSORT'', ''QUOTA'',
     ''RADIXSORT'', ''RAWDEV'', ''RDRAND'', ''READAHEAD'', ''REMAP_FILE_PAGES'', ''RENAME'',
     ''RESOURCES'', ''RLIMIT'', ''RMAP'', ''RTC'', ''SCHEDPOLICY'', ''SCTP'', ''SEAL'',
     ''SECCOMP'', ''SEEK'', ''SEMAPHORE_POSIX'', ''SEMAPHORE_SYSV'', ''SENDFILE'', ''SGX'',
     ''SGX_VM'', ''SHM_POSIX'', ''SHM_SYSV'', ''SIGFD'', ''SIGFPE'', ''SIGPENDING'', ''SIGQUEUE'',
     ''SIGSEGV'', ''SIGSUSPEND'', ''SLEEP'', ''SOCKET'', ''SOCKET_DIAG'', ''SOCKET_FD'',
     ''SOCKET_PAIR'', ''SOFTLOCKUP'', ''SPAWN'', ''SPLICE'', ''STACK'', ''STACKMMAP'', ''STR'',
     ''STREAM'', ''SWAP'', ''SWITCH'', ''SYMLINK'', ''SYNC_FILE'', ''SYSINFO'', ''SYSFS'', ''TEE'',
     ''TIMER'', ''TIMERFD'', ''TLB_SHOOTDOWN'', ''TMPFS'', ''TREE'', ''TSC'', ''TSEARCH'', ''UDP'',
     ''UDP_FLOOD'', ''UNSHARE'', ''URANDOM'', ''USERFAULTFD'', ''UTIME'', ''VECMATH'', ''VFORK'',
     ''VFORKMANY'', ''VM'', ''VM_RW'', ''VM_SPLICE'', ''WAIT'', ''WCS'', ''XATTR'', ''YIELD'',
     ''ZERO'', ''ZLIB'', ''ZOMBIE'']"

definition STRESS_MAX :: nat where "STRESS_MAX = length stress_ids"

definition stress_id :: "string \<Rightarrow> nat" where
  "stress_id upper = length (takeWhile (\<lambda>x. x \<noteq> upper) stress_ids)"

record stress_t =
  st_id :: nat
  st_opt :: string
  st_name :: string
  st_class :: u32

text \<open>
  One row of the table; the upper case name stands for the two option values OPT_name (number of
  instances) and OPT_name_OPS (number of operations).
\<close>

definition STRESSOR :: "string \<Rightarrow> string \<Rightarrow> u32 \<Rightarrow> stress_t" where
  "STRESSOR lower upper class = \<lparr>st_id = stress_id upper, st_opt = upper, st_name = lower, st_class = class\<rparr>"

definition stressors_1 :: "stress_t list" where
  "stressors_1 =
    [STRESSOR ''af_alg'' ''AF_ALG'' (CLASS_CPU OR CLASS_OS),
     STRESSOR ''affinity'' ''AFFINITY'' (CLASS_SCHEDULER),
     STRESSOR ''aio'' ''AIO'' (CLASS_IO OR CLASS_INTERRUPT OR CLASS_OS),
     STRESSOR ''aiol'' ''AIO_LINUX'' (CLASS_IO OR CLASS_INTERRUPT OR CLASS_OS),
     STRESSOR ''apparmor'' ''APPARMOR'' (CLASS_OS OR CLASS_SECURITY),
     STRESSOR ''atomic'' ''ATOMIC'' (CLASS_CPU OR CLASS_MEMORY),
     STRESSOR ''bigheap'' ''BIGHEAP'' (CLASS_OS OR CLASS_VM),
     STRESSOR ''bind_mount'' ''BIND_MOUNT'' (CLASS_FILESYSTEM OR CLASS_OS OR CLASS_PATHOLOGICAL),
     STRESSOR ''branch'' ''BRANCH'' (CLASS_CPU), STRESSOR ''brk'' ''BRK'' (CLASS_OS OR CLASS_VM),
     STRESSOR ''bsearch'' ''BSEARCH'' (CLASS_CPU_CACHE OR CLASS_CPU OR CLASS_MEMORY),
     STRESSOR ''cache'' ''CACHE'' (CLASS_CPU_CACHE), STRESSOR ''cap'' ''CAP'' (CLASS_OS),
     STRESSOR ''chdir'' ''CHDIR'' (CLASS_FILESYSTEM OR CLASS_OS),
     STRESSOR ''chmod'' ''CHMOD'' (CLASS_FILESYSTEM OR CLASS_OS),
     STRESSOR ''chown'' ''CHOWN'' (CLASS_FILESYSTEM OR CLASS_OS),
     STRESSOR ''chroot'' ''CHROOT'' (CLASS_OS),
     STRESSOR ''clock'' ''CLOCK'' (CLASS_INTERRUPT OR CLASS_OS),
     STRESSOR ''clone'' ''CLONE'' (CLASS_SCHEDULER OR CLASS_OS),
     STRESSOR ''context'' ''CONTEXT'' (CLASS_MEMORY OR CLASS_CPU),
     STRESSOR ''copy_file'' ''COPY_FILE'' (CLASS_FILESYSTEM OR CLASS_OS),
     STRESSOR ''cpu'' ''CPU'' (CLASS_CPU),
     STRESSOR ''cpu_online'' ''CPU_ONLINE'' (CLASS_CPU OR CLASS_OS OR CLASS_PATHOLOGICAL),
     STRESSOR ''crypt'' ''CRYPT'' (CLASS_CPU),
     STRESSOR ''cyclic'' ''CYCLIC'' (CLASS_SCHEDULER OR CLASS_OS),
     STRESSOR ''daemon'' ''DAEMON'' (CLASS_SCHEDULER OR CLASS_OS),
     STRESSOR ''dccp'' ''DCCP'' (CLASS_NETWORK OR CLASS_OS),
     STRESSOR ''dentry'' ''DENTRY'' (CLASS_FILESYSTEM OR CLASS_OS),
     STRESSOR ''dev'' ''DEV'' (CLASS_DEV OR CLASS_OS),
     STRESSOR ''dir'' ''DIR'' (CLASS_FILESYSTEM OR CLASS_OS),
     STRESSOR ''dirdeep'' ''DIRDEEP'' (CLASS_FILESYSTEM OR CLASS_OS),
     STRESSOR ''dnotify'' ''DNOTIFY'' (CLASS_FILESYSTEM OR CLASS_SCHEDULER OR CLASS_OS),
     STRESSOR ''dup'' ''DUP'' (CLASS_FILESYSTEM OR CLASS_OS),
     STRESSOR ''epoll'' ''EPOLL'' (CLASS_NETWORK OR CLASS_OS),
     STRESSOR ''eventfd'' ''EVENTFD'' (CLASS_FILESYSTEM OR CLASS_SCHEDULER OR CLASS_OS),
     STRESSOR ''exec'' ''EXEC'' (CLASS_SCHEDULER OR CLASS_OS),
     STRESSOR ''fallocate'' ''FALLOCATE'' (CLASS_FILESYSTEM OR CLASS_OS),
     STRESSOR ''fanotify'' ''FANOTIFY'' (CLASS_FILESYSTEM OR CLASS_SCHEDULER OR CLASS_OS),
     STRESSOR ''fault'' ''FAULT'' (CLASS_INTERRUPT OR CLASS_SCHEDULER OR CLASS_OS),
     STRESSOR ''fcntl'' ''FCNTL'' (CLASS_FILESYSTEM OR CLASS_OS),
     STRESSOR ''fiemap'' ''FIEMAP'' (CLASS_FILESYSTEM OR CLASS_OS),
     STRESSOR ''fifo'' ''FIFO'' (CLASS_PIPE_IO OR CLASS_OS OR CLASS_SCHEDULER),
     STRESSOR ''filename'' ''FILENAME'' (CLASS_FILESYSTEM OR CLASS_OS),
     STRESSOR ''flock'' ''FLOCK'' (CLASS_FILESYSTEM OR CLASS_OS),
     STRESSOR ''fork'' ''FORK'' (CLASS_SCHEDULER OR CLASS_OS),
     STRESSOR ''fp_error'' ''FP_ERROR'' (CLASS_CPU),
     STRESSOR ''fstat'' ''FSTAT'' (CLASS_FILESYSTEM OR CLASS_OS),
     STRESSOR ''full'' ''FULL'' (CLASS_DEV OR CLASS_MEMORY OR CLASS_OS),
     STRESSOR ''funccall'' ''FUNCCALL'' (CLASS_CPU),
     STRESSOR ''futex'' ''FUTEX'' (CLASS_SCHEDULER OR CLASS_OS),
     STRESSOR ''futex'' ''FUTEX'' (CLASS_SCHEDULER OR CLASS_OS),
     STRESSOR ''get'' ''GET'' (CLASS_OS),
     STRESSOR ''getdent'' ''GETDENT'' (CLASS_FILESYSTEM OR CLASS_OS),
     STRESSOR ''getrandom'' ''GETRANDOM'' (CLASS_OS OR CLASS_CPU),
     STRESSOR ''handle'' ''HANDLE'' (CLASS_FILESYSTEM OR CLASS_OS),
     STRESSOR ''hdd'' ''HDD'' (CLASS_IO OR CLASS_OS),
     STRESSOR ''heapsort'' ''HEAPSORT'' (CLASS_CPU_CACHE OR CLASS_CPU OR CLASS_MEMORY),
     STRESSOR ''hrtimers'' ''HRTIMERS'' (CLASS_SCHEDULER),
     STRESSOR ''hsearch'' ''HSEARCH'' (CLASS_CPU_CACHE OR CLASS_CPU OR CLASS_MEMORY),
     STRESSOR ''icache'' ''ICACHE'' (CLASS_CPU_CACHE),
     STRESSOR ''icmp_flood'' ''ICMP_FLOOD'' (CLASS_OS OR CLASS_NETWORK),
     STRESSOR ''inode_flags'' ''INODE_FLAGS'' (CLASS_OS OR CLASS_FILESYSTEM),
     STRESSOR ''inotify'' ''INOTIFY'' (CLASS_FILESYSTEM OR CLASS_SCHEDULER OR CLASS_OS),
     STRESSOR ''io'' ''IOSYNC'' (CLASS_FILESYSTEM OR CLASS_OS),
     STRESSOR ''iomix'' ''IOMIX'' (CLASS_FILESYSTEM OR CLASS_OS),
     STRESSOR ''ioport'' ''IOPORT'' (CLASS_CPU),
     STRESSOR ''ioprio'' ''IOPRIO'' (CLASS_FILESYSTEM OR CLASS_OS),
     STRESSOR ''itimer'' ''ITIMER'' (CLASS_INTERRUPT OR CLASS_OS),
     STRESSOR ''kcmp'' ''KCMP'' (CLASS_OS), STRESSOR ''key'' ''KEY'' (CLASS_OS),
     STRESSOR ''kill'' ''KILL'' (CLASS_INTERRUPT OR CLASS_SCHEDULER OR CLASS_OS),
     STRESSOR ''klog'' ''KLOG'' (CLASS_OS),
     STRESSOR ''lease'' ''LEASE'' (CLASS_FILESYSTEM OR CLASS_OS),
     STRESSOR ''link'' ''LINK'' (CLASS_FILESYSTEM OR CLASS_OS),
     STRESSOR ''locka'' ''LOCKA'' (CLASS_FILESYSTEM OR CLASS_OS),
     STRESSOR ''lockbus'' ''LOCKBUS'' (CLASS_CPU_CACHE OR CLASS_MEMORY),
     STRESSOR ''lockf'' ''LOCKF'' (CLASS_FILESYSTEM OR CLASS_OS),
     STRESSOR ''lockofd'' ''LOCKOFD'' (CLASS_FILESYSTEM OR CLASS_OS),
     STRESSOR ''longjmp'' ''LONGJMP'' (CLASS_CPU),
     STRESSOR ''lsearch'' ''LSEARCH'' (CLASS_CPU_CACHE OR CLASS_CPU OR CLASS_MEMORY),
     STRESSOR ''madvise'' ''MADVISE'' (CLASS_VM OR CLASS_OS)]"

definition stressors_2 :: "stress_t list" where
  "stressors_2 =
    [STRESSOR ''malloc'' ''MALLOC'' (CLASS_CPU_CACHE OR CLASS_MEMORY OR CLASS_VM OR CLASS_OS),
     STRESSOR ''matrix'' ''MATRIX'' (CLASS_CPU OR CLASS_CPU_CACHE OR CLASS_MEMORY OR CLASS_CPU),
     STRESSOR ''membarrier'' ''MEMBARRIER'' (CLASS_CPU_CACHE OR CLASS_MEMORY),
     STRESSOR ''memcpy'' ''MEMCPY'' (CLASS_CPU_CACHE OR CLASS_MEMORY),
     STRESSOR ''memfd'' ''MEMFD'' (CLASS_OS OR CLASS_MEMORY),
     STRESSOR ''memrate'' ''MEMRATE'' (CLASS_MEMORY),
     STRESSOR ''memthrash'' ''MEMTHRASH'' (CLASS_MEMORY),
     STRESSOR ''mergesort'' ''MERGESORT'' (CLASS_CPU_CACHE OR CLASS_CPU OR CLASS_MEMORY),
     STRESSOR ''mincore'' ''MINCORE'' (CLASS_OS OR CLASS_MEMORY),
     STRESSOR ''mknod'' ''MKNOD'' (CLASS_FILESYSTEM OR CLASS_OS),
     STRESSOR ''mlock'' ''MLOCK'' (CLASS_VM OR CLASS_OS),
     STRESSOR ''mmap'' ''MMAP'' (CLASS_VM OR CLASS_OS),
     STRESSOR ''mmapaddr'' ''MMAPADDR'' (CLASS_VM OR CLASS_OS),
     STRESSOR ''mmapfork'' ''MMAPFORK'' (CLASS_SCHEDULER OR CLASS_VM OR CLASS_OS),
     STRESSOR ''mmapmany'' ''MMAPMANY'' (CLASS_VM OR CLASS_OS),
     STRESSOR ''mq'' ''MQ'' (CLASS_SCHEDULER OR CLASS_OS),
     STRESSOR ''mremap'' ''MREMAP'' (CLASS_VM OR CLASS_OS),
     STRESSOR ''msg'' ''MSG'' (CLASS_SCHEDULER OR CLASS_OS),
     STRESSOR ''msync'' ''MSYNC'' (CLASS_VM OR CLASS_OS),
     STRESSOR ''netdev'' ''NETDEV'' (CLASS_NETWORK),
     STRESSOR ''netlink_proc'' ''NETLINK_PROC'' (CLASS_SCHEDULER OR CLASS_OS),
     STRESSOR ''nice'' ''NICE'' (CLASS_SCHEDULER OR CLASS_OS),
     STRESSOR ''nop'' ''NOP'' (CLASS_CPU),
     STRESSOR ''null'' ''NULL'' (CLASS_DEV OR CLASS_MEMORY OR CLASS_OS),
     STRESSOR ''numa'' ''NUMA'' (CLASS_CPU OR CLASS_MEMORY OR CLASS_OS),
     STRESSOR ''oom_pipe'' ''OOM_PIPE'' (CLASS_MEMORY OR CLASS_OS OR CLASS_PATHOLOGICAL),
     STRESSOR ''opcode'' ''OPCODE'' (CLASS_CPU OR CLASS_OS),
     STRESSOR ''open'' ''OPEN'' (CLASS_FILESYSTEM OR CLASS_OS),
     STRESSOR ''personality'' ''PERSONALITY'' (CLASS_OS),
     STRESSOR ''physpage'' ''PHYSPAGE'' (CLASS_VM),
     STRESSOR ''pipe'' ''PIPE'' (CLASS_PIPE_IO OR CLASS_MEMORY OR CLASS_OS),
     STRESSOR ''poll'' ''POLL'' (CLASS_SCHEDULER OR CLASS_OS),
     STRESSOR ''procfs'' ''PROCFS'' (CLASS_FILESYSTEM OR CLASS_OS),
     STRESSOR ''pthread'' ''PTHREAD'' (CLASS_SCHEDULER OR CLASS_OS),
     STRESSOR ''ptrace'' ''PTRACE'' (CLASS_OS), STRESSOR ''pty'' ''PTY'' (CLASS_OS),
     STRESSOR ''qsort'' ''QSORT'' (CLASS_CPU_CACHE OR CLASS_CPU OR CLASS_MEMORY),
     STRESSOR ''quota'' ''QUOTA'' (CLASS_OS),
     STRESSOR ''radixsort'' ''RADIXSORT'' (CLASS_CPU_CACHE OR CLASS_CPU OR CLASS_MEMORY),
     STRESSOR ''rawdev'' ''RAWDEV'' (CLASS_IO), STRESSOR ''rdrand'' ''RDRAND'' (CLASS_CPU),
     STRESSOR ''readahead'' ''READAHEAD'' (CLASS_IO OR CLASS_OS),
     STRESSOR ''remap'' ''REMAP_FILE_PAGES'' (CLASS_MEMORY OR CLASS_OS),
     STRESSOR ''rename'' ''RENAME'' (CLASS_FILESYSTEM OR CLASS_OS),
     STRESSOR ''resources'' ''RESOURCES'' (CLASS_MEMORY OR CLASS_OS),
     STRESSOR ''rlimit'' ''RLIMIT'' (CLASS_OS),
     STRESSOR ''rmap'' ''RMAP'' (CLASS_OS OR CLASS_MEMORY), STRESSOR ''rtc'' ''RTC'' (CLASS_OS),
     STRESSOR ''schedpolicy'' ''SCHEDPOLICY'' (CLASS_INTERRUPT OR CLASS_SCHEDULER OR CLASS_OS),
     STRESSOR ''sctp'' ''SCTP'' (CLASS_NETWORK), STRESSOR ''seal'' ''SEAL'' (CLASS_OS),
     STRESSOR ''seccomp'' ''SECCOMP'' (CLASS_OS),
     STRESSOR ''seek'' ''SEEK'' (CLASS_IO OR CLASS_OS),
     STRESSOR ''sem'' ''SEMAPHORE_POSIX'' (CLASS_OS OR CLASS_SCHEDULER),
     STRESSOR ''sem_sysv'' ''SEMAPHORE_SYSV'' (CLASS_OS OR CLASS_SCHEDULER),
     STRESSOR ''sendfile'' ''SENDFILE'' (CLASS_PIPE_IO OR CLASS_OS),
     STRESSOR ''sgx'' ''SGX'' (CLASS_CPU OR CLASS_MEMORY),
     STRESSOR ''sgx_vm'' ''SGX_VM'' (CLASS_MEMORY),
     STRESSOR ''shm'' ''SHM_POSIX'' (CLASS_VM OR CLASS_OS),
     STRESSOR ''shm_sysv'' ''SHM_SYSV'' (CLASS_VM OR CLASS_OS),
     STRESSOR ''sigfd'' ''SIGFD'' (CLASS_INTERRUPT OR CLASS_OS),
     STRESSOR ''sigfpe'' ''SIGFPE'' (CLASS_INTERRUPT OR CLASS_OS),
     STRESSOR ''sigpending'' ''SIGPENDING'' (CLASS_INTERRUPT OR CLASS_OS),
     STRESSOR ''sigq'' ''SIGQUEUE'' (CLASS_INTERRUPT OR CLASS_OS),
     STRESSOR ''sigsegv'' ''SIGSEGV'' (CLASS_INTERRUPT OR CLASS_OS),
     STRESSOR ''sigsuspend'' ''SIGSUSPEND'' (CLASS_INTERRUPT OR CLASS_OS),
     STRESSOR ''sleep'' ''SLEEP'' (CLASS_INTERRUPT OR CLASS_SCHEDULER OR CLASS_OS),
     STRESSOR ''sock'' ''SOCKET'' (CLASS_NETWORK OR CLASS_OS),
     STRESSOR ''sockdiag'' ''SOCKET_DIAG'' (CLASS_NETWORK OR CLASS_OS),
     STRESSOR ''sockfd'' ''SOCKET_FD'' (CLASS_NETWORK OR CLASS_OS),
     STRESSOR ''sockpair'' ''SOCKET_PAIR'' (CLASS_NETWORK OR CLASS_OS),
     STRESSOR ''softlockup'' ''SOFTLOCKUP'' (CLASS_SCHEDULER),
     STRESSOR ''spawn'' ''SPAWN'' (CLASS_SCHEDULER OR CLASS_OS),
     STRESSOR ''splice'' ''SPLICE'' (CLASS_PIPE_IO OR CLASS_OS),
     STRESSOR ''stack'' ''STACK'' (CLASS_VM OR CLASS_MEMORY),
     STRESSOR ''stackmmap'' ''STACKMMAP'' (CLASS_VM OR CLASS_MEMORY),
     STRESSOR ''str'' ''STR'' (CLASS_CPU OR CLASS_CPU_CACHE OR CLASS_MEMORY),
     STRESSOR ''stream'' ''STREAM'' (CLASS_CPU OR CLASS_CPU_CACHE OR CLASS_MEMORY),
     STRESSOR ''swap'' ''SWAP'' (CLASS_VM OR CLASS_OS),
     STRESSOR ''switch'' ''SWITCH'' (CLASS_SCHEDULER OR CLASS_OS),
     STRESSOR ''symlink'' ''SYMLINK'' (CLASS_FILESYSTEM OR CLASS_OS),
     STRESSOR ''sync_file'' ''SYNC_FILE'' (CLASS_IO OR CLASS_FILESYSTEM OR CLASS_OS),
     STRESSOR ''sysfs'' ''SYSFS'' (CLASS_OS), STRESSOR ''sysinfo'' ''SYSINFO'' (CLASS_OS),
     STRESSOR ''tee'' ''TEE'' (CLASS_PIPE_IO OR CLASS_OS OR CLASS_SCHEDULER),
     STRESSOR ''timer'' ''TIMER'' (CLASS_INTERRUPT OR CLASS_OS),
     STRESSOR ''timerfd'' ''TIMERFD'' (CLASS_INTERRUPT OR CLASS_OS),
     STRESSOR ''tlb_shootdown'' ''TLB_SHOOTDOWN'' (CLASS_OS OR CLASS_MEMORY),
     STRESSOR ''tmpfs'' ''TMPFS'' (CLASS_MEMORY OR CLASS_VM OR CLASS_OS),
     STRESSOR ''tree'' ''TREE'' (CLASS_CPU_CACHE OR CLASS_CPU OR CLASS_MEMORY),
     STRESSOR ''tsc'' ''TSC'' (CLASS_CPU),
     STRESSOR ''tsearch'' ''TSEARCH'' (CLASS_CPU_CACHE OR CLASS_CPU OR CLASS_MEMORY),
     STRESSOR ''udp'' ''UDP'' (CLASS_NETWORK OR CLASS_OS),
     STRESSOR ''udp_flood'' ''UDP_FLOOD'' (CLASS_NETWORK OR CLASS_OS),
     STRESSOR ''unshare'' ''UNSHARE'' (CLASS_OS),
     STRESSOR ''urandom'' ''URANDOM'' (CLASS_DEV OR CLASS_OS),
     STRESSOR ''userfaultfd'' ''USERFAULTFD'' (CLASS_VM OR CLASS_OS),
     STRESSOR ''utime'' ''UTIME'' (CLASS_FILESYSTEM OR CLASS_OS),
     STRESSOR ''vecmath'' ''VECMATH'' (CLASS_CPU OR CLASS_CPU_CACHE),
     STRESSOR ''vfork'' ''VFORK'' (CLASS_SCHEDULER OR CLASS_OS),
     STRESSOR ''vforkmany'' ''VFORKMANY'' (CLASS_SCHEDULER OR CLASS_OS),
     STRESSOR ''vm'' ''VM'' (CLASS_VM OR CLASS_MEMORY OR CLASS_OS),
     STRESSOR ''vm_rw'' ''VM_RW'' (CLASS_VM OR CLASS_MEMORY OR CLASS_OS),
     STRESSOR ''vm_splice'' ''VM_SPLICE'' (CLASS_VM OR CLASS_PIPE_IO OR CLASS_OS),
     STRESSOR ''wait'' ''WAIT'' (CLASS_SCHEDULER OR CLASS_OS),
     STRESSOR ''wcs'' ''WCS'' (CLASS_CPU OR CLASS_CPU_CACHE OR CLASS_MEMORY),
     STRESSOR ''xattr'' ''XATTR'' (CLASS_FILESYSTEM OR CLASS_OS),
     STRESSOR ''yield'' ''YIELD'' (CLASS_SCHEDULER OR CLASS_OS),
     STRESSOR ''zero'' ''ZERO'' (CLASS_DEV OR CLASS_MEMORY OR CLASS_OS),
     STRESSOR ''zlib'' ''ZLIB'' (CLASS_CPU OR CLASS_CPU_CACHE OR CLASS_MEMORY),
     STRESSOR ''zombie'' ''ZOMBIE'' (CLASS_SCHEDULER OR CLASS_OS)]"

text \<open>The rows before the terminating entry.\<close>

definition stressors :: "stress_t list" where
  "stressors = stressors_1 @ stressors_2"


section \<open>Look-up by name\<close>

text \<open>The static buffer has room for 127 characters.\<close>

definition munge_underscore :: "string \<Rightarrow> string" where
  "munge_underscore str = map (\<lambda>c. if c = CHR ''_'' then CHR ''-'' else c) (take 127 str)"

definition stressor_name_find :: "string \<Rightarrow> nat" where
  "stressor_name_find name =
    length (takeWhile (\<lambda>s. munge_underscore (st_name s) \<noteq> munge_underscore name) stressors)"

lemma length_stressors: "length stressors = 192"
  by (simp add: stressors_def stressors_1_def stressors_2_def)

lemma STRESS_MAX_191: "STRESS_MAX = 191"
  by (simp add: STRESS_MAX_def stress_ids_def)

lemma futex_twice: "stressors ! 49 = STRESSOR ''futex'' ''FUTEX'' (CLASS_SCHEDULER OR CLASS_OS)" "stressors ! 50 = stressors ! 49"
  by (simp_all add: stressors_def stressors_1_def)

lemma zombie_last: "stressors ! 191 = STRESSOR ''zombie'' ''ZOMBIE'' (CLASS_SCHEDULER OR CLASS_OS)"
  by (simp add: stressors_def stressors_1_def stressors_2_def nth_append)

lemma zombie_only_last: "i < 191 \<Longrightarrow> st_name (stressors ! i) \<noteq> ''zombie''"
proof -
  have "list_all (\<lambda>s. st_name s \<noteq> ''zombie'') stressors_1"
    by (simp add: stressors_1_def STRESSOR_def)
  moreover have "list_all (\<lambda>s. st_name s \<noteq> ''zombie'') (butlast stressors_2)"
    by (simp add: stressors_2_def STRESSOR_def)
  moreover have "stressors_2 \<noteq> []" by (simp add: stressors_2_def)
  ultimately have "list_all (\<lambda>s. st_name s \<noteq> ''zombie'') (butlast stressors)"
    by (simp add: stressors_def butlast_append)
  then have "\<forall>n < 191. st_name (butlast stressors ! n) \<noteq> ''zombie''" using length_stressors by (simp add: list_all_length)
  moreover assume "i < 191"
  then have "butlast stressors ! i = stressors ! i" using length_stressors nth_butlast [of i stressors] by simp
  ultimately show ?thesis using \<open>i < 191\<close> by metis
qed

text \<open>Look-up gives the first row with that name, up to underscores, or the position of the terminating entry.\<close>

lemma stressor_name_find_spec:
  "stressor_name_find name = i \<longleftrightarrow>
    (i = length stressors \<or> i < length stressors \<and> munge_underscore (st_name (stressors ! i)) = munge_underscore name)
    \<and> (\<forall>j < i. munge_underscore (st_name (stressors ! j)) \<noteq> munge_underscore name)"
proof -
  have "length (takeWhile P xs) = i \<longleftrightarrow>
      (i = length xs \<or> i < length xs \<and> \<not> P (xs ! i)) \<and> (\<forall>j < i. P (xs ! j))" for P and xs :: "stress_t list"
  proof (induction xs arbitrary: i)
    case (Cons x xs)
    then show ?case by (cases i) (auto simp: All_less_Suc2)
  qed auto
  then show ?thesis unfolding stressor_name_find_def by simp
qed

section \<open>Lists of classes\<close>

fun class_find :: "string \<Rightarrow> (u32 \<times> string) list \<Rightarrow> u32" where
  "class_find str [] = 0"
| "class_find str ((c, name) # cs) = (if name = str then c else class_find str cs)"

definition get_class_id :: "string \<Rightarrow> u32" where
  "get_class_id str = class_find str classes"

text \<open>The tokens that repeated calls of \<open>strtok\<close> with a single separator return.\<close>

function strtok_all :: "char \<Rightarrow> string \<Rightarrow> string list" where
  "strtok_all d s =
    (let r = dropWhile (\<lambda>c. c = d) s
     in if r = [] then []
        else takeWhile (\<lambda>c. c \<noteq> d) r # strtok_all d (dropWhile (\<lambda>c. c \<noteq> d) r))"
  by auto
termination
proof (relation "measure (\<lambda>(d, s). length s)")
  fix d s and r :: string
  assume r: "r = dropWhile (\<lambda>c. c = d) s" "r \<noteq> []"
  then have "hd r \<noteq> d" using hd_dropWhile [of "\<lambda>c. c = d" s] by simp
  then obtain c cs where cs: "r = c # cs" "c \<noteq> d" using r(2) by (cases r) auto
  have "length (dropWhile (\<lambda>c. c \<noteq> d) r) < length r" using cs by (simp add: length_dropWhile_le le_imp_less_Suc)
  moreover have "length r \<le> length s" unfolding r by (rule length_dropWhile_le)
  ultimately show "((d, dropWhile (\<lambda>c. c \<noteq> d) r), d, s) \<in> measure (\<lambda>(d, s). length s)" by simp
qed simp

declare strtok_all.simps [simp del]

text \<open>
  The three ways \<open>get_class\<close> returns: 0 with the mask, 1 after listing the stressors of a class
  (asked for with a question mark), -1 at an unknown name.
\<close>

datatype class_result = Class_mask u32 | Class_members "string list" | Class_unknown string

fun get_class_loop :: "string list \<Rightarrow> u32 \<Rightarrow> class_result" where
  "get_class_loop [] cls = Class_mask cls"
| "get_class_loop (token # tokens) cls =
    (let cl = get_class_id token
     in if cl = 0
        then if 1 < length token \<and> last token = CHR ''?'' \<and> get_class_id (butlast token) \<noteq> 0
             then Class_members (map (munge_underscore \<circ> st_name)
                    (filter (\<lambda>s. st_class s AND get_class_id (butlast token) \<noteq> 0) stressors))
             else Class_unknown (if 1 < length token \<and> last token = CHR ''?'' then butlast token else token)
        else get_class_loop tokens (cls OR cl))"

definition get_class :: "string \<Rightarrow> class_result" where
  "get_class class_str = get_class_loop (strtok_all (CHR '','') class_str) 0"

text \<open>A list of words separated by single separators is read back.\<close>

primrec join_with :: "char \<Rightarrow> string list \<Rightarrow> string" where
  "join_with d [] = []"
| "join_with d (w # ws) = w @ (if ws = [] then [] else d # join_with d ws)"

lemma strtok_join:
  "(\<And>w. w \<in> set ws \<Longrightarrow> w \<noteq> [] \<and> d \<notin> set w) \<Longrightarrow> strtok_all d (join_with d ws) = ws"
proof (induction ws)
  case Nil
  show ?case by (simp add: strtok_all.simps)
next
  case (Cons w ws)
  have w: "w \<noteq> []" "d \<notin> set w" using Cons.prems by auto
  let ?r = "if ws = [] then [] else d # join_with d ws"
  have "hd w \<noteq> d" using w by (metis hd_in_set)
  then have 1: "dropWhile (\<lambda>c. c = d) (w @ ?r) = w @ ?r" using w by (cases w) auto
  have 2: "takeWhile (\<lambda>c. c \<noteq> d) (w @ ?r) = w" using w by (auto simp: takeWhile_append)
  have 3: "dropWhile (\<lambda>c. c \<noteq> d) (w @ ?r) = ?r" using w by (auto simp: dropWhile_append)
  have "strtok_all d ?r = ws"
  proof (cases "ws = []")
    case False
    have "strtok_all d (d # join_with d ws) = strtok_all d (join_with d ws)" by (simp add: strtok_all.simps)
    then show ?thesis using Cons False by simp
  qed (simp add: strtok_all.simps)
  then show ?case using w 1 2 3 by (subst strtok_all.simps) (simp add: Let_def)
qed

lemma class_find_in: "name \<in> snd ` set cs \<Longrightarrow> class_find name cs \<in> fst ` set cs"
proof (induction cs)
  case (Cons x cs)
  then show ?case by (cases x; cases "snd x = name") simp_all
qed simp

lemma classes_ok: "list_all (\<lambda>(c, name). name \<noteq> [] \<and> CHR '','' \<notin> set name) classes" "list_all (\<lambda>(c, name). c \<noteq> 0) classes"
  by (simp add: classes_def)
    (simp add: classes_def CLASS_CPU_CACHE_def CLASS_CPU_def CLASS_DEV_def CLASS_FILESYSTEM_def
      CLASS_INTERRUPT_def CLASS_IO_def CLASS_MEMORY_def CLASS_NETWORK_def CLASS_OS_def CLASS_PIPE_IO_def
      CLASS_SCHEDULER_def CLASS_SECURITY_def CLASS_VM_def)

lemma class_names:
  assumes "name \<in> snd ` set classes"
  shows "name \<noteq> [] \<and> CHR '','' \<notin> set name \<and> get_class_id name \<noteq> 0"
proof -
  have "get_class_id name \<in> fst ` set classes" unfolding get_class_id_def using assms by (rule class_find_in)
  then have "get_class_id name \<noteq> 0" using classes_ok(2) unfolding list_all_iff by force
  then show ?thesis using assms classes_ok(1) unfolding list_all_iff by force
qed

lemma get_class_loop_known:
  "set ns \<subseteq> snd ` set classes \<Longrightarrow> get_class_loop ns c = Class_mask (fold (\<lambda>n c. c OR get_class_id n) ns c)"
proof (induction ns arbitrary: c)
  case (Cons n ns)
  then have "get_class_id n \<noteq> 0" using class_names [of n] by auto
  then show ?case using Cons by simp
qed simp

lemma get_class_loop_unknown:
  "set ns \<subseteq> snd ` set classes \<Longrightarrow> get_class_id w = 0 \<Longrightarrow> last w \<noteq> CHR ''?'' \<Longrightarrow>
    get_class_loop (ns @ w # ws) c = Class_unknown w"
proof (induction ns arbitrary: c)
  case (Cons n ns)
  then have "get_class_id n \<noteq> 0" using class_names [of n] by auto
  then show ?case using Cons by simp
qed simp

text \<open>
  A comma separated list of class names is parsed to the union of the classes; at the first
  name that is not a class the whole list is rejected, whatever follows.
\<close>

theorem get_class_list:
  assumes "set ns \<subseteq> snd ` set classes"
  shows "get_class (join_with (CHR '','') ns) = Class_mask (fold (\<lambda>n c. c OR get_class_id n) ns 0)
    \<and> (w \<noteq> [] \<and> CHR '','' \<notin> set w \<and> w \<notin> snd ` set classes \<and> last w \<noteq> CHR ''?'' \<and> (\<forall>v \<in> set ws. v \<noteq> [] \<and> CHR '','' \<notin> set v)
      \<longrightarrow> get_class (join_with (CHR '','') (ns @ w # ws)) = Class_unknown w)"
proof (intro conjI impI)
  have k: "v \<noteq> [] \<and> CHR '','' \<notin> set v" if "v \<in> set ns" for v using class_names [of v] assms that by auto
  show "get_class (join_with (CHR '','') ns) = Class_mask (fold (\<lambda>n c. c OR get_class_id n) ns 0)"
    unfolding get_class_def by (subst strtok_join) (use k assms get_class_loop_known in auto)
  have z: "class_find w cs = 0" if "w \<notin> snd ` set cs" for cs using that by (induction cs) auto
  assume w: "w \<noteq> [] \<and> CHR '','' \<notin> set w \<and> w \<notin> snd ` set classes \<and> last w \<noteq> CHR ''?'' \<and> (\<forall>v \<in> set ws. v \<noteq> [] \<and> CHR '','' \<notin> set v)"
  then have "get_class_id w = 0" using z by (simp add: get_class_id_def)
  then show "get_class (join_with (CHR '','') (ns @ w # ws)) = Class_unknown w"
    unfolding get_class_def using w k by (subst strtok_join) (auto intro: get_class_loop_unknown [OF assms])
qed

theorem get_class_list_witness:
  "get_class ''cpu,vm,os'' = Class_mask ((CLASS_CPU OR CLASS_VM) OR CLASS_OS)
    \<and> get_class ''cpu,nosuch,vm'' = Class_unknown ''nosuch''"
  using get_class_list [of "[''cpu'', ''vm'', ''os'']" "[]" "[]"] get_class_list [of "[''cpu'']" "''nosuch''" "[''vm'']"]
  by (simp add: classes_def get_class_id_def)

end
