(* ===== verification/Procs.thy ===== *)
theory Procs
  imports Stressors Opt_Flags Mwc
begin

text \<open>
  The list of stressors to run, as stress-ng.c keeps it: a doubly linked list of \<open>proc_info_t\<close>
  structures between procs_head and procs_tail.  Nodes live in a heap of addresses; following a
  pointer to no node, reading outside an array and a loop that does not end have no result.  The pointer operations refine
  plain lists, and every loop over the list is an instance of one of two loops.
\<close>

section \<open>The doubly linked list\<close>

record proc =
  pr_stressor :: nat
  pids :: "int list"
  stats :: "nat option list"
  started_procs :: int
  num_procs :: int
  bogo_ops :: u64

record proc_info =
  pi_next :: "nat option"
  pi_prev :: "nat option"
  pi_proc :: proc

record procs =
  p_heap :: "nat \<Rightarrow> proc_info option"
  procs_head :: "nat option"
  procs_tail :: "nat option"

text \<open>\<open>exit (EXIT_FAILURE)\<close> and the like; the argument is the exit status.\<close>

datatype exit_status = Exit nat

definition EXIT_SUCCESS :: nat where "EXIT_SUCCESS = 0"
definition EXIT_FAILURE :: nat where "EXIT_FAILURE = 1"
definition EXIT_NOT_SUCCESS :: nat where "EXIT_NOT_SUCCESS = 2"
definition EXIT_NO_RESOURCE :: nat where "EXIT_NO_RESOURCE = 3"
definition EXIT_NOT_IMPLEMENTED :: nat where "EXIT_NOT_IMPLEMENTED = 4"
definition EXIT_SIGNALED :: nat where "EXIT_SIGNALED = 5"

definition procs_init :: procs where
  "procs_init = \<lparr>p_heap = Map.empty, procs_head = None, procs_tail = None\<rparr>"

definition new_proc :: "nat \<Rightarrow> proc" where
  "new_proc s = \<lparr>pr_stressor = s, pids = [], stats = [], started_procs = 0, num_procs = 0, bogo_ops = 0\<rparr>"

definition the_stressor :: "proc \<Rightarrow> stress_t" where
  "the_stressor p = stressors ! pr_stressor p"

text \<open>An assignment to a field of the node a pointer refers to.\<close>

definition set_node :: "nat \<Rightarrow> (proc_info \<Rightarrow> proc_info) \<Rightarrow> procs \<Rightarrow> procs option" where
  "set_node a f st = (case p_heap st a of None \<Rightarrow> None | Some n \<Rightarrow> Some (st\<lparr>p_heap := (p_heap st)(a \<mapsto> f n)\<rparr>))"

text \<open>The first argument is the result of \<open>calloc\<close>, the second the row of the table of stressors.\<close>

definition find_proc_info :: "nat option \<Rightarrow> nat \<Rightarrow> procs \<Rightarrow> (exit_status + nat \<times> procs) option" where
  "find_proc_info mem stressor st =
    (case mem of None \<Rightarrow> Some (Inl (Exit EXIT_FAILURE))
     | Some pi \<Rightarrow>
        (let st = st\<lparr>p_heap := (p_heap st)(pi \<mapsto> \<lparr>pi_next = None, pi_prev = None, pi_proc = new_proc stressor\<rparr>)\<rparr>
         in case (case procs_tail st of
                    Some t \<Rightarrow> set_node t (\<lambda>n. n\<lparr>pi_next := Some pi\<rparr>) st
                  | None \<Rightarrow> Some (st\<lparr>procs_head := Some pi\<rparr>)) of
              None \<Rightarrow> None
            | Some st \<Rightarrow>
                (case set_node pi (\<lambda>n. n\<lparr>pi_prev := procs_tail st\<rparr>) st of
                   None \<Rightarrow> None
                 | Some st \<Rightarrow> Some (Inr (pi, st\<lparr>procs_tail := Some pi\<rparr>)))))"

text \<open>\<open>if (p) p->next = v\<close> and \<open>if (p) p->prev = v\<close>.\<close>

definition link_next :: "nat option \<Rightarrow> nat option \<Rightarrow> procs \<Rightarrow> procs option" where
  "link_next p v st = (case p of None \<Rightarrow> Some st | Some a \<Rightarrow> set_node a (\<lambda>n. n\<lparr>pi_next := v\<rparr>) st)"

definition link_prev :: "nat option \<Rightarrow> nat option \<Rightarrow> procs \<Rightarrow> procs option" where
  "link_prev p v st = (case p of None \<Rightarrow> Some st | Some a \<Rightarrow> set_node a (\<lambda>n. n\<lparr>pi_prev := v\<rparr>) st)"

definition remove_proc :: "nat \<Rightarrow> procs \<Rightarrow> procs option" where
  "remove_proc pi st =
    Option.bind (p_heap st pi) (\<lambda>n.
    Option.bind
      (if procs_head st = Some pi
       then link_prev (pi_next n) (pi_prev n) (st\<lparr>procs_head := pi_next n\<rparr>)
       else link_next (pi_prev n) (pi_next n) st) (\<lambda>st.
    Option.bind (p_heap st pi) (\<lambda>n.
      if procs_tail st = Some pi
      then link_next (pi_prev n) (pi_next n) (st\<lparr>procs_tail := pi_prev n\<rparr>)
      else link_prev (pi_next n) (pi_prev n) st)))"

text \<open>
  \<open>for (pi = procs_head; pi; pi = pi->next) body\<close>: the body may change the fields of the node (not its links),
  a state of its own, leave the array bounds (\<open>None\<close>) or exit.
\<close>

partial_function (option) for_procs ::
  "(proc \<Rightarrow> 's \<Rightarrow> (exit_status + proc \<times> 's) option) \<Rightarrow> nat option \<Rightarrow> 's \<Rightarrow> procs \<Rightarrow>
    (exit_status + 's \<times> procs) option" where
  "for_procs body p s st =
    (case p of None \<Rightarrow> Some (Inr (s, st))
     | Some a \<Rightarrow>
        Option.bind (p_heap st a) (\<lambda>n.
        Option.bind (body (pi_proc n) s) (\<lambda>r.
        case r of Inl e \<Rightarrow> Some (Inl e)
        | Inr (q, s) \<Rightarrow>
            for_procs body (pi_next n) s (st\<lparr>p_heap := (p_heap st)(a \<mapsto> n\<lparr>pi_proc := q\<rparr>)\<rparr>))))"

text \<open>\<open>while (pi) { next = pi->next; if (cond) remove_proc (pi); pi = next; }\<close>\<close>

partial_function (option) remove_loop :: "(proc \<Rightarrow> bool) \<Rightarrow> nat option \<Rightarrow> procs \<Rightarrow> procs option" where
  "remove_loop cond p st =
    (case p of None \<Rightarrow> Some st
     | Some a \<Rightarrow>
        Option.bind (p_heap st a) (\<lambda>n.
        if cond (pi_proc n)
        then Option.bind (remove_proc a st) (\<lambda>st. remove_loop cond (pi_next n) st)
        else remove_loop cond (pi_next n) st))"

partial_function (option) free_loop :: "(nat \<Rightarrow> proc_info option) \<Rightarrow> nat option \<Rightarrow> (nat \<Rightarrow> proc_info option) option" where
  "free_loop h p =
    (case p of None \<Rightarrow> Some h
     | Some a \<Rightarrow> Option.bind (h a) (\<lambda>n. free_loop (h(a := None)) (pi_next n)))"

definition free_procs :: "procs \<Rightarrow> procs option" where
  "free_procs st =
    (case free_loop (p_heap st) (procs_head st) of None \<Rightarrow> None
     | Some h \<Rightarrow> Some \<lparr>p_heap = h, procs_head = None, procs_tail = None\<rparr>)"

primrec nth_loop :: "nat \<Rightarrow> nat option \<Rightarrow> procs \<Rightarrow> nat option option" where
  "nth_loop 0 p st = Some p"
| "nth_loop (Suc n) p st =
    (case p of None \<Rightarrow> Some None
     | Some a \<Rightarrow> (case p_heap st a of None \<Rightarrow> None | Some nd \<Rightarrow> nth_loop n (pi_next nd) st))"

definition get_nth_proc :: "nat \<Rightarrow> procs \<Rightarrow> nat option option" where
  "get_nth_proc n st = nth_loop n (procs_head st) st"

definition get_num_procs :: "procs \<Rightarrow> (exit_status + nat \<times> procs) option" where
  "get_num_procs st = for_procs (\<lambda>p n. Some (Inr (p, n + 1))) (procs_head st) 0 st"

text \<open>A sum of signed 32 bit numbers in an unsigned 32 bit variable.\<close>

definition get_total_num_procs :: "nat option \<Rightarrow> procs \<Rightarrow> (exit_status + u32 \<times> procs) option" where
  "get_total_num_procs procs_list st =
    for_procs (\<lambda>p n. Some (Inr (p, n + word_of_int (num_procs p)))) procs_list 0 st"

section \<open>The list it stands for\<close>

text \<open>A segment of the list: the addresses, the pointer back from the first and the pointer on from the last node.\<close>

fun seg :: "(nat \<Rightarrow> proc_info option) \<Rightarrow> nat option \<Rightarrow> nat list \<Rightarrow> proc list \<Rightarrow> nat option \<Rightarrow> bool" where
  "seg h prv [] [] nxt = True"
| "seg h prv (a # as) (p # ps) nxt =
    (h a = Some \<lparr>pi_next = (if as = [] then nxt else Some (hd as)), pi_prev = prv, pi_proc = p\<rparr> \<and> seg h (Some a) as ps nxt)"
| "seg h prv _ _ nxt = False"

definition last_ptr :: "nat list \<Rightarrow> nat option" where "last_ptr as = (if as = [] then None else Some (last as))"
definition hd_ptr :: "nat list \<Rightarrow> nat option" where "hd_ptr as = (if as = [] then None else Some (hd as))"

definition procs_rel :: "procs \<Rightarrow> nat list \<Rightarrow> proc list \<Rightarrow> bool" where
  "procs_rel st as ps \<longleftrightarrow> seg (p_heap st) None as ps None \<and> distinct as
    \<and> procs_head st = hd_ptr as \<and> procs_tail st = last_ptr as"

lemma hd_ptr_simps [simp]: "hd_ptr [] = None" "hd_ptr (a # as) = Some a"
  "hd_ptr (as @ bs) = (if as = [] then hd_ptr bs else hd_ptr as)"
  by (auto simp: hd_ptr_def)

lemma last_ptr_simps [simp]: "last_ptr [] = None" "last_ptr (as @ [a]) = Some a"
  "last_ptr (as @ bs) = (if bs = [] then last_ptr as else last_ptr bs)" "last_ptr (a # as) = (if as = [] then Some a else last_ptr as)"
  by (auto simp: last_ptr_def)

lemma seg_length: "seg h prv as ps nxt \<Longrightarrow> length as = length ps"
  by (induction h prv as ps nxt rule: seg.induct) auto

lemma seg_append:
  "length as = length ps \<Longrightarrow> seg h prv (as @ bs) (ps @ qs) nxt \<longleftrightarrow>
    seg h prv as ps (if bs = [] then nxt else Some (hd bs)) \<and> seg h (if as = [] then prv else Some (last as)) bs qs nxt"
proof (induction as ps arbitrary: prv rule: list_induct2)
  case (Cons a as p ps)
  then show ?case by (cases as) auto
qed simp

lemma seg_cong: "(\<And>a. a \<in> set as \<Longrightarrow> h a = h' a) \<Longrightarrow> seg h prv as ps nxt = seg h' prv as ps nxt"
  by (induction h prv as ps nxt rule: seg.induct) auto

lemma seg_upd [simp]: "a \<notin> set as \<Longrightarrow> seg (h(a := x)) prv as ps nxt = seg h prv as ps nxt"
  by (rule seg_cong) auto


lemma find_proc_info_rel:
  assumes "procs_rel st as ps" and "a \<notin> set as"
  obtains st' where "find_proc_info (Some a) s st = Some (Inr (a, st'))"
    and "procs_rel st' (as @ [a]) (ps @ [new_proc s])"
    and "\<And>b. b \<notin> set (as @ [a]) \<Longrightarrow> p_heap st' b = p_heap st b"
proof (cases as rule: rev_cases)
  case Nil
  then have "ps = []" using assms by (cases ps) (auto simp: procs_rel_def)
  then show ?thesis using that assms Nil
    by (simp add: find_proc_info_def procs_rel_def set_node_def Let_def)
next
  case (snoc bs t)
  then obtain qs q where ps: "ps = qs @ [q]" "length bs = length qs"
    using assms seg_length [of "p_heap st" None as ps None] by (cases ps rule: rev_cases) (auto simp: procs_rel_def)
  have h: "p_heap st t = Some \<lparr>pi_next = None, pi_prev = (if bs = [] then None else Some (last bs)), pi_proc = q\<rparr>"
    "seg (p_heap st) None bs qs (Some t)" "procs_tail st = Some t" "t \<notin> set bs" "a \<noteq> t" "a \<notin> set bs" "distinct bs"
    "procs_head st = hd_ptr as"
    using assms snoc ps by (auto simp: procs_rel_def seg_append)
  then show ?thesis using that snoc ps
    by (simp add: find_proc_info_def procs_rel_def set_node_def Let_def seg_append hd_ptr_def hd_append)
qed

lemma remove_proc_rel:
  assumes "procs_rel st (as @ a # bs) (ps @ p # qs)" and l: "length as = length ps"
  obtains st' where "remove_proc a st = Some st'" and "procs_rel st' (as @ bs) (ps @ qs)"
proof -
  let ?h = "p_heap st"
  have d: "distinct (as @ a # bs)" "procs_head st = hd_ptr (as @ a # bs)" "procs_tail st = last_ptr (as @ a # bs)"
    and s: "seg ?h None as ps (Some a)" "seg ?h (Some a) bs qs None"
    and n: "?h a = Some \<lparr>pi_next = hd_ptr bs, pi_prev = last_ptr as, pi_proc = p\<rparr>"
    using assms by (auto simp: procs_rel_def seg_append hd_ptr_def last_ptr_def)
  have hda: "procs_head st = Some a \<longleftrightarrow> as = []" using d by (cases as) auto
  have tla: "procs_tail st = Some a \<longleftrightarrow> bs = []" using d by (cases bs rule: rev_cases) (auto simp: last_ptr_def)
  show thesis
  proof (cases as rule: rev_cases)
    case Nil
    show thesis
    proof (cases bs)
      case Nil
      then show thesis using that d s n hda tla \<open>as = []\<close> l
        by (simp add: remove_proc_def link_prev_def link_next_def procs_rel_def) (cases qs, auto)
    next
      case (Cons y bs')
      then obtain q qs' where q: "qs = q # qs'" using s by (cases qs) auto
      then show thesis using that d s n hda tla \<open>as = []\<close> l Cons
        by (auto simp: remove_proc_def link_prev_def link_next_def set_node_def procs_rel_def last_ptr_def)
    qed
  next
    case (snoc as' x)
    then obtain ps' r where r: "ps = ps' @ [r]" "length as' = length ps'" using l by (cases ps rule: rev_cases) auto
    show thesis
    proof (cases bs)
      case Nil
      then have "qs = []" using s by (cases qs) auto
      then show thesis using that d s n hda tla snoc r Nil
        by (auto simp: remove_proc_def link_prev_def link_next_def set_node_def procs_rel_def seg_append hd_ptr_def hd_append)
    next
      case (Cons y bs')
      then obtain q qs' where q: "qs = q # qs'" using s by (cases qs) auto
      then show thesis using that d s n hda tla snoc r Cons
        by (auto simp: remove_proc_def link_prev_def link_next_def set_node_def procs_rel_def seg_append hd_ptr_def last_ptr_def hd_append)
    qed
  qed
qed


subsection \<open>Loops over the list\<close>

text \<open>What a loop does to the list of structures and to its own state.\<close>

fun thread :: "(proc \<Rightarrow> 's \<Rightarrow> (exit_status + proc \<times> 's) option) \<Rightarrow> proc list \<Rightarrow> 's \<Rightarrow> (exit_status + proc list \<times> 's) option" where
  "thread body [] s = Some (Inr ([], s))"
| "thread body (p # ps) s =
    Option.bind (body p s) (\<lambda>r. case r of Inl e \<Rightarrow> Some (Inl e)
      | Inr (q, s) \<Rightarrow> Option.bind (thread body ps s) (\<lambda>r. case r of Inl e \<Rightarrow> Some (Inl e)
          | Inr (qs, s) \<Rightarrow> Some (Inr (q # qs, s))))"

lemma for_procs_exit:
  assumes "seg (p_heap st) prv as ps None" and "distinct as" and "thread body ps s = Some (Inl e)"
  shows "for_procs body (hd_ptr as) s st = Some (Inl e)"
  using assms
proof (induction ps arbitrary: prv as s st)
  case (Cons p ps)
  obtain a bs where as: "as = a # bs" using Cons.prems by (cases as) auto
  have n: "p_heap st a = Some \<lparr>pi_next = hd_ptr bs, pi_prev = prv, pi_proc = p\<rparr>" "seg (p_heap st) (Some a) bs ps None"
    using Cons.prems as by (auto simp: hd_ptr_def)
  show ?case
  proof (cases "body p s")
    case (Some r)
    show ?thesis
    proof (cases r)
      case (Inr x)
      obtain q s' where x: "x = (q, s')" by fastforce
      have "thread body ps s' = Some (Inl e)"
        using Cons.prems(3) Some Inr x by (auto split: option.splits sum.splits bind_splits)
      moreover let ?st = "st\<lparr>p_heap := (p_heap st)(a \<mapsto> \<lparr>pi_next = hd_ptr bs, pi_prev = prv, pi_proc = q\<rparr>)\<rparr>"
      have "seg (p_heap ?st) (Some a) bs ps None" "distinct bs" using n Cons.prems(2) as by simp_all
      ultimately have "for_procs body (hd_ptr bs) s' ?st = Some (Inl e)" using Cons.IH by blast
      then show ?thesis using n as Some Inr x by (subst for_procs.simps) simp
    qed (use Cons.prems Some as n in \<open>subst for_procs.simps, simp\<close>)
  qed (use Cons.prems in simp)
qed simp

lemma for_procs_thread:
  assumes "seg (p_heap st) prv as ps None" and "distinct as" and "thread body ps s = Some (Inr (qs, s'))"
  obtains h where "for_procs body (hd_ptr as) s st = Some (Inr (s', st\<lparr>p_heap := h\<rparr>))"
    and "seg h prv as qs None" and "\<And>b. b \<notin> set as \<Longrightarrow> h b = p_heap st b"
proof -
  have "\<exists>h. for_procs body (hd_ptr as) s st = Some (Inr (s', st\<lparr>p_heap := h\<rparr>))
      \<and> seg h prv as qs None \<and> (\<forall>b. b \<notin> set as \<longrightarrow> h b = p_heap st b)"
    using assms
  proof (induction ps arbitrary: prv as s st qs)
    case Nil
    then have "as = []" by (cases as) auto
    then show ?case using Nil by (intro exI [of _ "p_heap st"]) (simp add: for_procs.simps)
  next
    case (Cons p ps)
    obtain a bs where as: "as = a # bs" using Cons.prems by (cases as) auto
    have n: "p_heap st a = Some \<lparr>pi_next = hd_ptr bs, pi_prev = prv, pi_proc = p\<rparr>" "seg (p_heap st) (Some a) bs ps None"
      "a \<notin> set bs" "distinct bs"
      using Cons.prems as by (auto simp: hd_ptr_def)
    obtain q t rs where q: "body p s = Some (Inr (q, t))" "thread body ps t = Some (Inr (rs, s'))" "qs = q # rs"
      using Cons.prems(3) by (auto split: option.splits sum.splits bind_splits prod.splits)
    let ?st = "st\<lparr>p_heap := (p_heap st)(a \<mapsto> \<lparr>pi_next = hd_ptr bs, pi_prev = prv, pi_proc = q\<rparr>)\<rparr>"
    have sg: "seg (p_heap ?st) (Some a) bs ps None" using n by simp
    obtain h where h: "for_procs body (hd_ptr bs) t ?st = Some (Inr (s', ?st\<lparr>p_heap := h\<rparr>))"
      "seg h (Some a) bs rs None" "\<And>b. b \<notin> set bs \<Longrightarrow> h b = p_heap ?st b"
      using Cons.IH [OF sg n(4) q(2)] by blast
    have "for_procs body (hd_ptr as) s st = Some (Inr (s', st\<lparr>p_heap := h\<rparr>))"
      using h(1) n q as by (subst for_procs.simps) simp
    moreover have "seg h prv as qs None" using h(2) h(3) [of a] n as q by (auto simp: hd_ptr_def)
    moreover have "h b = p_heap st b" if "b \<notin> set as" for b using h(3) [of b] that as by auto
    ultimately show ?case by blast
  qed
  then show thesis using that by blast
qed

lemma remove_loop_seg:
  assumes "procs_rel st (as @ bs) (ps @ qs)" and "length as = length ps"
  obtains st' bs' where "remove_loop cond (hd_ptr bs) st = Some st'"
    and "procs_rel st' (as @ bs') (ps @ filter (\<lambda>p. \<not> cond p) qs)" and "set bs' \<subseteq> set bs"
proof -
  have "\<exists>st' bs'. remove_loop cond (hd_ptr bs) st = Some st'
      \<and> procs_rel st' (as @ bs') (ps @ filter (\<lambda>p. \<not> cond p) qs) \<and> set bs' \<subseteq> set bs"
    using assms
  proof (induction qs arbitrary: as bs ps st)
    case Nil
    then have "bs = []" using seg_length [of "p_heap st" None "as @ bs" ps None] by (auto simp: procs_rel_def)
    then show ?case using Nil by (intro exI [of _ st] exI [of _ "[]"]) (simp add: remove_loop.simps)
  next
    case (Cons q qs)
    obtain b bs' where bs: "bs = b # bs'"
      using Cons.prems seg_length [of "p_heap st" None "as @ bs" "ps @ q # qs" None] by (cases bs) (auto simp: procs_rel_def)
    have n: "p_heap st b = Some \<lparr>pi_next = hd_ptr bs', pi_prev = last_ptr as, pi_proc = q\<rparr>"
      using Cons.prems bs by (auto simp: procs_rel_def seg_append hd_ptr_def last_ptr_def)
    show ?case
    proof (cases "cond q")
      case True
      obtain st1 where st1: "remove_proc b st = Some st1" "procs_rel st1 (as @ bs') (ps @ qs)"
        using remove_proc_rel [of st as b bs' ps q qs] Cons.prems bs by auto
      obtain st' cs where "remove_loop cond (hd_ptr bs') st1 = Some st'"
        "procs_rel st' (as @ cs) (ps @ filter (\<lambda>p. \<not> cond p) qs)" "set cs \<subseteq> set bs'"
        using Cons.IH [OF st1(2) Cons.prems(2)] by blast
      then show ?thesis using True n st1 bs by (intro exI [of _ st'] exI [of _ cs]) (subst remove_loop.simps, auto)
    next
      case False
      obtain st' cs where "remove_loop cond (hd_ptr bs') st = Some st'"
        "procs_rel st' ((as @ [b]) @ cs) ((ps @ [q]) @ filter (\<lambda>p. \<not> cond p) qs)" "set cs \<subseteq> set bs'"
        using Cons.IH [of st "as @ [b]" bs' "ps @ [q]"] Cons.prems bs by auto
      then show ?thesis using False n bs by (intro exI [of _ st'] exI [of _ "b # cs"]) (subst remove_loop.simps, auto)
    qed
  qed
  then show thesis using that by blast
qed

lemma free_loop_seg:
  "seg h prv as ps None \<Longrightarrow> distinct as \<Longrightarrow> free_loop h (hd_ptr as) = Some (\<lambda>b. if b \<in> set as then None else h b)"
proof (induction as arbitrary: h prv ps)
  case Nil
  then show ?case by (simp add: free_loop.simps)
next
  case (Cons a as)
  then obtain p ps' where ps: "ps = p # ps'" by (cases ps) auto
  have "seg (h(a := None)) (Some a) as ps' None" "distinct as" using Cons.prems ps by simp_all
  then have "free_loop (h(a := None)) (hd_ptr as) = Some (\<lambda>b. if b \<in> set as then None else (h(a := None)) b)"
    by (rule Cons.IH)
  then show ?case using Cons.prems ps by (subst free_loop.simps) (auto simp: hd_ptr_def fun_eq_iff)
qed

lemma nth_loop_seg:
  "seg (p_heap st) prv as ps None \<Longrightarrow> nth_loop n (hd_ptr as) st = Some (if n < length as then Some (as ! n) else None)"
proof (induction n arbitrary: as ps prv)
  case 0
  then show ?case by (auto simp: hd_ptr_def hd_conv_nth)
next
  case (Suc n)
  show ?case
  proof (cases as)
    case (Cons a bs)
    then obtain p qs where ps: "ps = p # qs" using Suc.prems by (cases ps) auto
    then show ?thesis using Suc.IH [of "Some a" bs qs] Suc.prems Cons by (auto simp: hd_ptr_def)
  qed simp
qed

end
