(* ===== verification/Proc_Setup.thy ===== *)
theory Proc_Setup
  imports Procs
begin

text \<open>
  How stress-ng.c fills the list of stressors from the command line and trims it before the run:
  the options that enable all stressors or whole classes, exclusion of unsupported, pathological and
  unwanted stressors, random selection, limits, and the resources of every process.
\<close>

section \<open>Removing stressors\<close>

definition remove_if :: "(proc \<Rightarrow> bool) \<Rightarrow> procs \<Rightarrow> procs option" where
  "remove_if cond st = remove_loop cond (procs_head st) st"

text \<open>One removal after the other, as long as the pointers are good.\<close>

definition remove_each :: "(proc \<Rightarrow> bool) list \<Rightarrow> procs \<Rightarrow> procs option" where
  "remove_each cs st = foldr (\<lambda>c k st. Option.bind (remove_if c st) k) cs Some st"

definition has_id :: "nat \<Rightarrow> proc \<Rightarrow> bool" where
  "has_id i p \<longleftrightarrow> st_id (the_stressor p) = i"

definition unsupported :: "string list" where
  "unsupported = [''APPARMOR'', ''CHROOT'', ''CYCLIC'', ''EXEC'', ''FANOTIFY'', ''ICMP_FLOOD'', ''IOPORT'',
     ''NETLINK_PROC'', ''PHYSPAGE'', ''RAWDEV'', ''RDRAND'', ''SGX'', ''SGX_VM'', ''SOFTLOCKUP'', ''SWAP'', ''TSC'']"

text \<open>The run-time checks of the stressors are an argument; a negative value means unsupported.\<close>

definition exclude_unsupported :: "(string \<Rightarrow> int) \<Rightarrow> procs \<Rightarrow> procs option" where
  "exclude_unsupported func_supported st =
    remove_each (map (\<lambda>i p. has_id (stress_id i) p \<and> num_procs p \<noteq> 0 \<and> func_supported i < 0) unsupported) st"

definition exclude_pathological :: "u64 \<Rightarrow> procs \<Rightarrow> procs option" where
  "exclude_pathological flags st =
    (if flags AND OPT_FLAGS_PATHOLOGICAL = 0
     then remove_if (\<lambda>p. st_class (the_stressor p) AND CLASS_PATHOLOGICAL \<noteq> 0) st
     else Some st)"

fun exclude_tokens :: "string list \<Rightarrow> procs \<Rightarrow> (int \<times> procs) option" where
  "exclude_tokens [] st = Some (0, st)"
| "exclude_tokens (token # tokens) st =
    (let i = stressor_name_find token
     in if i = length stressors then Some (- 1, st)
        else Option.bind (remove_if (has_id (st_id (stressors ! i))) st) (exclude_tokens tokens))"

text \<open>The argument is the value of the exclude option, when it was given.\<close>

definition stress_exclude :: "string option \<Rightarrow> procs \<Rightarrow> (int \<times> procs) option" where
  "stress_exclude opt_exclude st =
    (case opt_exclude of None \<Rightarrow> Some (0, st) | Some s \<Rightarrow> exclude_tokens (strtok_all (CHR '','') s) st)"

section \<open>Enabling stressors\<close>

text \<open>\<open>mem i\<close> is the result of \<open>calloc\<close> for the structure of row \<open>i\<close>.\<close>

fun enable_rows :: "(nat \<Rightarrow> nat option) \<Rightarrow> (proc \<Rightarrow> proc) \<Rightarrow> nat list \<Rightarrow> procs \<Rightarrow> (exit_status + procs) option" where
  "enable_rows mem f [] st = Some (Inr st)"
| "enable_rows mem f (i # rows) st =
    Option.bind (find_proc_info (mem i) i st) (\<lambda>r. case r of Inl e \<Rightarrow> Some (Inl e)
      | Inr (pi, st) \<Rightarrow>
          Option.bind (set_node pi (\<lambda>n. n\<lparr>pi_proc := f (pi_proc n)\<rparr>) st) (enable_rows mem f rows))"

definition enable_all_stressors :: "(nat \<Rightarrow> nat option) \<Rightarrow> u64 \<Rightarrow> int \<Rightarrow> procs \<Rightarrow> (exit_status + procs) option" where
  "enable_all_stressors mem flags instances st =
    (if flags AND OPT_FLAGS_SET \<noteq> 0 then Some (Inr st)
     else enable_rows mem (\<lambda>p. p\<lparr>num_procs := instances\<rparr>) [0..<STRESS_MAX] st)"

definition enable_classes ::
    "(nat \<Rightarrow> nat option) \<Rightarrow> u32 \<Rightarrow> int \<Rightarrow> int \<Rightarrow> u64 \<Rightarrow> procs \<Rightarrow> (exit_status + u64 \<times> procs) option" where
  "enable_classes mem class opt_sequential opt_parallel flags st =
    (if class = 0 then Some (Inr (flags, st))
     else
      (let flags = flags OR OPT_FLAGS_SET;
           f = (\<lambda>p. let p = (if flags AND OPT_FLAGS_SEQUENTIAL \<noteq> 0 then p\<lparr>num_procs := opt_sequential\<rparr> else p)
                    in if flags AND OPT_FLAGS_ALL \<noteq> 0 then p\<lparr>num_procs := opt_parallel\<rparr> else p)
       in map_option (map_sum id (Pair flags))
            (enable_rows mem f (filter (\<lambda>i. st_class (stressors ! i) AND class \<noteq> 0) [0..<length stressors]) st)))"

section \<open>Random selection\<close>

partial_function (option) random_loop :: "int \<Rightarrow> nat \<Rightarrow> int \<Rightarrow> mwc_t \<Rightarrow> procs \<Rightarrow> (mwc_t \<times> procs) option" where
  "random_loop opt_random n_procs n rng st =
    (if 0 < n
     then
      (let (v, rng) = mwc32 rng; (w, rng) = mwc32 rng;
           rnd = int (unat (v mod word_of_int (drop_bit 5 opt_random + 2)));
           i = unat (w mod of_nat n_procs)
       in Option.bind (get_nth_proc i st) (\<lambda>p. case p of
            None \<Rightarrow> random_loop opt_random n_procs n rng st
          | Some pi \<Rightarrow>
              (let rnd = (if rnd > n then n else rnd)
               in Option.bind (set_node pi (\<lambda>x. x\<lparr>pi_proc := (pi_proc x)\<lparr>num_procs := num_procs (pi_proc x) + rnd\<rparr>\<rparr>) st)
                    (\<lambda>st. random_loop opt_random n_procs (n - rnd) rng st))))
     else Some (rng, st))"

text \<open>\<open>opt_random\<close> is the value of the random option, 0 when it is not set.\<close>

definition set_random_stressors :: "int \<Rightarrow> u64 \<Rightarrow> mwc_t \<Rightarrow> procs \<Rightarrow> (exit_status + mwc_t \<times> procs) option" where
  "set_random_stressors opt_random flags rng st =
    (if flags AND OPT_FLAGS_RANDOM \<noteq> 0
     then Option.bind (get_num_procs st) (\<lambda>r. case r of Inl e \<Rightarrow> Some (Inl e)
       | Inr (n_procs, st) \<Rightarrow>
           if flags AND OPT_FLAGS_SET \<noteq> 0 then Some (Inl (Exit EXIT_FAILURE))
           else map_option Inr (random_loop opt_random (if n_procs = 0 then 1 else n_procs) opt_random rng st))
     else Some (Inr (rng, st)))"

section \<open>Limits and helpers\<close>

definition proc_limited :: "(string \<times> string) list" where
  "proc_limited = [(''PTHREAD'', ''stress_adjust_pthread_max''), (''SLEEP'', ''stress_adjust_sleep_max'')]"

text \<open>The calls of the adjusting functions, with their argument; \<open>limit\<close> is what \<open>getrlimit\<close> returns, when it succeeds.\<close>

fun limit_rows :: "u64 option \<Rightarrow> (string \<times> string) list \<Rightarrow> (string \<times> u64) list \<Rightarrow> procs \<Rightarrow> (exit_status + (string \<times> u64) list \<times> procs) option" where
  "limit_rows limit [] calls st = Some (Inr (calls, st))"
| "limit_rows limit ((i, func) # rows) calls st =
    Option.bind
      (for_procs (\<lambda>p calls. Some (Inr (p,
          if has_id (stress_id i) p \<and> num_procs p \<noteq> 0
          then (case limit of None \<Rightarrow> calls
                | Some l \<Rightarrow> calls @ [(snd (proc_limited ! 0), l div word_of_int (num_procs p))])
          else calls))) (procs_head st) calls st)
      (\<lambda>r. case r of Inl e \<Rightarrow> Some (Inl e) | Inr (calls, st) \<Rightarrow> limit_rows limit rows calls st)"

definition set_proc_limits :: "u64 option \<Rightarrow> procs \<Rightarrow> (exit_status + (string \<times> u64) list \<times> procs) option" where
  "set_proc_limits limit st = limit_rows limit proc_limited [] st"

type_synonym helpers = "(string \<times> u64 \<times> string) list"

definition proc_init :: helpers where
  "proc_init = [(''SEMAPHORE_POSIX'', OPT_FLAGS_SEQUENTIAL, ''stress_semaphore_posix_init''),
                (''SEMAPHORE_SYSV'', OPT_FLAGS_SEQUENTIAL, ''stress_semaphore_sysv_init'')]"

definition proc_destroy :: helpers where
  "proc_destroy = [(''SEMAPHORE_POSIX'', OPT_FLAGS_SEQUENTIAL, ''stress_semaphore_posix_destroy''),
                   (''SEMAPHORE_SYSV'', OPT_FLAGS_SEQUENTIAL, ''stress_semaphore_sysv_destroy'')]"

fun proc_helper :: "u64 \<Rightarrow> helpers \<Rightarrow> string list \<Rightarrow> procs \<Rightarrow> (exit_status + string list \<times> procs) option" where
  "proc_helper flags [] calls st = Some (Inr (calls, st))"
| "proc_helper flags ((i, opt_flag, func) # rows) calls st =
    Option.bind
      (for_procs (\<lambda>p calls. Some (Inr (p,
          if has_id (stress_id i) p \<and> (num_procs p \<noteq> 0 \<or> flags AND opt_flag \<noteq> 0) then calls @ [func] else calls)))
        (procs_head st) calls st)
      (\<lambda>r. case r of Inl e \<Rightarrow> Some (Inl e) | Inr (calls, st) \<Rightarrow> proc_helper flags rows calls st)"

section \<open>Resources of the processes\<close>

text \<open>
  Two arrays of \<open>n\<close> entries; the state is the number of allocations made so far, and \<open>alloc_ok\<close> tells which
  of them succeed.
\<close>

definition alloc_proc_resources :: "(nat \<Rightarrow> bool) \<Rightarrow> nat \<Rightarrow> proc \<Rightarrow> nat \<Rightarrow> exit_status + proc \<times> nat" where
  "alloc_proc_resources alloc_ok n p k =
    (if \<not> alloc_ok k then Inl (Exit EXIT_FAILURE)
     else if \<not> alloc_ok (k + 1) then Inl (Exit EXIT_FAILURE)
     else Inr (p\<lparr>pids := replicate n 0, stats := replicate n None\<rparr>, k + 2))"

definition TIMEOUT_NOT_SET :: u64 where "TIMEOUT_NOT_SET = NOT 0"
definition DEFAULT_TIMEOUT :: u64 where "DEFAULT_TIMEOUT = 60 * 60 * 24"

definition set_default_timeout :: "u64 \<Rightarrow> u64 \<Rightarrow> u64" where
  "set_default_timeout timeout opt_timeout = (if opt_timeout = TIMEOUT_NOT_SET then timeout else opt_timeout)"

definition sequential_setup :: "(nat \<Rightarrow> bool) \<Rightarrow> u32 \<Rightarrow> int \<Rightarrow> proc \<Rightarrow> nat \<Rightarrow> (exit_status + proc \<times> nat) option" where
  "sequential_setup alloc_ok class opt_sequential p k =
    (let p = (if st_class (the_stressor p) AND class \<noteq> 0 then p\<lparr>num_procs := opt_sequential\<rparr> else p)
     in Some (alloc_proc_resources alloc_ok (nat (num_procs p)) p k))"

definition stress_setup_sequential ::
    "(nat \<Rightarrow> bool) \<Rightarrow> u32 \<Rightarrow> int \<Rightarrow> u64 \<times> procs \<Rightarrow> (exit_status + u64 \<times> procs) option" where
  "stress_setup_sequential alloc_ok class opt_sequential tst =
    (case tst of (opt_timeout, st) \<Rightarrow>
      map_option (map_sum id (\<lambda>(k, st). (set_default_timeout 60 opt_timeout, st)))
        (for_procs (sequential_setup alloc_ok class opt_sequential) (procs_head st) 0 st))"

definition parallel_setup :: "(nat \<Rightarrow> bool) \<Rightarrow> u32 \<Rightarrow> int \<Rightarrow> proc \<Rightarrow> nat \<Rightarrow> (exit_status + proc \<times> nat) option" where
  "parallel_setup alloc_ok class opt_parallel p k =
    (let p = (if st_class (the_stressor p) AND class \<noteq> 0 then p\<lparr>num_procs := opt_parallel\<rparr> else p);
         p = p\<lparr>bogo_ops := (if num_procs p \<noteq> 0
                then (bogo_ops p + word_of_int (num_procs p - 1)) div word_of_int (num_procs p) else 0)\<rparr>
     in Some (if num_procs p \<noteq> 0 then alloc_proc_resources alloc_ok (nat (num_procs p)) p k else Inr (p, k)))"

definition stress_setup_parallel ::
    "(nat \<Rightarrow> bool) \<Rightarrow> u32 \<Rightarrow> int \<Rightarrow> u64 \<times> procs \<Rightarrow> (exit_status + u64 \<times> procs) option" where
  "stress_setup_parallel alloc_ok class opt_parallel tst =
    (case tst of (opt_timeout, st) \<Rightarrow>
      map_option (map_sum id (\<lambda>(k, st). (set_default_timeout DEFAULT_TIMEOUT opt_timeout, st)))
        (for_procs (parallel_setup alloc_ok class opt_parallel) (procs_head st) 0 st))"

text \<open>
  The statistics of the processes lie one after the other in shared memory: slot \<open>k\<close> is the next free one.
\<close>

definition stats_setup :: "proc \<Rightarrow> nat \<Rightarrow> (exit_status + proc \<times> nat) option" where
  "stats_setup p k =
    (let n = nat (num_procs p)
     in if length (stats p) < n then None
        else Some (Inr (p\<lparr>stats := map (\<lambda>j. Some (k + j)) [0..<n] @ drop n (stats p)\<rparr>, k + n)))"

definition setup_stats_buffers :: "procs \<Rightarrow> (exit_status + nat \<times> procs) option" where
  "setup_stats_buffers st = for_procs stats_setup (procs_head st) 0 st"


section \<open>The list as an interface\<close>

text \<open>Removal: what the exclusions rely on.\<close>

locale filtered_list =
  fixes rel :: "'st \<Rightarrow> proc list \<Rightarrow> bool"
    and drop_if :: "(proc \<Rightarrow> bool) \<Rightarrow> 'st \<Rightarrow> 'st option"
  assumes drop_law: "rel st ps \<Longrightarrow> \<exists>st'. drop_if c st = Some st' \<and> rel st' (filter (\<lambda>p. \<not> c p) ps)"
begin

lemma drop_each:
  "rel st ps \<Longrightarrow> \<exists>st'. foldr (\<lambda>c k st. Option.bind (drop_if c st) k) cs Some st = Some st'
    \<and> rel st' (filter (\<lambda>p. \<forall>c \<in> set cs. \<not> c p) ps)"
proof (induction cs arbitrary: st ps)
  case (Cons c cs)
  obtain st1 where "drop_if c st = Some st1" "rel st1 (filter (\<lambda>p. \<not> c p) ps)" using drop_law [OF Cons.prems] by blast
  then show ?case using Cons.IH [of st1 "filter (\<lambda>p. \<not> c p) ps"] by (auto simp: conj_commute)
qed auto

end

text \<open>Traversal: what counting, set-up and the helpers rely on.\<close>

locale traversed_list =
  fixes rel :: "'st \<Rightarrow> proc list \<Rightarrow> bool"
    and visit :: "(proc \<Rightarrow> 's \<Rightarrow> (exit_status + proc \<times> 's) option) \<Rightarrow> 's \<Rightarrow> 'st \<Rightarrow> (exit_status + 's \<times> 'st) option"
  assumes visit_law: "rel st ps \<Longrightarrow> thread body ps s = Some (Inr (qs, s')) \<Longrightarrow>
      \<exists>st'. visit body s st = Some (Inr (s', st')) \<and> rel st' qs"
    and exit_law: "rel st ps \<Longrightarrow> thread body ps s = Some (Inl e) \<Longrightarrow> visit body s st = Some (Inl e)"
begin

lemma visit_fold:
  assumes "rel st ps"
  shows "\<exists>st'. visit (\<lambda>p s. Some (Inr (p, g p s))) s st = Some (Inr (fold g ps s, st')) \<and> rel st' ps"
proof -
  have "thread (\<lambda>p s. Some (Inr (p, g p s))) ps s = Some (Inr (ps, fold g ps s))" by (induction ps arbitrary: s) auto
  then show ?thesis by (rule visit_law [OF assms])
qed

end

definition listed :: "procs \<Rightarrow> proc list \<Rightarrow> bool" where
  "listed st ps \<longleftrightarrow> (\<exists>as. procs_rel st as ps)"

lemma listed_init: "listed procs_init []"
  unfolding listed_def by (rule exI [of _ "[]"]) (simp add: procs_rel_def procs_init_def)

interpretation linked: filtered_list listed remove_if
proof
  fix st ps c
  assume "listed st ps"
  then obtain as where r: "procs_rel st ([] @ as) ([] @ ps)" by (auto simp: listed_def)
  obtain st' bs where "remove_loop c (hd_ptr as) st = Some st'" "procs_rel st' ([] @ bs) ([] @ filter (\<lambda>p. \<not> c p) ps)"
    using remove_loop_seg [OF r] by (metis list.size(3))
  moreover have "procs_head st = hd_ptr as" using r by (simp add: procs_rel_def)
  ultimately show "\<exists>st'. remove_if c st = Some st' \<and> listed st' (filter (\<lambda>p. \<not> c p) ps)"
    by (auto simp: remove_if_def listed_def)
qed

interpretation linked_visit: traversed_list listed "\<lambda>body s st. for_procs body (procs_head st) s st"
proof
  fix st ps s qs s' e and body :: "proc \<Rightarrow> 's \<Rightarrow> (exit_status + proc \<times> 's) option"
  assume "listed st ps"
  then obtain as where r: "seg (p_heap st) None as ps None" "distinct as" "procs_head st = hd_ptr as" "procs_tail st = last_ptr as"
    by (auto simp: listed_def procs_rel_def)
  show "\<exists>st'. for_procs body (procs_head st) s st = Some (Inr (s', st')) \<and> listed st' qs"
    if t: "thread body ps s = Some (Inr (qs, s'))"
  proof -
    obtain h where "for_procs body (hd_ptr as) s st = Some (Inr (s', st\<lparr>p_heap := h\<rparr>))" "seg h None as qs None"
      using for_procs_thread [OF r(1,2) t] by blast
    then show ?thesis using r by (auto simp: listed_def procs_rel_def)
  qed
  show "for_procs body (procs_head st) s st = Some (Inl e)" if "thread body ps s = Some (Inl e)"
    using for_procs_exit [OF r(1,2) that] r(3) by simp
qed

section \<open>Properties\<close>

text \<open>
  C13: the three exclusions end without following a bad pointer and remove exactly what they are meant
  to: stressors that have processes and are not supported, pathological stressors unless they are
  allowed, and stressors whose identifier is named in the list of the exclude option.
\<close>

theorem exclusions_exact:
  assumes "listed st ps"
  shows "(\<exists>st'. exclude_unsupported func_supported st = Some st' \<and> listed st' (filter (\<lambda>p. \<not> (num_procs p \<noteq> 0 \<and>
        (\<exists>i \<in> set unsupported. has_id (stress_id i) p \<and> func_supported i < 0))) ps))
    \<and> (\<exists>st'. exclude_pathological flags st = Some st' \<and> listed st' (filter (\<lambda>p. flags AND OPT_FLAGS_PATHOLOGICAL \<noteq> 0
        \<or> st_class (the_stressor p) AND CLASS_PATHOLOGICAL = 0) ps))
    \<and> ((\<forall>w \<in> set (strtok_all (CHR '','') s). stressor_name_find w < length stressors) \<longrightarrow>
        (\<exists>st'. stress_exclude (Some s) st = Some (0, st') \<and> listed st' (filter (\<lambda>p.
          st_id (the_stressor p) \<notin> (\<lambda>w. st_id (stressors ! stressor_name_find w)) ` set (strtok_all (CHR '','') s)) ps)))
    \<and> ((\<exists>w \<in> set (strtok_all (CHR '','') s). stressor_name_find w = length stressors) \<longrightarrow>
        (\<exists>st'. stress_exclude (Some s) st = Some (- 1, st')))"
proof (intro conjI impI)
  show "\<exists>st'. exclude_unsupported func_supported st = Some st' \<and> listed st' (filter (\<lambda>p. \<not> (num_procs p \<noteq> 0 \<and>
      (\<exists>i \<in> set unsupported. has_id (stress_id i) p \<and> func_supported i < 0))) ps)"
    using linked.drop_each [OF assms, of "map (\<lambda>i p. has_id (stress_id i) p \<and> num_procs p \<noteq> 0 \<and> func_supported i < 0) unsupported"]
    unfolding exclude_unsupported_def remove_each_def by (auto elim!: back_subst [of "listed _"] intro!: filter_cong)
  show "\<exists>st'. exclude_pathological flags st = Some st' \<and> listed st' (filter (\<lambda>p. flags AND OPT_FLAGS_PATHOLOGICAL \<noteq> 0
      \<or> st_class (the_stressor p) AND CLASS_PATHOLOGICAL = 0) ps)"
    using linked.drop_law [OF assms, of "\<lambda>p. st_class (the_stressor p) AND CLASS_PATHOLOGICAL \<noteq> 0"] assms
    by (cases "flags AND OPT_FLAGS_PATHOLOGICAL = 0") (auto simp: exclude_pathological_def)
  have ok: "\<exists>st'. exclude_tokens ws st = Some (0, st') \<and> listed st' (filter (\<lambda>p.
      st_id (the_stressor p) \<notin> (\<lambda>w. st_id (stressors ! stressor_name_find w)) ` set ws) ps)"
    if "\<forall>w \<in> set ws. stressor_name_find w < length stressors" "listed st ps" for ws st ps
    using that
  proof (induction ws arbitrary: st ps)
    case (Cons w ws)
    obtain st1 where st1: "remove_if (has_id (st_id (stressors ! stressor_name_find w))) st = Some st1"
      "listed st1 (filter (\<lambda>p. \<not> has_id (st_id (stressors ! stressor_name_find w)) p) ps)"
      using linked.drop_law [OF Cons.prems(2)] by blast
    show ?case using Cons.IH [OF _ st1(2)] st1(1) Cons.prems(1) by (auto simp: has_id_def conj_commute)
  qed auto
  then show "\<exists>st'. stress_exclude (Some s) st = Some (0, st') \<and> listed st' (filter (\<lambda>p.
      st_id (the_stressor p) \<notin> (\<lambda>w. st_id (stressors ! stressor_name_find w)) ` set (strtok_all (CHR '','') s)) ps)"
    if "\<forall>w \<in> set (strtok_all (CHR '','') s). stressor_name_find w < length stressors"
    using that assms by (simp add: stress_exclude_def)
  have bad: "\<exists>st'. exclude_tokens ws st = Some (- 1, st')"
    if "\<exists>w \<in> set ws. stressor_name_find w = length stressors" "listed st ps" for ws st ps
    using that
  proof (induction ws arbitrary: st ps)
    case (Cons w ws)
    obtain st1 where st1: "remove_if (has_id (st_id (stressors ! stressor_name_find w))) st = Some st1"
      "listed st1 (filter (\<lambda>p. \<not> has_id (st_id (stressors ! stressor_name_find w)) p) ps)"
      using linked.drop_law [OF Cons.prems(2)] by blast
    show ?case
      using Cons.IH [OF _ st1(2)] st1(1) Cons.prems(1) by (cases "stressor_name_find w = length stressors") auto
  qed simp
  then show "\<exists>st'. stress_exclude (Some s) st = Some (- 1, st')"
    if "\<exists>w \<in> set (strtok_all (CHR '','') s). stressor_name_find w = length stressors"
    using that assms by (simp add: stress_exclude_def)
qed

text \<open>A list of two stressors, bind-mount with two processes and cpu with four.\<close>

definition sample_list :: "proc list" where
  "sample_list = [(new_proc 7)\<lparr>num_procs := 2\<rparr>, (new_proc 21)\<lparr>num_procs := 4, bogo_ops := 10\<rparr>]"

definition sample_procs :: procs where
  "sample_procs = \<lparr>p_heap = [0 \<mapsto> \<lparr>pi_next = Some 1, pi_prev = None, pi_proc = sample_list ! 0\<rparr>,
     1 \<mapsto> \<lparr>pi_next = None, pi_prev = Some 0, pi_proc = sample_list ! 1\<rparr>],
     procs_head = Some 0, procs_tail = Some 1\<rparr>"

lemma sample_listed: "listed sample_procs sample_list"
  unfolding listed_def by (rule exI [of _ "[0, 1]"]) (simp add: procs_rel_def sample_procs_def sample_list_def)

lemma sample_stressors: "the_stressor (sample_list ! 0) = STRESSOR ''bind_mount'' ''BIND_MOUNT'' (CLASS_FILESYSTEM OR CLASS_OS OR CLASS_PATHOLOGICAL)"
  "the_stressor (sample_list ! 1) = STRESSOR ''cpu'' ''CPU'' CLASS_CPU"
  by (simp_all add: the_stressor_def sample_list_def new_proc_def stressors_def stressors_1_def)

theorem exclusions_exact_witness:
  "\<exists>st'. exclude_pathological 0 sample_procs = Some st' \<and> listed st' [(new_proc 21)\<lparr>num_procs := 4, bogo_ops := 10\<rparr>]"
proof -
  have "filter (\<lambda>p. (0 :: u64) AND OPT_FLAGS_PATHOLOGICAL \<noteq> 0 \<or> st_class (the_stressor p) AND CLASS_PATHOLOGICAL = 0) sample_list
      = [(new_proc 21)\<lparr>num_procs := 4, bogo_ops := 10\<rparr>]"
    using sample_stressors
    by (simp add: sample_list_def STRESSOR_def CLASS_FILESYSTEM_def CLASS_OS_def CLASS_PATHOLOGICAL_def CLASS_CPU_def)
  then show ?thesis using exclusions_exact [OF sample_listed, of "\<lambda>i. 0" 0 "[]"] by (simp only:)
qed


lemma set_node_last:
  assumes "procs_rel st (as @ [a]) (ps @ [p])"
  shows "\<exists>st'. set_node a (\<lambda>n. n\<lparr>pi_proc := f (pi_proc n)\<rparr>) st = Some st' \<and> procs_rel st' (as @ [a]) (ps @ [f p])"
proof -
  have l: "length as = length ps" using assms seg_length [of "p_heap st" None "as @ [a]" "ps @ [p]" None] by (simp add: procs_rel_def)
  then show ?thesis using assms by (auto simp: set_node_def procs_rel_def seg_append)
qed

lemma enable_rows_rel:
  assumes "procs_rel st as ps" and "inj_on g (set rows)" and "\<And>i. i \<in> set rows \<Longrightarrow> mem i = Some (g i)"
    and "g ` set rows \<inter> set as = {}" and "distinct rows"
  shows "\<exists>st' as'. enable_rows mem f rows st = Some (Inr st') \<and> procs_rel st' as' (ps @ map (\<lambda>i. f (new_proc i)) rows)"
  using assms
proof (induction rows arbitrary: st as ps)
  case (Cons i rows)
  have g: "mem i = Some (g i)" "g i \<notin> set as" using Cons.prems by auto
  obtain st1 where st1: "find_proc_info (Some (g i)) i st = Some (Inr (g i, st1))" "procs_rel st1 (as @ [g i]) (ps @ [new_proc i])"
    using find_proc_info_rel [OF Cons.prems(1) g(2)] by blast
  obtain st2 where st2: "set_node (g i) (\<lambda>n. n\<lparr>pi_proc := f (pi_proc n)\<rparr>) st1 = Some st2"
    "procs_rel st2 (as @ [g i]) (ps @ [f (new_proc i)])" using set_node_last [OF st1(2)] by blast
  have "g ` set rows \<inter> set (as @ [g i]) = {}" using Cons.prems(2,4,5) by (auto simp: inj_on_def)
  then obtain st' as' where "enable_rows mem f rows st2 = Some (Inr st')"
    "procs_rel st' as' ((ps @ [f (new_proc i)]) @ map (\<lambda>i. f (new_proc i)) rows)"
    using Cons.IH [OF st2(2)] Cons.prems by auto
  then show ?case using g st1 st2 by auto
qed auto

text \<open>
  Enabling all stressors runs through as many rows of the table as there are identifiers, which
  is one less than there are rows, because the futex row occurs twice: futex is enabled twice and the
  zombie stressor, which is in the table, is left out.
\<close>

theorem enable_all_misses_zombie:
  assumes "inj g" and "flags AND OPT_FLAGS_SET = 0"
  shows "\<exists>st ps. enable_all_stressors (\<lambda>i. Some (g i)) flags n procs_init = Some (Inr st) \<and> listed st ps
    \<and> length (filter (\<lambda>p. st_name (the_stressor p) = ''futex'') ps) \<ge> 2
    \<and> (\<forall>p \<in> set ps. num_procs p = n \<and> st_name (the_stressor p) \<noteq> ''zombie'')
    \<and> st_name (stressors ! 191) = ''zombie'' \<and> length stressors = 192"
proof -
  let ?f = "\<lambda>p. p\<lparr>num_procs := n\<rparr>"
  let ?ps = "map (\<lambda>i. ?f (new_proc i)) [0..<STRESS_MAX]"
  have "procs_rel procs_init [] []" by (simp add: procs_rel_def procs_init_def)
  then obtain st as where st: "enable_rows (\<lambda>i. Some (g i)) ?f [0..<STRESS_MAX] procs_init = Some (Inr st)" "procs_rel st as ?ps"
    using enable_rows_rel [of procs_init "[]" "[]" g "[0..<STRESS_MAX]" "\<lambda>i. Some (g i)" ?f] assms(1)
    by (auto simp: inj_on_def inj_def)
  have e: "the_stressor (?f (new_proc i)) = stressors ! i" for i by (simp add: the_stressor_def new_proc_def)
  have split: "[0..<STRESS_MAX] = [0..<49] @ [49, 50] @ [51..<191]"
    unfolding STRESS_MAX_191 by (simp add: upt_conv_Cons upt_add_eq_append [of 0 49 142, simplified])
  have "st_name (stressors ! 49) = ''futex''" "st_name (stressors ! 50) = ''futex''"
    using futex_twice by (simp_all add: STRESSOR_def)
  then have "2 \<le> length (filter (\<lambda>p. st_name (the_stressor p) = ''futex'') ?ps)"
    unfolding split by (simp add: e del: upt_rec_numeral)
  moreover have "\<forall>p \<in> set ?ps. num_procs p = n \<and> st_name (the_stressor p) \<noteq> ''zombie''"
    using zombie_only_last by (auto simp: e STRESS_MAX_191 simp del: upt_rec_numeral)
  moreover have "enable_all_stressors (\<lambda>i. Some (g i)) flags n procs_init = Some (Inr st)"
    using st(1) assms(2) by (simp add: enable_all_stressors_def)
  moreover have "st_name (stressors ! 191) = ''zombie''" using zombie_last by (simp add: STRESSOR_def)
  ultimately show ?thesis using st(2) length_stressors unfolding listed_def by blast
qed

theorem enable_all_misses_zombie_witness:
  "\<exists>st ps. enable_all_stressors (\<lambda>i. Some i) 0 1 procs_init = Some (Inr st) \<and> listed st ps
    \<and> (\<forall>p \<in> set ps. st_name (the_stressor p) \<noteq> ''zombie'')"
  using enable_all_misses_zombie [of "\<lambda>i. i" 0 1] by auto

text \<open>
  Asked for random stressors without any other stressor option the list is still empty when the
  random selection starts, and the selection loop never ends.
\<close>

theorem random_selection_hangs:
  assumes "0 < n" and "flags AND OPT_FLAGS_RANDOM \<noteq> 0" and "flags AND OPT_FLAGS_SET = 0"
  shows "set_random_stressors n flags rng procs_init = None"
proof -
  have hang: "0 < m \<longrightarrow> procs_head st = None \<longrightarrow> False" if "random_loop r k m rng st = Some res" for r k m rng st res
  proof (rule random_loop.raw_induct [OF _ that, of "\<lambda>r k m rng st res. 0 < m \<longrightarrow> procs_head st = None \<longrightarrow> False"], intro impI)
    fix loop r k m rng st res
    assume ih: "\<And>r k m rng st res. loop r k m rng st = Some res \<Longrightarrow> 0 < m \<longrightarrow> procs_head st = None \<longrightarrow> False"
      and m: "0 < m" and h: "procs_head st = None"
      and "(if 0 < m then let (v, rng) = mwc32 rng; (w, rng) = mwc32 rng;
              rnd = int (unat (v mod word_of_int (drop_bit 5 r + 2))); i = unat (w mod word_of_nat k)
            in Option.bind (get_nth_proc i st) (\<lambda>p. case p of None \<Rightarrow> loop r k m rng st
              | Some pi \<Rightarrow> let rnd = if m < rnd then m else rnd
                  in Option.bind (set_node pi (\<lambda>x. x\<lparr>pi_proc := (pi_proc x)\<lparr>num_procs := num_procs (pi_proc x) + rnd\<rparr>\<rparr>) st)
                       (loop r k (m - rnd) rng)) else Some (rng, st)) = Some res"
    moreover have "get_nth_proc j st = Some None" for j using h by (cases j) (simp_all add: get_nth_proc_def)
    ultimately have "loop r k m (snd (mwc32 (snd (mwc32 rng)))) st = Some res" by (simp add: Let_def split_def)
    from ih [OF this] show False using m h by simp
  qed
  have "random_loop r k n rng procs_init = None" for r k rng
  proof (cases "random_loop r k n rng procs_init")
    case (Some res)
    from hang [OF this] show ?thesis using assms(1) by (simp add: procs_init_def)
  qed
  moreover have "get_num_procs procs_init = Some (Inr (0, procs_init))"
    by (simp add: get_num_procs_def procs_init_def for_procs.simps)
  ultimately show ?thesis using assms by (simp add: set_random_stressors_def)
qed

theorem random_selection_hangs_witness: "set_random_stressors 5 OPT_FLAGS_RANDOM mwc_init procs_init = None"
  by (rule random_selection_hangs) (simp_all add: OPT_FLAGS_RANDOM_def OPT_FLAGS_SET_def)


lemma total_fold:
  assumes "listed st ps"
  shows "\<exists>st'. get_total_num_procs (procs_head st) st = Some (Inr (word_of_int (\<Sum>p \<leftarrow> ps. num_procs p), st')) \<and> listed st' ps"
proof -
  have "fold (\<lambda>p n. n + word_of_int (num_procs p)) ps s = s + (word_of_int (\<Sum>p \<leftarrow> ps. num_procs p) :: u32)" for s
    by (induction ps arbitrary: s) (simp_all add: algebra_simps)
  then show ?thesis
    using linked_visit.visit_fold [OF assms, of "\<lambda>p n. n + word_of_int (num_procs p)" "0 :: u32"]
    by (simp add: get_total_num_procs_def)
qed

text \<open>
  C20: when every stressor has arrays for its processes, the set-up of the statistics gives every
  process of every stressor a slot of its own; the slots are exactly those of the shared segment,
  whose size is computed from the total number of processes.
\<close>

theorem stats_slots_exact:
  assumes "listed st ps" and "\<forall>p \<in> set ps. 0 \<le> num_procs p \<and> length (stats p) = nat (num_procs p)"
    and "(\<Sum>p \<leftarrow> ps. num_procs p) < 2 ^ 32"
  shows "\<exists>st' qs k st''. setup_stats_buffers st = Some (Inr (k, st')) \<and> listed st' qs
    \<and> concat (map stats qs) = map Some [0..<k] \<and> map num_procs qs = map num_procs ps
    \<and> get_total_num_procs (procs_head st) st = Some (Inr (of_nat k, st''))
    \<and> unat (of_nat k :: u32) = k"
proof -
  define total where "total ps = (\<Sum>p \<leftarrow> ps. num_procs p)" for ps :: "proc list"
  have nn: "0 \<le> total ps" if "\<forall>p \<in> set ps. 0 \<le> num_procs p" for ps
    using that by (induction ps) (auto simp: total_def)
  have "\<exists>qs. thread stats_setup ps k = Some (Inr (qs, k + nat (total ps)))
      \<and> concat (map stats qs) = map Some [k..<k + nat (total ps)] \<and> map num_procs qs = map num_procs ps"
    if "\<forall>p \<in> set ps. 0 \<le> num_procs p \<and> length (stats p) = nat (num_procs p)" for ps k
    using that
  proof (induction ps arbitrary: k)
    case (Cons p ps)
    let ?n = "nat (num_procs p)"
    have p: "0 \<le> num_procs p" "length (stats p) = ?n" and "0 \<le> total ps" using Cons.prems nn by auto
    then have t: "nat (total (p # ps)) = ?n + nat (total ps)" by (simp add: total_def nat_add_distrib)
    have "map (\<lambda>j. Some (k + j)) [0..<?n] = map Some [k..<k + ?n]" by (rule nth_equalityI) simp_all
    then have b: "stats_setup p k = Some (Inr (p\<lparr>stats := map Some [k..<k + ?n]\<rparr>, k + ?n))"
      using p by (simp add: stats_setup_def Let_def)
    obtain qs where "thread stats_setup ps (k + ?n) = Some (Inr (qs, k + ?n + nat (total ps)))"
      "concat (map stats qs) = map Some [k + ?n..<k + ?n + nat (total ps)]" "map num_procs qs = map num_procs ps"
      using Cons.IH [of "k + ?n"] Cons.prems by auto
    moreover have "[k..<k + (?n + nat (total ps))] = [k..<k + ?n] @ [k + ?n..<k + (?n + nat (total ps))]"
      using upt_add_eq_append [of k "k + ?n" "nat (total ps)"] by (simp add: add.assoc)
    ultimately show ?case using b t by (simp add: add.assoc)
  qed (simp add: total_def)
  from this [OF assms(2), of 0] obtain qs where q: "thread stats_setup ps 0 = Some (Inr (qs, nat (total ps)))"
    "concat (map stats qs) = map Some [0..<nat (total ps)]" "map num_procs qs = map num_procs ps" by auto
  obtain st' where st': "for_procs stats_setup (procs_head st) 0 st = Some (Inr (nat (total ps), st'))" "listed st' qs"
    using linked_visit.visit_law [OF assms(1) q(1)] by blast
  have "0 \<le> total ps" using nn assms(2) by blast
  moreover obtain st'' where "get_total_num_procs (procs_head st) st = Some (Inr (word_of_int (total ps), st''))"
    using total_fold [OF assms(1)] unfolding total_def by blast
  ultimately have "get_total_num_procs (procs_head st) st = Some (Inr (of_nat (nat (total ps)), st''))" by simp
  moreover have "unat (of_nat (nat (total ps)) :: u32) = nat (total ps)"
    using assms(3) \<open>0 \<le> total ps\<close> unfolding total_def by (intro unat_of_nat_small) simp
  ultimately show ?thesis using st' q unfolding setup_stats_buffers_def by blast
qed

definition ready_list :: "proc list" where
  "ready_list = [(new_proc 7)\<lparr>num_procs := 2, stats := [None, None]\<rparr>, (new_proc 21)\<lparr>num_procs := 1, stats := [None]\<rparr>]"

definition ready_procs :: procs where
  "ready_procs = \<lparr>p_heap = [0 \<mapsto> \<lparr>pi_next = Some 1, pi_prev = None, pi_proc = ready_list ! 0\<rparr>,
     1 \<mapsto> \<lparr>pi_next = None, pi_prev = Some 0, pi_proc = ready_list ! 1\<rparr>],
     procs_head = Some 0, procs_tail = Some 1\<rparr>"

lemma ready_listed: "listed ready_procs ready_list"
  unfolding listed_def by (rule exI [of _ "[0, 1]"]) (simp add: procs_rel_def ready_procs_def ready_list_def)

theorem stats_slots_exact_witness:
  "\<exists>st' qs k. setup_stats_buffers ready_procs = Some (Inr (k, st')) \<and> listed st' qs
    \<and> concat (map stats qs) = map Some [0..<k] \<and> map num_procs qs = [2, 1]"
proof -
  have "\<forall>p \<in> set ready_list. 0 \<le> num_procs p \<and> length (stats p) = nat (num_procs p)"
    "(\<Sum>p \<leftarrow> ready_list. num_procs p) < 2 ^ 32" "map num_procs ready_list = [2, 1]" by (simp_all add: ready_list_def)
  then show ?thesis using stats_slots_exact [OF ready_listed] by metis
qed

lemma fold_snoc: "fold (\<lambda>p c. if P p then c @ [g p] else c) ps c = c @ map g (filter P ps)"
  by (induction ps arbitrary: c) simp_all

text \<open>
  At the end of main the list is freed before the destroy helpers are called.  Freeing releases
  every node and empties the list, so the helpers find no stressor and no destroy function is ever
  called, although the initialisation of the same stressors had been.
\<close>

theorem destroy_helpers_skipped:
  assumes "listed st ps"
  shows "\<exists>st'. free_procs st = Some st' \<and> listed st' []
    \<and> proc_helper flags proc_destroy [] st' = Some (Inr ([], st'))
    \<and> (\<exists>st'' calls. proc_helper flags proc_init [] st = Some (Inr (calls, st''))
        \<and> (\<forall>p \<in> set ps. has_id (stress_id ''SEMAPHORE_POSIX'') p \<and> num_procs p \<noteq> 0
            \<longrightarrow> ''stress_semaphore_posix_init'' \<in> set calls))"
proof -
  obtain as where r: "seg (p_heap st) None as ps None" "distinct as" "procs_head st = hd_ptr as"
    using assms by (auto simp: listed_def procs_rel_def)
  obtain st' where st': "free_procs st = Some st'" "procs_head st' = None" "procs_tail st' = None"
    using free_loop_seg [OF r(1,2)] r(3) by (auto simp: free_procs_def)
  have "listed st' []" unfolding listed_def by (rule exI [of _ "[]"]) (simp add: procs_rel_def st')
  moreover have "proc_helper flags proc_destroy [] st' = Some (Inr ([], st'))"
    using st' by (simp add: proc_destroy_def for_procs.simps)
  moreover have "\<exists>st'' calls. proc_helper flags proc_init [] st = Some (Inr (calls, st''))
        \<and> (\<forall>p \<in> set ps. has_id (stress_id ''SEMAPHORE_POSIX'') p \<and> num_procs p \<noteq> 0
            \<longrightarrow> ''stress_semaphore_posix_init'' \<in> set calls)"
  proof -
    let ?g = "\<lambda>i flag func p calls. if has_id (stress_id i) p \<and> (num_procs p \<noteq> 0 \<or> flags AND flag \<noteq> 0) then calls @ [func] else calls"
    let ?g1 = "?g ''SEMAPHORE_POSIX'' OPT_FLAGS_SEQUENTIAL ''stress_semaphore_posix_init''"
    let ?g2 = "?g ''SEMAPHORE_SYSV'' OPT_FLAGS_SEQUENTIAL ''stress_semaphore_sysv_init''"
    obtain st1 where st1: "for_procs (\<lambda>p s. Some (Inr (p, ?g1 p s))) (procs_head st) [] st = Some (Inr (fold ?g1 ps [], st1))" "listed st1 ps"
      using linked_visit.visit_fold [OF assms, of ?g1 "[]"] by blast
    obtain st2 where st2: "for_procs (\<lambda>p s. Some (Inr (p, ?g2 p s))) (procs_head st1) (fold ?g1 ps []) st1
        = Some (Inr (fold ?g2 ps (fold ?g1 ps []), st2))"
      using linked_visit.visit_fold [OF st1(2), of ?g2 "fold ?g1 ps []"] by blast
    have "''stress_semaphore_posix_init'' \<in> set (fold ?g2 ps (fold ?g1 ps []))"
      if "p \<in> set ps" "has_id (stress_id ''SEMAPHORE_POSIX'') p" "num_procs p \<noteq> 0" for p
      unfolding fold_snoc using that by auto
    moreover have "proc_helper flags proc_init [] st = Some (Inr (fold ?g2 ps (fold ?g1 ps []), st2))"
      using st1(1) st2 by (simp add: proc_init_def)
    ultimately show ?thesis by blast
  qed
  ultimately show ?thesis using st'(1) by blast
qed


theorem destroy_helpers_skipped_witness:
  "\<exists>st'. free_procs sample_procs = Some st' \<and> proc_helper OPT_FLAGS_SEQUENTIAL proc_destroy [] st' = Some (Inr ([], st'))"
  using destroy_helpers_skipped [OF sample_listed, of OPT_FLAGS_SEQUENTIAL] by blast

text \<open>
  The limit on the number of processes of a sleep stressor is handed to the function that adjusts
  the pthread stressor: every call goes to the first row of the table, and the sleep stressor is never adjusted.
\<close>

theorem limits_wrong_function:
  assumes "listed st ps"
  shows "\<exists>st'. set_proc_limits (Some l) st = Some (Inr (map (\<lambda>p. (''stress_adjust_pthread_max'', l div word_of_int (num_procs p)))
      (filter (\<lambda>p. has_id (stress_id ''PTHREAD'') p \<and> num_procs p \<noteq> 0) ps
        @ filter (\<lambda>p. has_id (stress_id ''SLEEP'') p \<and> num_procs p \<noteq> 0) ps), st')) \<and> listed st' ps"
proof -
  let ?c = "\<lambda>p. (''stress_adjust_pthread_max'', l div word_of_int (num_procs p))"
  let ?g = "\<lambda>i p calls. if has_id (stress_id i) p \<and> num_procs p \<noteq> 0 then calls @ [?c p] else calls"
  obtain st1 where st1: "for_procs (\<lambda>p s. Some (Inr (p, ?g ''PTHREAD'' p s))) (procs_head st) [] st
      = Some (Inr (fold (?g ''PTHREAD'') ps [], st1))" "listed st1 ps"
    using linked_visit.visit_fold [OF assms, of "?g ''PTHREAD''" "[]"] by blast
  obtain st2 where st2: "for_procs (\<lambda>p s. Some (Inr (p, ?g ''SLEEP'' p s))) (procs_head st1) (fold (?g ''PTHREAD'') ps []) st1
      = Some (Inr (fold (?g ''SLEEP'') ps (fold (?g ''PTHREAD'') ps []), st2))" "listed st2 ps"
    using linked_visit.visit_fold [OF st1(2), of "?g ''SLEEP''" "fold (?g ''PTHREAD'') ps []"] by blast
  have "set_proc_limits (Some l) st = Some (Inr (fold (?g ''SLEEP'') ps (fold (?g ''PTHREAD'') ps []), st2))"
    using st1(1) st2(1) by (simp add: set_proc_limits_def proc_limited_def cong: if_cong)
  then show ?thesis using st2(2) by (simp only: fold_snoc append_Nil map_append) blast
qed

theorem limits_wrong_function_witness: "\<exists>st' calls. set_proc_limits (Some 100) sample_procs = Some (Inr (calls, st')) \<and> listed st' sample_list"
  using limits_wrong_function [OF sample_listed, of 100] by blast

text \<open>
  C40: in parallel mode every stressor with processes gets arrays of that many entries, and its share of the
  operations, summed over its processes, covers the number asked for and exceeds it by less than the number of
  processes (for the numbers of operations and processes that the options allow).
\<close>

theorem parallel_setup_shares:
  assumes "listed st ps" and "\<And>k. alloc_ok k" and "\<forall>p \<in> set ps. 0 \<le> num_procs p \<and> num_procs p \<le> 4096 \<and> unat (bogo_ops p) \<le> 100000000"
  shows "\<exists>st' qs. stress_setup_parallel alloc_ok 0 opt_parallel (TIMEOUT_NOT_SET, st) = Some (Inr (DEFAULT_TIMEOUT, st'))
    \<and> listed st' qs \<and> list_all2 (\<lambda>p q. pr_stressor q = pr_stressor p \<and> num_procs q = num_procs p
        \<and> (0 < num_procs p \<longrightarrow> pids q = replicate (nat (num_procs p)) 0 \<and> length (stats q) = nat (num_procs p)
          \<and> unat (bogo_ops p) \<le> unat (bogo_ops q) * nat (num_procs p)
          \<and> unat (bogo_ops q) * nat (num_procs p) < unat (bogo_ops p) + nat (num_procs p))) ps qs"
proof -
  let ?R = "\<lambda>p q. pr_stressor q = pr_stressor p \<and> num_procs q = num_procs p
        \<and> (0 < num_procs p \<longrightarrow> pids q = replicate (nat (num_procs p)) 0 \<and> length (stats q) = nat (num_procs p)
          \<and> unat (bogo_ops p) \<le> unat (bogo_ops q) * nat (num_procs p)
          \<and> unat (bogo_ops q) * nat (num_procs p) < unat (bogo_ops p) + nat (num_procs p))"
  have one: "\<exists>q k'. parallel_setup alloc_ok 0 opt_parallel p k = Some (Inr (q, k')) \<and> ?R p q"
    if p: "0 \<le> num_procs p" "num_procs p \<le> 4096" "unat (bogo_ops p) \<le> 100000000" for p k
  proof (cases "num_procs p = 0")
    case True
    then show ?thesis by (simp add: parallel_setup_def Let_def)
  next
    case False
    define n where "n = nat (num_procs p)"
    have n: "0 < n" "n \<le> 4096" "num_procs p = int n" using p False by (auto simp: n_def)
    have w: "word_of_int (num_procs p) = (of_nat n :: u64)" "word_of_int (num_procs p - 1) = (of_nat (n - 1) :: u64)"
      using n by (simp_all add: of_nat_diff)
    have u: "unat (of_nat n :: u64) = n" "unat (of_nat (n - 1) :: u64) = n - 1"
      using n unat_of_nat_small [of n, where 'a = 64] unat_of_nat_small [of "n - 1", where 'a = 64] by simp_all
    have m: "(of_nat n :: u64) - 1 = of_nat (n - 1)" using n(1) by (simp add: of_nat_diff)
    define b where "b = (bogo_ops p + of_nat (n - 1)) div (of_nat n :: u64)"
    have "unat (bogo_ops p + of_nat (n - 1)) = unat (bogo_ops p) + (n - 1)"
      using p n u by (subst unat_plus_simple [THEN iffD1]) (auto simp: no_olen_add_nat)
    then have b: "unat b = (unat (bogo_ops p) + (n - 1)) div n" by (simp add: b_def unat_div u)
    have "unat (bogo_ops p) \<le> unat b * n" "unat b * n < unat (bogo_ops p) + n"
      unfolding b using div_mult_mod_eq [of "unat (bogo_ops p) + (n - 1)" n] mod_less_divisor [OF n(1), of "unat (bogo_ops p) + (n - 1)"] n(1)
      by linarith+
    moreover have "parallel_setup alloc_ok 0 opt_parallel p k
        = Some (Inr (p\<lparr>bogo_ops := b, pids := replicate n 0, stats := replicate n None\<rparr>, k + 2))"
      using False assms(2) by (simp add: parallel_setup_def Let_def alloc_proc_resources_def w m b_def n_def [symmetric] del: One_nat_def)
    ultimately show ?thesis using n_def by simp
  qed
  have "\<exists>qs k'. thread (parallel_setup alloc_ok 0 opt_parallel) ps k = Some (Inr (qs, k')) \<and> list_all2 ?R ps qs"
    if "\<forall>p \<in> set ps. 0 \<le> num_procs p \<and> num_procs p \<le> 4096 \<and> unat (bogo_ops p) \<le> 100000000" for ps k
    using that
  proof (induction ps arbitrary: k)
    case (Cons p ps)
    then obtain q k1 where q: "parallel_setup alloc_ok 0 opt_parallel p k = Some (Inr (q, k1))" "?R p q" using one [of p k] by auto
    moreover obtain qs k2 where "thread (parallel_setup alloc_ok 0 opt_parallel) ps k1 = Some (Inr (qs, k2))" "list_all2 ?R ps qs"
      using Cons.IH [of k1] Cons.prems by auto
    ultimately show ?case by auto
  qed simp
  from this [OF assms(3), of 0] obtain qs k' where t: "thread (parallel_setup alloc_ok 0 opt_parallel) ps 0 = Some (Inr (qs, k'))"
    and r: "list_all2 ?R ps qs" by blast
  obtain st' where "for_procs (parallel_setup alloc_ok 0 opt_parallel) (procs_head st) 0 st = Some (Inr (k', st'))" "listed st' qs"
    using linked_visit.visit_law [OF assms(1) t] by blast
  then show ?thesis using r by (auto simp: stress_setup_parallel_def set_default_timeout_def)
qed

theorem parallel_setup_shares_witness:
  "\<exists>st' qs. stress_setup_parallel (\<lambda>k. True) 0 0 (TIMEOUT_NOT_SET, sample_procs) = Some (Inr (DEFAULT_TIMEOUT, st'))
    \<and> listed st' qs \<and> map num_procs qs = [2, 4]"
proof -
  have "\<forall>p \<in> set sample_list. 0 \<le> num_procs p \<and> num_procs p \<le> 4096 \<and> unat (bogo_ops p) \<le> 100000000"
    by (simp add: sample_list_def new_proc_def)
  from parallel_setup_shares [OF sample_listed TrueI this, of 0] obtain st' qs
    where st': "stress_setup_parallel (\<lambda>k. True) 0 0 (TIMEOUT_NOT_SET, sample_procs) = Some (Inr (DEFAULT_TIMEOUT, st'))" "listed st' qs"
      and qs: "list_all2 (\<lambda>p q. pr_stressor q = pr_stressor p \<and> num_procs q = num_procs p
        \<and> (0 < num_procs p \<longrightarrow> pids q = replicate (nat (num_procs p)) 0 \<and> length (stats q) = nat (num_procs p)
          \<and> unat (bogo_ops p) \<le> unat (bogo_ops q) * nat (num_procs p)
          \<and> unat (bogo_ops q) * nat (num_procs p) < unat (bogo_ops p) + nat (num_procs p))) sample_list qs" by blast
  have "map num_procs qs = [2, 4]" using qs by (auto simp: sample_list_def list_all2_Cons1)
  with st' show ?thesis by (intro exI conjI)
qed

end
