(* ===== verification/Run.thy ===== *)
theory Run
  imports Proc_Setup C_Lib
begin

text \<open>
  The run itself, as the main process of stress-ng.c goes through it: signal handlers, starting the
  processes of the stressors, waiting for them, killing them, the sequential and the parallel mode and
  the exit status.  What the kernel answers is an argument; it is asked at consecutive ticks, and signals
  arrive between the ticks.
\<close>

section \<open>Kernel and state\<close>

text \<open>The signals the program names (SIGIOT is SIGABRT).\<close>

datatype signal = SIGHUP | SIGINT | SIGQUIT | SIGABRT | SIGFPE | SIGTERM | SIGXCPU | SIGXFSZ | SIGSTKFLT
  | SIGPWR | SIGVTALRM | SIGALRM | SIGUSR2 | SIGKILL

datatype handler = Handle_sigint | Sigint_handler | Sigalrm_parent_handler | Stats_handler | Stop_stressing

text \<open>
  What happens outside of the process, in the order it is brought about: the calls it makes, among them each \<open>fork\<close> that gave a
  process and each \<open>waitpid\<close> that gave a status.
\<close>

datatype call = Forked int | Waited int u32 | Kill int signal | Kill_own_group signal | Kill_parent signal | Killpg signal | Alarm u64 | Print_stats
  | Ignite_start | Ignite_stop | Thrash_start | Thrash_stop | Set_affinity int nat

text \<open>\<open>fork\<close> in the parent: \<open>EAGAIN\<close>, another error, or the number of the new process.\<close>

datatype fork_result = Fork_again | Fork_error | Fork_pid int

text \<open>\<open>waitpid\<close>: a status word, the errors \<open>EINTR\<close> and \<open>ECHILD\<close>, or anything else.\<close>

datatype wait_result = Wait_status u32 | Wait_intr | Wait_nochild | Wait_other

record os =
  os_signals :: "nat \<Rightarrow> signal list"
  os_timeup :: "nat \<Rightarrow> bool"
  os_fork :: "nat \<Rightarrow> fork_result"
  os_wait :: "nat \<Rightarrow> int \<Rightarrow> wait_result"
  os_sigaction :: "signal \<Rightarrow> bool"
  os_cpus :: u32
  os_getaffinity :: "nat \<Rightarrow> nat list option"
  os_setaffinity :: "nat \<Rightarrow> bool"

record run =
  r_procs :: procs
  g_keep_stressing_flag :: bool
  wait_flag :: bool
  g_caught_sigint :: bool
  g_signum :: "signal option"
  handlers :: "signal \<Rightarrow> handler option"
  kill_count :: int
  calls :: "call list"
  r_rng :: mwc_t
  r_tick :: nat
  success :: bool
  resource_success :: bool

definition get_proc :: "nat \<Rightarrow> run \<Rightarrow> proc option" where
  "get_proc a r = map_option pi_proc (p_heap (r_procs r) a)"

definition set_proc :: "nat \<Rightarrow> (proc \<Rightarrow> proc) \<Rightarrow> run \<Rightarrow> run option" where
  "set_proc a f r = map_option (\<lambda>st. r\<lparr>r_procs := st\<rparr>) (set_node a (\<lambda>n. n\<lparr>pi_proc := f (pi_proc n)\<rparr>) (r_procs r))"

definition note_call :: "call \<Rightarrow> run \<Rightarrow> run" where "note_call c r = r\<lparr>calls := calls r @ [c]\<rparr>"

text \<open>The gotos of \<open>stress_run\<close> and \<open>wait_procs\<close>.\<close>

datatype jump = Jump_break | Jump_abort | Jump_wait

text \<open>A loop over the list whose body may leave it.\<close>

partial_function (option) each_proc ::
  "(nat \<Rightarrow> run \<Rightarrow> (run \<times> jump option) option) \<Rightarrow> nat option \<Rightarrow> run \<Rightarrow> (run \<times> jump option) option" where
  "each_proc body p r =
    (case p of None \<Rightarrow> Some (r, None)
     | Some a \<Rightarrow> Option.bind (body a r) (\<lambda>(r, l). case l of
         Some l \<Rightarrow> Some (r, Some l)
       | None \<Rightarrow> Option.bind (p_heap (r_procs r) a) (\<lambda>n. each_proc body (pi_next n) r)))"

section \<open>Signals\<close>

text \<open>The processes of one stressor that are still there, after an entry of the array that has been started.\<close>

definition kill_node :: "signal \<Rightarrow> nat \<Rightarrow> run \<Rightarrow> (run \<times> jump option) option" where
  "kill_node signum a r =
    Option.bind (get_proc a r) (\<lambda>p.
      let n = nat (started_procs p)
      in if length (pids p) < n then None
         else Some (r\<lparr>calls := calls r @ map (\<lambda>pid. Kill pid signum) (filter (\<lambda>pid. pid \<noteq> 0) (take n (pids p)))\<rparr>, None))"

definition kill_procs :: "signal \<Rightarrow> run \<Rightarrow> run option" where
  "kill_procs sig r =
    (let r = r\<lparr>kill_count := kill_count r + 1\<rparr>;
         signum = (if kill_count r > 5 then SIGKILL else sig);
         r = note_call (Killpg sig) r
     in map_option fst (each_proc (kill_node signum) (procs_head (r_procs r)) r))"

definition handle_sigint :: "signal \<Rightarrow> run \<Rightarrow> run option" where
  "handle_sigint signum r = kill_procs SIGALRM (r\<lparr>g_signum := Some signum, g_keep_stressing_flag := False\<rparr>)"

definition stress_sigint_handler :: "run \<Rightarrow> run" where
  "stress_sigint_handler r =
    note_call (Kill_own_group SIGALRM) (r\<lparr>g_caught_sigint := True, g_keep_stressing_flag := False, wait_flag := False\<rparr>)"

definition stress_sigalrm_parent_handler :: "run \<Rightarrow> run" where
  "stress_sigalrm_parent_handler r = r\<lparr>wait_flag := False\<rparr>"

definition stress_stats_handler :: "run \<Rightarrow> run" where
  "stress_stats_handler r = note_call Print_stats r"

definition stress_handle_stop_stressing :: "run \<Rightarrow> run" where
  "stress_handle_stop_stressing r = r\<lparr>g_keep_stressing_flag := False\<rparr>"

text \<open>Without a handler each of these signals ends the process; a process that is gone has no result.\<close>

definition deliver :: "signal \<Rightarrow> run \<Rightarrow> run option" where
  "deliver s r =
    (case handlers r s of None \<Rightarrow> None
     | Some Handle_sigint \<Rightarrow> handle_sigint s r
     | Some Sigint_handler \<Rightarrow> Some (stress_sigint_handler r)
     | Some Sigalrm_parent_handler \<Rightarrow> Some (stress_sigalrm_parent_handler r)
     | Some Stats_handler \<Rightarrow> Some (stress_stats_handler r)
     | Some Stop_stressing \<Rightarrow> Some (stress_handle_stop_stressing r))"

fun deliver_all :: "signal list \<Rightarrow> run \<Rightarrow> run option" where
  "deliver_all [] r = Some r"
| "deliver_all (s # ss) r = Option.bind (deliver s r) (deliver_all ss)"

text \<open>A system call: the pending signals are handled, and the call is answered at this tick.\<close>

definition os_call :: "os \<Rightarrow> run \<Rightarrow> (nat \<times> run) option" where
  "os_call os r = map_option (\<lambda>r'. (r_tick r, r'\<lparr>r_tick := r_tick r + 1\<rparr>)) (deliver_all (os_signals os (r_tick r)) r)"

definition stress_sighandler :: "os \<Rightarrow> signal \<Rightarrow> handler \<Rightarrow> run \<Rightarrow> int \<times> run" where
  "stress_sighandler os s h r = (if os_sigaction os s then (0, r\<lparr>handlers := (handlers r)(s \<mapsto> h)\<rparr>) else (- 1, r))"

definition stress_set_handler :: "os \<Rightarrow> bool \<Rightarrow> run \<Rightarrow> int \<times> run" where
  "stress_set_handler os child r =
    (let (rc, r) = stress_sighandler os SIGINT Sigint_handler r in if rc < 0 then (- 1, r)
     else let (rc, r) = stress_sighandler os SIGHUP Sigint_handler r in if rc < 0 then (- 1, r)
     else let (rc, r) = (if \<not> child then stress_sighandler os SIGUSR2 Stats_handler r else (0, r)) in if rc < 0 then (- 1, r)
     else let (rc, r) = stress_sighandler os SIGALRM (if child then Stop_stressing else Sigalrm_parent_handler) r in if rc < 0 then (- 1, r)
     else (0, r))"

definition signals :: "signal list" where
  "signals = [SIGHUP, SIGINT, SIGQUIT, SIGABRT, SIGFPE, SIGTERM, SIGXCPU, SIGXFSZ, SIGABRT, SIGSTKFLT, SIGPWR, SIGVTALRM]"

fun set_signals :: "os \<Rightarrow> signal list \<Rightarrow> run \<Rightarrow> exit_status + run" where
  "set_signals os [] r = Inr r"
| "set_signals os (s # ss) r =
    (let (rc, r) = stress_sighandler os s Handle_sigint r
     in if rc < 0 then Inl (Exit EXIT_FAILURE) else set_signals os ss r)"

section \<open>Starting processes\<close>

text \<open>From the label \<open>again\<close> on, in the parent.\<close>

partial_function (option) fork_loop :: "os \<Rightarrow> nat \<Rightarrow> nat \<Rightarrow> run \<Rightarrow> (run \<times> jump option) option" where
  "fork_loop os a j r =
    (if \<not> g_keep_stressing_flag r then Some (r, Some Jump_break)
     else Option.bind (os_call os r) (\<lambda>(t, r). case os_fork os t of
       Fork_again \<Rightarrow> Option.bind (os_call os r) (\<lambda>(t, r). fork_loop os a j r)
     | Fork_error \<Rightarrow> Option.bind (kill_procs SIGALRM r) (\<lambda>r. Some (r, Some Jump_wait))
     | Fork_pid pid \<Rightarrow>
         let r = note_call (Forked pid) r
         in Option.bind (get_proc a r) (\<lambda>p.
         if length (pids p) \<le> j then None
         else Option.bind (if pid > - 1 then set_proc a (\<lambda>p. p\<lparr>pids := (pids p)[j := pid], started_procs := started_procs p + 1\<rparr>) r else Some r) (\<lambda>r.
         if \<not> g_keep_stressing_flag r then Option.bind (kill_procs SIGALRM r) (\<lambda>r. Some (r, Some Jump_wait))
         else Some (r, None)))))"

definition start_one :: "os \<Rightarrow> u64 \<Rightarrow> nat \<Rightarrow> run \<Rightarrow> (run \<times> jump option) option" where
  "start_one os opt_timeout a r =
    Option.bind (os_call os r) (\<lambda>(t, r).
      if opt_timeout \<noteq> 0 \<and> os_timeup os t then Some (r, Some Jump_abort)
      else Option.bind (get_proc a r) (\<lambda>p.
        if started_procs p < num_procs p
        then if length (stats p) \<le> nat (started_procs p) then None
             else fork_loop os a (nat (started_procs p)) r
        else Some (r, None)))"

primrec spawn_loop :: "os \<Rightarrow> u64 \<Rightarrow> nat option \<Rightarrow> nat \<Rightarrow> run \<Rightarrow> (run \<times> jump option) option" where
  "spawn_loop os opt_timeout procs_list 0 r = Some (r, None)"
| "spawn_loop os opt_timeout procs_list (Suc n) r =
    Option.bind (each_proc (start_one os opt_timeout) procs_list r) (\<lambda>(r, l).
      if l = None \<or> l = Some Jump_break then spawn_loop os opt_timeout procs_list n r else Some (r, l))"

section \<open>Waiting for processes\<close>

definition WTERMSIG :: "u32 \<Rightarrow> u32" where "WTERMSIG status = status AND 0x7f"

definition WIFSIGNALED :: "u32 \<Rightarrow> bool" where
  "WIFSIGNALED status \<longleftrightarrow> 0 <s signed_drop_bit 1 (ucast (WTERMSIG status + 1) :: 8 word)"

definition WEXITSTATUS :: "u32 \<Rightarrow> nat" where "WEXITSTATUS status = unat (drop_bit 8 (status AND 0xff00))"

definition proc_finished :: "nat \<Rightarrow> nat \<Rightarrow> run \<Rightarrow> run option" where
  "proc_finished a j r = set_proc a (\<lambda>p. p\<lparr>pids := (pids p)[j := 0]\<rparr>) r"

text \<open>What a status word does to the verdict of the run.\<close>

definition reap :: "u64 \<Rightarrow> u32 \<Rightarrow> run \<Rightarrow> run option" where
  "reap flags status r =
    (let r = (if WIFSIGNALED status then r\<lparr>success := False\<rparr> else r);
         e = WEXITSTATUS status;
         (r, abort) =
           (if e = EXIT_SUCCESS then (r, False)
            else if e = EXIT_NO_RESOURCE then (r\<lparr>resource_success := False\<rparr>, True)
            else if e = EXIT_NOT_IMPLEMENTED then (r, True)
            else (r\<lparr>success := False\<rparr>, True))
     in if flags AND OPT_FLAGS_ABORT \<noteq> 0 \<and> abort
        then kill_procs SIGALRM (r\<lparr>g_keep_stressing_flag := False, wait_flag := False\<rparr>)
        else Some r)"

text \<open>From the label \<open>redo\<close> on.\<close>

partial_function (option) wait_one :: "os \<Rightarrow> u64 \<Rightarrow> nat \<Rightarrow> nat \<Rightarrow> run \<Rightarrow> run option" where
  "wait_one os flags a j r =
    Option.bind (get_proc a r) (\<lambda>p.
    if length (pids p) \<le> j then None
    else if pids p ! j = 0 then Some r
    else Option.bind (os_call os r) (\<lambda>(t, r). case os_wait os t (pids p ! j) of
       Wait_status status \<Rightarrow> Option.bind (reap flags status (note_call (Waited (pids p ! j) status) r)) (proc_finished a j)
     | Wait_intr \<Rightarrow> wait_one os flags a j r
     | Wait_nochild \<Rightarrow> proc_finished a j r
     | Wait_other \<Rightarrow> Some r))"

fun wait_slots :: "os \<Rightarrow> u64 \<Rightarrow> nat \<Rightarrow> nat list \<Rightarrow> run \<Rightarrow> run option" where
  "wait_slots os flags a [] r = Some r"
| "wait_slots os flags a (j # js) r = Option.bind (wait_one os flags a j r) (wait_slots os flags a js)"

definition wait_node :: "os \<Rightarrow> u64 \<Rightarrow> nat \<Rightarrow> run \<Rightarrow> (run \<times> jump option) option" where
  "wait_node os flags a r =
    Option.bind (get_proc a r) (\<lambda>p. map_option (\<lambda>r. (r, None)) (wait_slots os flags a [0..<nat (started_procs p)] r))"

text \<open>The aggressive mode moves the processes between the processors before it waits.\<close>

partial_function (option) pick_cpu :: "u32 \<Rightarrow> nat list \<Rightarrow> mwc_t \<Rightarrow> (nat \<times> mwc_t) option" where
  "pick_cpu cpus proc_mask rng =
    (if cpus = 0 then None
     else let (v, rng) = mwc32 rng; c = unat (v mod cpus)
          in if c \<in> set proc_mask then Some (c, rng) else pick_cpu cpus proc_mask rng)"

fun affinity_slots :: "os \<Rightarrow> nat list \<Rightarrow> int list \<Rightarrow> run \<Rightarrow> (run \<times> jump option) option" where
  "affinity_slots os proc_mask [] r = Some (r, None)"
| "affinity_slots os proc_mask (pid # rest) r =
    (if pid = 0 then affinity_slots os proc_mask rest r
     else Option.bind (pick_cpu (os_cpus os) proc_mask (r_rng r)) (\<lambda>(c, rng).
       Option.bind (os_call os (note_call (Set_affinity pid c) (r\<lparr>r_rng := rng\<rparr>))) (\<lambda>(t, r).
         if \<not> os_setaffinity os t then Some (r, Some Jump_wait) else affinity_slots os proc_mask rest r)))"

definition affinity_node :: "os \<Rightarrow> nat list \<Rightarrow> nat \<Rightarrow> run \<Rightarrow> (run \<times> jump option) option" where
  "affinity_node os proc_mask a r =
    Option.bind (get_proc a r) (\<lambda>p.
      let n = nat (started_procs p)
      in if length (pids p) < n then None else affinity_slots os proc_mask (take n (pids p)) r)"

partial_function (option) affinity_loop :: "os \<Rightarrow> nat option \<Rightarrow> run \<Rightarrow> run option" where
  "affinity_loop os procs_list r =
    (if \<not> wait_flag r then Some r
     else Option.bind (os_call os r) (\<lambda>(t, r). case os_getaffinity os t of
       None \<Rightarrow> Some r
     | Some proc_mask \<Rightarrow>
         if proc_mask = [] then Some r
         else Option.bind (each_proc (affinity_node os proc_mask) procs_list r) (\<lambda>(r, l).
           if l \<noteq> None then Some r
           else Option.bind (os_call os r) (\<lambda>(t, r). affinity_loop os procs_list r))))"

definition wait_procs :: "os \<Rightarrow> u64 \<Rightarrow> nat option \<Rightarrow> run \<Rightarrow> run option" where
  "wait_procs os flags procs_list r =
    (let r = (if flags AND OPT_FLAGS_IGNITE_CPU \<noteq> 0 then note_call Ignite_start r else r)
     in Option.bind (if flags AND OPT_FLAGS_AGGRESSIVE \<noteq> 0 then affinity_loop os procs_list r else Some r) (\<lambda>r.
        Option.bind (each_proc (wait_node os flags) procs_list r) (\<lambda>(r, l).
        Some (if flags AND OPT_FLAGS_IGNITE_CPU \<noteq> 0 then note_call Ignite_stop r else r))))"

section \<open>The run\<close>

text \<open>
  The total is converted to a signed number.  The durations, which are floating point numbers, are left out; the comparison
  with the time limit is the kernel's answer.
\<close>

definition stress_run :: "os \<Rightarrow> u64 \<Rightarrow> u64 \<Rightarrow> nat option \<Rightarrow> run \<Rightarrow> run option" where
  "stress_run os flags opt_timeout procs_list r =
    Option.bind (get_total_num_procs procs_list (r_procs r)) (\<lambda>x. case x of
      Inl e \<Rightarrow> None
    | Inr (total_procs, st) \<Rightarrow>
        Option.bind (spawn_loop os opt_timeout procs_list (nat (sint total_procs)) (r\<lparr>r_procs := st, wait_flag := True\<rparr>)) (\<lambda>(r, l).
          let r = (if l = None
                   then (let r = snd (stress_set_handler os False r)
                         in if opt_timeout \<noteq> 0 then note_call (Alarm opt_timeout) r else r)
                   else r)
          in wait_procs os flags procs_list r))"

partial_function (option) run_sequential_loop :: "os \<Rightarrow> u64 \<Rightarrow> u64 \<Rightarrow> nat option \<Rightarrow> run \<Rightarrow> run option" where
  "run_sequential_loop os flags opt_timeout p r =
    (case p of None \<Rightarrow> Some r
     | Some a \<Rightarrow>
        if \<not> g_keep_stressing_flag r then Some r
        else Option.bind (p_heap (r_procs r) a) (\<lambda>n.
          Option.bind (set_node a (\<lambda>n. n\<lparr>pi_next := None\<rparr>) (r_procs r)) (\<lambda>st.
          Option.bind (stress_run os flags opt_timeout (Some a) (r\<lparr>r_procs := st\<rparr>)) (\<lambda>r.
          Option.bind (set_node a (\<lambda>m. m\<lparr>pi_next := pi_next n\<rparr>) (r_procs r)) (\<lambda>st.
          run_sequential_loop os flags opt_timeout (pi_next n) (r\<lparr>r_procs := st\<rparr>))))))"

definition stress_run_sequential :: "os \<Rightarrow> u64 \<Rightarrow> u64 \<Rightarrow> run \<Rightarrow> run option" where
  "stress_run_sequential os flags opt_timeout r = run_sequential_loop os flags opt_timeout (procs_head (r_procs r)) r"

definition stress_run_parallel :: "os \<Rightarrow> u64 \<Rightarrow> u64 \<Rightarrow> run \<Rightarrow> run option" where
  "stress_run_parallel os flags opt_timeout r = stress_run os flags opt_timeout (procs_head (r_procs r)) r"

section \<open>The child\<close>

record args_t =
  args_name :: string
  max_ops :: u64
  args_instance :: u32
  num_instances :: u32
  args_pid :: int
  args_ppid :: int
  page_size :: nat

text \<open>
  From the label \<open>child_exit\<close> on: the exit status, whether the stressor is marked as good in the shared statistics (nothing when it is not
  written), and the state of the process.
\<close>

definition child_exit :: "u64 \<Rightarrow> nat \<Rightarrow> bool option \<Rightarrow> run \<Rightarrow> (nat \<times> bool option \<times> run) option" where
  "child_exit flags rc run_ok r =
    Option.bind (free_procs (r_procs r)) (\<lambda>st.
      let r = r\<lparr>r_procs := st\<rparr>;
          r = (if rc \<noteq> 0 \<and> flags AND OPT_FLAGS_ABORT \<noteq> 0
               then note_call (Kill_parent SIGALRM) (r\<lparr>g_keep_stressing_flag := False, wait_flag := False\<rparr>) else r)
      in Some (if g_signum r \<noteq> None then EXIT_SIGNALED else rc, run_ok, r))"

text \<open>
  The branch of \<open>fork\<close> in the child, for instance \<open>j\<close> of the stressor at \<open>a\<close>; \<open>stress_func\<close> is the function of the stressor.  The name has
  room for 63 characters.
\<close>

definition child_run ::
    "os \<Rightarrow> u64 \<Rightarrow> u64 \<Rightarrow> string \<Rightarrow> int \<times> int \<times> nat \<Rightarrow> (stress_t \<Rightarrow> args_t \<Rightarrow> nat) \<Rightarrow> nat \<Rightarrow> nat \<Rightarrow> run \<Rightarrow>
      (nat \<times> bool option \<times> run) option" where
  "child_run os flags opt_timeout app_name ids stress_func a j r =
    (case ids of (pid, ppid, psize) \<Rightarrow>
     let (rc, r) = stress_set_handler os True r
     in if rc < 0 then child_exit flags EXIT_FAILURE None r
        else
         (let r = (if opt_timeout \<noteq> 0 then note_call (Alarm opt_timeout) r else r)
          in Option.bind (os_call os r) (\<lambda>(t, r).
             Option.bind (get_proc a r) (\<lambda>p.
             if g_keep_stressing_flag r \<and> flags AND OPT_FLAGS_DRY_RUN = 0
             then
               (let rc = stress_func (the_stressor p) \<lparr>args_name = take 63 (app_name @ ''-'' @ munge_underscore (st_name (the_stressor p))),
                      max_ops = bogo_ops p, args_instance = of_nat j, num_instances = word_of_int (num_procs p),
                      args_pid = pid, args_ppid = ppid, page_size = psize\<rparr>
                in Option.bind (os_call os r) (\<lambda>(t, r). child_exit flags rc (Some (rc = EXIT_SUCCESS)) r))
             else child_exit flags EXIT_SUCCESS None r))))"

section \<open>Reports\<close>

definition show_int :: "int \<Rightarrow> string" where
  "show_int n = (if n < 0 then CHR ''-'' # show_nat (nat (- n)) else show_nat (nat n))"

text \<open>
  The line with the stressors to run: the text so far with the flag \<open>previous\<close> and the number of allocations made.  Each piece
  is cut to the 63 characters of the buffer while its full length counts; the rest is filled with NULs.  A failed allocation
  makes \<open>main\<close> exit.
\<close>

definition show_step :: "(nat \<Rightarrow> bool) \<Rightarrow> proc \<Rightarrow> string \<times> bool \<times> nat \<Rightarrow> (exit_status + proc \<times> string \<times> bool \<times> nat) option" where
  "show_step alloc_ok p s =
    (case s of (str, previous, k) \<Rightarrow>
      if num_procs p \<noteq> 0
      then
        (let buffer = (if previous then '','' else []) @ '' '' @ show_int (num_procs p) @ '' '' @ munge_underscore (st_name (the_stressor p))
         in Some (if alloc_ok k then Inr (p, str @ take 63 buffer @ replicate (length buffer - 63) (CHR 0x00), True, k + 1)
                  else Inl (Exit EXIT_FAILURE)))
      else Some (Inr (p, str, previous, k)))"

definition show_stressors :: "(nat \<Rightarrow> bool) \<Rightarrow> procs \<Rightarrow> (exit_status + string \<times> procs) option" where
  "show_stressors alloc_ok st =
    map_option (map_sum id (\<lambda>((str, previous, k), st). (str, st))) (for_procs (show_step alloc_ok) (procs_head st) ([], False, 0) st)"

record proc_stats_t =
  ps_counter :: u64
  tms_utime :: u64
  tms_cutime :: u64
  tms_stime :: u64
  tms_cstime :: u64
  ps_run_ok :: bool

text \<open>The integer columns of the metrics: name, operations, user and system time of the stressors that are not skipped.\<close>

definition metrics_row :: "u64 \<Rightarrow> (nat \<Rightarrow> proc_stats_t) \<Rightarrow> proc \<Rightarrow> (string \<times> u64 \<times> u64 \<times> u64) list \<Rightarrow>
    (exit_status + proc \<times> (string \<times> u64 \<times> u64 \<times> u64) list) option" where
  "metrics_row flags mem p rows =
    (let n = nat (started_procs p); ss = take n (stats p)
     in if length (stats p) < n \<or> None \<in> set ss then None
        else
         (let vs = map (mem \<circ> the) ss;
              run_ok = fold (\<lambda>v b. b \<or> ps_run_ok v) vs False;
              c_total = fold (\<lambda>v c. c + ps_counter v) vs 0;
              u_total = fold (\<lambda>v c. c + (tms_utime v + tms_cutime v)) vs 0;
              s_total = fold (\<lambda>v c. c + (tms_stime v + tms_cstime v)) vs 0
          in Some (Inr (p, if flags AND OPT_FLAGS_METRICS_BRIEF \<noteq> 0 \<and> c_total = 0 \<and> \<not> run_ok then rows
                           else rows @ [(munge_underscore (st_name (the_stressor p)), c_total, u_total, s_total)]))))"

definition metrics_dump :: "u64 \<Rightarrow> (nat \<Rightarrow> proc_stats_t) \<Rightarrow> procs \<Rightarrow> (exit_status + (string \<times> u64 \<times> u64 \<times> u64) list \<times> procs) option" where
  "metrics_dump flags mem st = for_procs (metrics_row flags mem) (procs_head st) [] st"

section \<open>The main function\<close>

text \<open>
  What \<open>main\<close> gets from the machine and from the parsed options: memory for the list, the support checks, the values of the options
  exclude, random, sequential and all, the scheduler call, the job file (which may add to the list and the flags), the allocations,
  the limit on processes, the shared segment and the cache.
\<close>

record machine =
  m_mem :: "nat \<Rightarrow> nat option"
  m_supported :: "string \<Rightarrow> int"
  m_exclude :: "string option"
  m_random :: int
  m_sequential :: int
  m_parallel :: int
  m_sched :: int
  m_job :: "u64 \<times> run \<Rightarrow> int \<times> u64 \<times> run"
  m_alloc_ok :: "nat \<Rightarrow> bool"
  m_show_ok :: "nat \<Rightarrow> bool"
  m_limit :: "u64 option"
  m_map_ok :: bool
  m_cache :: int

text \<open>A failure ends the whole sequence, an exit too.\<close>

definition step :: "(exit_status + 'a) option \<Rightarrow> ('a \<Rightarrow> (exit_status + 'b) option) \<Rightarrow> (exit_status + 'b) option" where
  "step x f = Option.bind x (\<lambda>y. case y of Inl e \<Rightarrow> Some (Inl e) | Inr v \<Rightarrow> f v)"

text \<open>The checks of the flags; the variable \<open>class\<close> of \<open>main\<close> is never assigned.\<close>

definition main_checks :: "u64 \<Rightarrow> (exit_status + unit) option" where
  "main_checks flags =
    Some (if flags AND OPT_FLAGS_MINMAX_MASK = OPT_FLAGS_MINMAX_MASK then Inl (Exit EXIT_FAILURE)
          else if flags AND (OPT_FLAGS_SEQUENTIAL OR OPT_FLAGS_ALL) = (OPT_FLAGS_SEQUENTIAL OR OPT_FLAGS_ALL) then Inl (Exit EXIT_FAILURE)
          else Inr ())"

definition main_select :: "machine \<Rightarrow> u64 \<Rightarrow> run \<Rightarrow> (exit_status + run) option" where
  "main_select me flags r =
    step (if flags AND OPT_FLAGS_SEQUENTIAL \<noteq> 0 then enable_all_stressors (m_mem me) flags (m_sequential me) (r_procs r) else Some (Inr (r_procs r))) (\<lambda>st.
    step (if flags AND OPT_FLAGS_ALL \<noteq> 0 then enable_all_stressors (m_mem me) flags (m_parallel me) st else Some (Inr st)) (\<lambda>st.
    Option.bind (exclude_unsupported (m_supported me) st) (\<lambda>st.
    Option.bind (exclude_pathological flags st) (\<lambda>st.
    Option.bind (stress_exclude (m_exclude me) st) (\<lambda>(rc, st).
    if rc < 0 then Some (Inl (Exit EXIT_FAILURE))
    else step (set_random_stressors (m_random me) flags (r_rng r) st) (\<lambda>(rng, st).
      Some (Inr (r\<lparr>r_procs := st, r_rng := rng\<rparr>))))))))"

definition main_setup :: "machine \<Rightarrow> os \<Rightarrow> u64 \<Rightarrow> u64 \<Rightarrow> run \<Rightarrow> (exit_status + u64 \<times> u64 \<times> run) option" where
  "main_setup me os flags opt_timeout r =
    (if m_sched me < 0 then Some (Inl (Exit EXIT_FAILURE))
     else step (Some (set_signals os signals r)) (\<lambda>r.
     case m_job me (flags, r) of (rc, flags, r) \<Rightarrow>
     if rc < 0 then Some (Inl (Exit EXIT_FAILURE))
     else step (if flags AND OPT_FLAGS_SEQUENTIAL \<noteq> 0 then stress_setup_sequential (m_alloc_ok me) 0 (m_sequential me) (opt_timeout, r_procs r)
                else stress_setup_parallel (m_alloc_ok me) 0 (m_parallel me) (opt_timeout, r_procs r)) (\<lambda>(opt_timeout, st).
     step (set_proc_limits (m_limit me) st) (\<lambda>(limits, st).
     if procs_head st = None then Some (Inl (Exit EXIT_FAILURE))
     else step (show_stressors (m_show_ok me) st) (\<lambda>(str, st).
     step (get_total_num_procs (procs_head st) st) (\<lambda>(n, st).
     if \<not> m_map_ok me then Some (Inl (Exit EXIT_FAILURE))
     else step (setup_stats_buffers st) (\<lambda>(k, st).
     if m_cache me < 0 then Some (Inl (Exit EXIT_FAILURE))
     else step (proc_helper flags proc_init [] st) (\<lambda>(inits, st). Some (Inr (flags, opt_timeout, r\<lparr>r_procs := st\<rparr>))))))))))"

definition main_run :: "os \<Rightarrow> u64 \<Rightarrow> u64 \<Rightarrow> run \<Rightarrow> run option" where
  "main_run os flags opt_timeout r =
    (let r = (if flags AND OPT_FLAGS_THRASH \<noteq> 0 then note_call Thrash_start r else r)
     in map_option (\<lambda>r. if flags AND OPT_FLAGS_THRASH \<noteq> 0 then note_call Thrash_stop r else r)
          (if flags AND OPT_FLAGS_SEQUENTIAL \<noteq> 0 then stress_run_sequential os flags opt_timeout r else stress_run_parallel os flags opt_timeout r))"

definition main_exit :: "run \<Rightarrow> exit_status" where
  "main_exit r = Exit (if \<not> success r then EXIT_NOT_SUCCESS else if \<not> resource_success r then EXIT_NO_RESOURCE else EXIT_SUCCESS)"

text \<open>\<open>main\<close> after the options have been parsed; the reports do not change the state.  The result is the exit status.\<close>

definition main_program :: "machine \<Rightarrow> os \<Rightarrow> u64 \<Rightarrow> u64 \<Rightarrow> run \<Rightarrow> exit_status option" where
  "main_program me os flags opt_timeout r =
    map_option (\<lambda>x. case x of Inl e \<Rightarrow> e | Inr e \<Rightarrow> e)
     (step (main_checks flags) (\<lambda>_.
      step (main_select me flags r) (\<lambda>r.
      step (main_setup me os flags opt_timeout r) (\<lambda>(flags, opt_timeout, r).
      Option.bind (main_run os flags opt_timeout r) (\<lambda>r.
      Option.bind (free_procs (r_procs r)) (\<lambda>st.
      step (proc_helper flags proc_destroy [] st) (\<lambda>(destroys, st). Some (Inr (main_exit r)))))))))"

end
