(* ===== verification/Run_Props.thy ===== *)
theory Run_Props
  imports Run "HOL-Library.Multiset"
begin

text \<open>
  Properties of the run: rules for walks over the list, what killing, starting and waiting do under a
  kernel that does not disturb the run, and from them the course of whole runs in both modes.
\<close>

section \<open>Walking the list\<close>

text \<open>The addresses on the way from a pointer to the end of the list.\<close>

fun chain :: "(nat \<Rightarrow> proc_info option) \<Rightarrow> nat option \<Rightarrow> nat list \<Rightarrow> bool" where
  "chain h p [] \<longleftrightarrow> p = None"
| "chain h p (a # as) \<longleftrightarrow> p = Some a \<and> (\<exists>n. h a = Some n \<and> chain h (pi_next n) as)"

definition same_links :: "run \<Rightarrow> run \<Rightarrow> bool" where
  "same_links r r' \<longleftrightarrow> procs_head (r_procs r') = procs_head (r_procs r) \<and> procs_tail (r_procs r') = procs_tail (r_procs r)
    \<and> (\<forall>a. map_option (\<lambda>n. (pi_next n, pi_prev n)) (p_heap (r_procs r') a) = map_option (\<lambda>n. (pi_next n, pi_prev n)) (p_heap (r_procs r) a))"

lemma same_links_refl [simp]: "same_links r r"
  by (simp add: same_links_def)

lemma same_links_trans: "same_links r r' \<Longrightarrow> same_links r' r'' \<Longrightarrow> same_links r r''"
  by (simp add: same_links_def)

lemma chain_links: "same_links r r' \<Longrightarrow> chain (p_heap (r_procs r)) p as \<Longrightarrow> chain (p_heap (r_procs r')) p as"
proof (induction as arbitrary: p)
  case (Cons a as)
  then obtain n where n: "p = Some a" "p_heap (r_procs r) a = Some n" "chain (p_heap (r_procs r)) (pi_next n) as" by auto
  then have "map_option (\<lambda>n. (pi_next n, pi_prev n)) (p_heap (r_procs r') a) = Some (pi_next n, pi_prev n)"
    using Cons.prems(1) by (simp add: same_links_def)
  then obtain n' where "p_heap (r_procs r') a = Some n'" "pi_next n' = pi_next n" by auto
  then show ?case using Cons.IH [OF Cons.prems(1) n(3)] n by auto
qed simp

lemma chain_get: "chain (p_heap (r_procs r)) p as \<Longrightarrow> a \<in> set as \<Longrightarrow> \<exists>q. get_proc a r = Some q"
  by (induction as arbitrary: p) (auto simp: get_proc_def)

text \<open>The rule for loops that visit every node and change no links.\<close>

lemma each_proc_rule:
  assumes "chain (p_heap (r_procs r)) p as" and "I [] r"
    and step: "\<And>xs a ys r. as = xs @ a # ys \<Longrightarrow> I xs r \<Longrightarrow> \<exists>r'. body a r = Some (r', None) \<and> I (xs @ [a]) r' \<and> same_links r r'"
  shows "\<exists>r'. each_proc body p r = Some (r', None) \<and> I as r' \<and> same_links r r'"
proof -
  have "\<exists>r'. each_proc body p r = Some (r', None) \<and> I as r' \<and> same_links r r'"
    if "chain (p_heap (r_procs r)) p ys" "I xs r" "as = xs @ ys" for xs ys p r
    using that
  proof (induction ys arbitrary: xs p r)
    case (Cons a ys)
    then obtain r1 where r1: "body a r = Some (r1, None)" "I (xs @ [a]) r1" "same_links r r1" using step by blast
    then have "chain (p_heap (r_procs r1)) p (a # ys)" using Cons.prems(1) chain_links by blast
    then obtain n where n: "p = Some a" "p_heap (r_procs r1) a = Some n" "chain (p_heap (r_procs r1)) (pi_next n) ys" by auto
    obtain r' where "each_proc body (pi_next n) r1 = Some (r', None)" "I as r'" "same_links r1 r'"
      using Cons.IH [OF n(3) r1(2)] Cons.prems(3) by auto
    then show ?case using r1 n same_links_trans by (subst each_proc.simps) auto
  qed (auto simp: each_proc.simps)
  from this [OF assms(1,2)] show ?thesis by simp
qed

lemma for_procs_const:
  assumes "chain (p_heap st) p as"
  shows "for_procs (\<lambda>q s. Some (Inr (q, g q s))) p s st = Some (Inr (fold (\<lambda>a. g (pi_proc (the (p_heap st a)))) as s, st))"
  using assms
proof (induction as arbitrary: p s)
  case (Cons a as)
  then obtain n where n: "p = Some a" "p_heap st a = Some n" "chain (p_heap st) (pi_next n) as" by auto
  then have "st\<lparr>p_heap := (p_heap st)(a \<mapsto> n)\<rparr> = st" by (simp add: map_upd_triv)
  then show ?case using Cons.IH [OF n(3)] n by (subst for_procs.simps) simp
qed (simp add: for_procs.simps)

lemma set_proc_some:
  assumes "get_proc a r = Some p"
  obtains r' where "set_proc a f r = Some r'" and "same_links r r'" and "get_proc a r' = Some (f p)"
    and "\<And>b. b \<noteq> a \<Longrightarrow> get_proc b r' = get_proc b r" and "r' = r\<lparr>r_procs := r_procs r'\<rparr>"
proof -
  obtain n where "p_heap (r_procs r) a = Some n" "p = pi_proc n" using assms by (auto simp: get_proc_def)
  then show thesis using that by (auto simp: set_proc_def set_node_def get_proc_def same_links_def)
qed

section \<open>The log of processes\<close>

text \<open>The processes a log says were started, and those it says have ended, with their statuses.\<close>

definition forks :: "call list \<Rightarrow> int list" where
  "forks cs = concat (map (\<lambda>c. case c of Forked pid \<Rightarrow> [pid] | _ \<Rightarrow> []) cs)"

definition waits :: "call list \<Rightarrow> (int \<times> u32) list" where
  "waits cs = concat (map (\<lambda>c. case c of Waited pid s \<Rightarrow> [(pid, s)] | _ \<Rightarrow> []) cs)"

lemma log_simps [simp]:
  "forks [] = []" "forks (c # cs) = (case c of Forked pid \<Rightarrow> [pid] | _ \<Rightarrow> []) @ forks cs" "forks (cs @ cs') = forks cs @ forks cs'"
  "waits [] = []" "waits (c # cs) = (case c of Waited pid s \<Rightarrow> [(pid, s)] | _ \<Rightarrow> []) @ waits cs" "waits (cs @ cs') = waits cs @ waits cs'"
  by (simp_all add: forks_def waits_def)

lemma log_kills [simp]: "forks (map (\<lambda>pid. Kill pid s) xs) = []" "waits (map (\<lambda>pid. Kill pid s) xs) = []"
  by (induction xs) simp_all

text \<open>The log of \<open>r'\<close> continues that of \<open>r\<close> by the processes \<open>new\<close>, in some order, and by the ends \<open>ended\<close>.\<close>

definition logged :: "run \<Rightarrow> int list \<Rightarrow> (int \<times> u32) list \<Rightarrow> run \<Rightarrow> bool" where
  "logged r new ended r' \<longleftrightarrow> mset (forks (calls r')) = mset (forks (calls r)) + mset new \<and> waits (calls r') = waits (calls r) @ ended"

lemma logged_trans: "logged r new ended r1 \<Longrightarrow> logged r1 new' ended' r2 \<Longrightarrow> logged r (new @ new') (ended @ ended') r2"
  by (simp add: logged_def)

lemma logged_calls: "calls r0 = calls r \<Longrightarrow> calls r1 = calls r' \<Longrightarrow> logged r0 new ended r1 = logged r new ended r'"
  by (simp add: logged_def)

section \<open>Killing\<close>

definition live :: "proc \<Rightarrow> int list" where
  "live p = filter (\<lambda>pid. pid \<noteq> 0) (take (nat (started_procs p)) (pids p))"

text \<open>The whole list can be walked, and no stressor counts more processes than its array holds.\<close>

definition killable :: "nat list \<Rightarrow> run \<Rightarrow> bool" where
  "killable bs r \<longleftrightarrow> chain (p_heap (r_procs r)) (procs_head (r_procs r)) bs
    \<and> (\<forall>b \<in> set bs. \<exists>p. get_proc b r = Some p \<and> nat (started_procs p) \<le> length (pids p))"

lemma kill_procs_calls:
  assumes "killable bs r"
  shows "kill_procs sig r = Some (r\<lparr>kill_count := kill_count r + 1, calls := calls r @ Killpg sig
    # map (\<lambda>pid. Kill pid (if 5 \<le> kill_count r then SIGKILL else sig)) (concat (map (\<lambda>b. live (the (get_proc b r))) bs))\<rparr>)"
proof -
  let ?s = "if 5 \<le> kill_count r then SIGKILL else sig"
  let ?r = "note_call (Killpg sig) (r\<lparr>kill_count := kill_count r + 1\<rparr>)"
  let ?I = "\<lambda>xs r'. r' = ?r\<lparr>calls := calls ?r @ map (\<lambda>pid. Kill pid ?s) (concat (map (\<lambda>b. live (the (get_proc b r))) xs))\<rparr>"
  have g: "get_proc b (r\<lparr>kill_count := c, calls := cs\<rparr>) = get_proc b r" for b c cs by (simp add: get_proc_def)
  have "\<exists>r'. each_proc (kill_node ?s) (procs_head (r_procs ?r)) ?r = Some (r', None) \<and> ?I bs r' \<and> same_links ?r r'"
  proof (rule each_proc_rule)
    show "chain (p_heap (r_procs ?r)) (procs_head (r_procs ?r)) bs" using assms by (simp add: killable_def note_call_def)
    fix xs a ys r'
    assume bs: "bs = xs @ a # ys" and r': "?I xs r'"
    obtain p where p: "get_proc a r = Some p" "nat (started_procs p) \<le> length (pids p)"
      using assms bs by (auto simp: killable_def)
    then show "\<exists>r''. kill_node ?s a r' = Some (r'', None) \<and> ?I (xs @ [a]) r'' \<and> same_links r' r''"
      using r' by (simp add: kill_node_def g note_call_def live_def same_links_def)
  qed (simp add: note_call_def)
  then show ?thesis by (auto simp: kill_procs_def Let_def note_call_def)
qed

text \<open>The answers of a kernel that sends no signals and always gives in: new processes, and a status for each.\<close>

definition same_verdict :: "run \<Rightarrow> run \<Rightarrow> bool" where
  "same_verdict r r' \<longleftrightarrow> g_keep_stressing_flag r' = g_keep_stressing_flag r \<and> success r' = success r \<and> resource_success r' = resource_success r"

definition forked :: "os \<Rightarrow> int set" where
  "forked os = {pid. \<exists>t. os_fork os t = Fork_pid pid}"

definition calm :: "os \<Rightarrow> (int \<Rightarrow> u32) \<Rightarrow> bool" where
  "calm os status \<longleftrightarrow> (\<forall>t. os_signals os t = []) \<and> (\<forall>t. \<not> os_timeup os t)
    \<and> (\<forall>t. \<exists>k. os_fork os (t + 2 * k) \<noteq> Fork_again) \<and> (\<forall>t. os_fork os t \<noteq> Fork_error) \<and> (\<forall>pid \<in> forked os. 0 < pid)
    \<and> (\<forall>pid \<in> forked os. \<forall>t. os_wait os t pid \<in> {Wait_intr, Wait_status (status pid)})
    \<and> (\<forall>pid \<in> forked os. \<forall>t. \<exists>k. os_wait os (t + k) pid \<noteq> Wait_intr)"

lemma calm_call [simp]: "calm os status \<Longrightarrow> os_call os r = Some (r_tick r, r\<lparr>r_tick := r_tick r + 1\<rparr>)"
  by (simp add: calm_def os_call_def)

lemma get_proc_fields [simp]:
  "get_proc a (r\<lparr>r_tick := t\<rparr>) = get_proc a r" "get_proc a (r\<lparr>success := b\<rparr>) = get_proc a r"
  "get_proc a (r\<lparr>resource_success := b\<rparr>) = get_proc a r" "get_proc a (r\<lparr>calls := c\<rparr>) = get_proc a r"
  "get_proc a (r\<lparr>kill_count := k\<rparr>) = get_proc a r" "get_proc a (r\<lparr>g_keep_stressing_flag := b\<rparr>) = get_proc a r"
  "get_proc a (r\<lparr>wait_flag := b\<rparr>) = get_proc a r" "get_proc a (r\<lparr>handlers := hs\<rparr>) = get_proc a r"
  "get_proc a (note_call e r) = get_proc a r"
  by (simp_all add: get_proc_def note_call_def)

lemma note_call_fields [simp]:
  "r_procs (note_call c r) = r_procs r" "g_keep_stressing_flag (note_call c r) = g_keep_stressing_flag r"
  "success (note_call c r) = success r" "resource_success (note_call c r) = resource_success r" "r_tick (note_call c r) = r_tick r"
  "calls (note_call c r) = calls r @ [c]"
  by (simp_all add: note_call_def)

lemma fork_loop_calm:
  assumes calm: "calm os status" and keep: "g_keep_stressing_flag r" and p: "get_proc a r = Some p" "j < length (pids p)"
  shows "\<exists>r' pid. fork_loop os a j r = Some (r', None) \<and> pid \<in> forked os \<and> same_links r r'
    \<and> get_proc a r' = Some (p\<lparr>pids := (pids p)[j := pid], started_procs := started_procs p + 1\<rparr>)
    \<and> (\<forall>b. b \<noteq> a \<longrightarrow> get_proc b r' = get_proc b r) \<and> same_verdict r r' \<and> logged r [pid] [] r'"
proof -
  obtain k where "os_fork os (r_tick r + 2 * k) \<noteq> Fork_again" using calm unfolding calm_def by blast
  then show ?thesis using keep p
  proof (induction k arbitrary: r rule: less_induct)
    case (less k)
    show ?case
    proof (cases "os_fork os (r_tick r)")
      case Fork_again
      then obtain k' where k: "k = Suc k'" using less.prems(1) by (cases k) auto
      let ?r2 = "r\<lparr>r_tick := r_tick r + 2\<rparr>"
      have "fork_loop os a j r = fork_loop os a j ?r2"
        using less.prems calm Fork_again by (subst fork_loop.simps) simp
      moreover obtain r' pid where "fork_loop os a j ?r2 = Some (r', None)" "pid \<in> forked os" "same_links ?r2 r'"
        "get_proc a r' = Some (p\<lparr>pids := (pids p)[j := pid], started_procs := started_procs p + 1\<rparr>)"
        "\<forall>b. b \<noteq> a \<longrightarrow> get_proc b r' = get_proc b ?r2" "same_verdict ?r2 r'" "logged ?r2 [pid] [] r'"
        using less.IH [of k' ?r2] less.prems k by auto
      ultimately show ?thesis by (intro exI [of _ r'] exI [of _ pid]) (simp add: same_links_def same_verdict_def logged_def)
    next
      case (Fork_pid pid)
      then have pid: "pid \<in> forked os" "0 < pid" using calm by (auto simp: forked_def calm_def)
      let ?r = "note_call (Forked pid) (r\<lparr>r_tick := r_tick r + 1\<rparr>)"
      obtain r' where r': "set_proc a (\<lambda>p. p\<lparr>pids := (pids p)[j := pid], started_procs := started_procs p + 1\<rparr>) ?r = Some r'"
        "same_links ?r r'" "get_proc a r' = Some (p\<lparr>pids := (pids p)[j := pid], started_procs := started_procs p + 1\<rparr>)"
        "\<And>b. b \<noteq> a \<Longrightarrow> get_proc b r' = get_proc b ?r" "r' = ?r\<lparr>r_procs := r_procs r'\<rparr>"
        using set_proc_some [of a ?r p] less.prems by auto
      have keep': "g_keep_stressing_flag r'" using less.prems(2) by (subst r'(5)) simp
      have "fork_loop os a j r = Some (r', None)"
        using less.prems calm Fork_pid pid(2) r'(1) keep' by (subst fork_loop.simps) simp
      moreover have "same_verdict r r'" "logged r [pid] [] r'"
        by (subst r'(5), simp add: same_verdict_def logged_def note_call_def)+
      ultimately show ?thesis using r'(2-4) pid by (intro exI [of _ r'] exI [of _ pid]) (simp add: same_links_def note_call_def)
    qed (use calm in \<open>simp add: calm_def\<close>)
  qed
qed

text \<open>A stressor that had no processes has started \<open>k\<close> of them.\<close>

definition started_to :: "int set \<Rightarrow> proc \<Rightarrow> nat \<Rightarrow> proc \<Rightarrow> bool" where
  "started_to F p0 k p \<longleftrightarrow> pr_stressor p = pr_stressor p0 \<and> stats p = stats p0 \<and> num_procs p = num_procs p0
    \<and> bogo_ops p = bogo_ops p0 \<and> started_procs p = int k \<and> length (pids p) = nat (num_procs p0)
    \<and> (\<forall>j < k. pids p ! j \<in> F) \<and> (\<forall>j < length (pids p). k \<le> j \<longrightarrow> pids p ! j = 0)"

definition fresh :: "proc \<Rightarrow> bool" where
  "fresh p \<longleftrightarrow> 0 \<le> num_procs p \<and> started_procs p = 0 \<and> pids p = replicate (nat (num_procs p)) 0 \<and> length (stats p) = nat (num_procs p)"

lemma started_to_0: "fresh p \<Longrightarrow> started_to F p 0 p"
  by (simp add: started_to_def fresh_def)

definition launched :: "proc \<Rightarrow> int list" where
  "launched p = take (nat (started_procs p)) (pids p)"

lemma launched_next:
  "started_procs p = int k \<Longrightarrow> k < length (pids p) \<Longrightarrow>
    launched (p\<lparr>pids := (pids p)[k := pid], started_procs := started_procs p + 1\<rparr>) = launched p @ [pid]"
  by (simp add: launched_def take_Suc_conv_app_nth nat_add_distrib)

lemma start_one_calm:
  assumes calm: "calm os status" and keep: "g_keep_stressing_flag r" and p: "get_proc a r = Some p" "started_to (forked os) p0 (min k (nat (num_procs p0))) p"
    and p0: "fresh p0"
  shows "\<exists>r'. start_one os opt_timeout a r = Some (r', None) \<and> same_links r r'
    \<and> (\<exists>p' new. get_proc a r' = Some p' \<and> started_to (forked os) p0 (min (Suc k) (nat (num_procs p0))) p'
         \<and> launched p' = launched p @ new \<and> logged r new [] r')
    \<and> (\<forall>b. b \<noteq> a \<longrightarrow> get_proc b r' = get_proc b r) \<and> same_verdict r r'"
proof -
  let ?n = "nat (num_procs p0)" and ?r = "r\<lparr>r_tick := r_tick r + 1\<rparr>"
  have f: "num_procs p = num_procs p0" "started_procs p = int (min k ?n)" "stats p = stats p0" "length (pids p) = ?n"
    using p(2) by (simp_all add: started_to_def)
  have up: "\<not> os_timeup os (r_tick r)" using calm by (simp add: calm_def)
  show ?thesis
  proof (cases "k < ?n")
    case True
    then have lt: "started_procs p < num_procs p" "nat (started_procs p) = k" "k < length (stats p)" using f p0 by (auto simp: fresh_def)
    obtain r' pid where r': "fork_loop os a k ?r = Some (r', None)" "pid \<in> forked os" "same_links ?r r'"
      "get_proc a r' = Some (p\<lparr>pids := (pids p)[k := pid], started_procs := started_procs p + 1\<rparr>)"
      "\<forall>b. b \<noteq> a \<longrightarrow> get_proc b r' = get_proc b ?r" "same_verdict ?r r'" "logged ?r [pid] [] r'"
      using fork_loop_calm [OF calm, of ?r a p k] keep p(1) f(4) True by auto
    have "started_to (forked os) p0 (Suc k) (p\<lparr>pids := (pids p)[k := pid], started_procs := started_procs p + 1\<rparr>)"
      using p(2) True r'(2) f(2) by (auto simp: started_to_def nth_list_update less_Suc_eq)
    moreover have "start_one os opt_timeout a r = Some (r', None)"
      using calm p(1) lt up r'(1) by (simp add: start_one_def)
    moreover have "launched (p\<lparr>pids := (pids p)[k := pid], started_procs := started_procs p + 1\<rparr>) = launched p @ [pid]"
      using launched_next [of p k pid] f(2,4) True by simp
    moreover have "logged r [pid] [] r'" using r'(7) by (simp add: logged_def)
    ultimately show ?thesis using r'(3-6) True by (intro exI [of _ r']) (auto simp: same_links_def same_verdict_def)
  next
    case False
    then have "start_one os opt_timeout a r = Some (?r, None)" "min (Suc k) ?n = min k ?n"
      using calm p(1) up f p0 by (auto simp: start_one_def fresh_def)
    then show ?thesis using p by (intro exI [of _ ?r]) (simp add: same_links_def same_verdict_def logged_def)
  qed
qed

text \<open>
  The state of a spawning run: only the list, the log and the tick differ from the start, every stressor has reached its count, and
  the processes in the log are those of the stressors.
\<close>

definition spawning :: "os \<Rightarrow> run \<Rightarrow> nat list \<Rightarrow> (nat \<Rightarrow> nat) \<Rightarrow> run \<Rightarrow> bool" where
  "spawning os r0 as k r \<longleftrightarrow> same_verdict r0 r \<and> same_links r0 r
    \<and> logged r0 (concat (map (\<lambda>a. launched (the (get_proc a r))) as)) [] r
    \<and> (\<forall>b. b \<notin> set as \<longrightarrow> get_proc b r = get_proc b r0)
    \<and> (\<forall>a \<in> set as. \<exists>p0 p. get_proc a r0 = Some p0 \<and> get_proc a r = Some p \<and> fresh p0
         \<and> started_to (forked os) p0 (min (k a) (nat (num_procs p0))) p)"

lemma spawn_pass:
  assumes calm: "calm os status" and keep: "g_keep_stressing_flag r0" and "distinct as"
    and c: "chain (p_heap (r_procs r0)) procs_list as" and s: "spawning os r0 as (\<lambda>a. m) r"
  shows "\<exists>r'. each_proc (start_one os opt_timeout) procs_list r = Some (r', None) \<and> spawning os r0 as (\<lambda>a. Suc m) r'"
proof -
  let ?k = "\<lambda>xs a. if a \<in> set xs then Suc m else m"
  have "\<exists>r'. each_proc (start_one os opt_timeout) procs_list r = Some (r', None) \<and> spawning os r0 as (?k as) r' \<and> same_links r r'"
  proof (rule each_proc_rule [where I = "\<lambda>xs. spawning os r0 as (?k xs)"])
    show "chain (p_heap (r_procs r)) procs_list as" using s c chain_links by (auto simp: spawning_def)
    show "spawning os r0 as (?k []) r" using s by simp
    fix xs a ys r1
    assume as: "as = xs @ a # ys" and r1: "spawning os r0 as (?k xs) r1"
    have a: "a \<in> set as" "a \<notin> set xs" using as \<open>distinct as\<close> by auto
    obtain p0 p where p: "get_proc a r0 = Some p0" "get_proc a r1 = Some p" "fresh p0"
      "started_to (forked os) p0 (min m (nat (num_procs p0))) p"
      using r1 a by (auto simp: spawning_def)
    have k1: "g_keep_stressing_flag r1" using r1 keep by (simp add: spawning_def same_verdict_def)
    obtain r2 p' new where r2: "start_one os opt_timeout a r1 = Some (r2, None)" "same_links r1 r2" "get_proc a r2 = Some p'"
      "started_to (forked os) p0 (min (Suc m) (nat (num_procs p0))) p'" "\<forall>b. b \<noteq> a \<longrightarrow> get_proc b r2 = get_proc b r1"
      "same_verdict r1 r2" "launched p' = launched p @ new" "logged r1 new [] r2"
      using start_one_calm [OF calm k1 p(2,4,3)] by blast
    have "spawning os r0 as (?k (xs @ [a])) r2" unfolding spawning_def
    proof (intro conjI)
      show "same_verdict r0 r2" using r1 r2(6) by (simp add: spawning_def same_verdict_def)
      show "same_links r0 r2" using r1 r2(2) same_links_trans by (auto simp: spawning_def)
      let ?ids = "\<lambda>r a. launched (the (get_proc a r))"
      have o: "map (?ids r2) zs = map (?ids r1) zs" if "a \<notin> set zs" for zs
        using that r2(5) by (intro map_cong) auto
      have "map (?ids r2) xs = map (?ids r1) xs" "map (?ids r2) ys = map (?ids r1) ys"
        using as \<open>distinct as\<close> o [of xs] o [of ys] by simp_all
      then have "map (?ids r2) as = map (?ids r1) xs @ (launched p @ new) # map (?ids r1) ys" unfolding as using r2(3,7) by simp
      moreover have "map (?ids r1) as = map (?ids r1) xs @ launched p # map (?ids r1) ys" unfolding as using p(2) by simp
      moreover have "logged r0 (concat (map (?ids r1) as)) [] r1" using r1 by (simp add: spawning_def)
      ultimately show "logged r0 (concat (map (?ids r2) as)) [] r2" using r2(8) by (simp only: logged_def) simp
      show "\<forall>b. b \<notin> set as \<longrightarrow> get_proc b r2 = get_proc b r0" using r1 r2(5) a by (auto simp: spawning_def)
      show "\<forall>b \<in> set as. \<exists>q0 q. get_proc b r0 = Some q0 \<and> get_proc b r2 = Some q \<and> fresh q0
          \<and> started_to (forked os) q0 (min (?k (xs @ [a]) b) (nat (num_procs q0))) q"
      proof
        fix b assume b: "b \<in> set as"
        show "\<exists>q0 q. get_proc b r0 = Some q0 \<and> get_proc b r2 = Some q \<and> fresh q0
          \<and> started_to (forked os) q0 (min (?k (xs @ [a]) b) (nat (num_procs q0))) q"
        proof (cases "b = a")
          case True
          then show ?thesis using p r2(3,4) by auto
        next
          case False
          then show ?thesis using r1 b r2(5) by (simp add: spawning_def)
        qed
      qed
    qed
    then show "\<exists>r'. start_one os opt_timeout a r1 = Some (r', None) \<and> spawning os r0 as (?k (xs @ [a])) r' \<and> same_links r1 r'"
      using r2(1,2) by blast
  qed
  moreover have "spawning os r0 as (?k as) r' \<Longrightarrow> spawning os r0 as (\<lambda>a. Suc m) r'" for r' by (simp add: spawning_def)
  ultimately show ?thesis by blast
qed

lemma spawn_loop_calm:
  assumes "calm os status" and "g_keep_stressing_flag r0" and "distinct as" and "chain (p_heap (r_procs r0)) procs_list as"
    and "spawning os r0 as (\<lambda>a. m) r"
  shows "\<exists>r'. spawn_loop os opt_timeout procs_list n r = Some (r', None) \<and> spawning os r0 as (\<lambda>a. m + n) r'"
  using assms(5)
proof (induction n arbitrary: m r)
  case (Suc n)
  obtain r1 where r1: "each_proc (start_one os opt_timeout) procs_list r = Some (r1, None)" "spawning os r0 as (\<lambda>a. Suc m) r1"
    using spawn_pass [OF assms(1-4) Suc.prems] by blast
  then show ?case using Suc.IH [OF r1(2)] by simp
qed simp

section \<open>Waiting\<close>

text \<open>A process that ended by itself and without an error of its own.\<close>

definition good_exit :: "u32 \<Rightarrow> bool" where
  "good_exit s \<longleftrightarrow> \<not> WIFSIGNALED s \<and> WEXITSTATUS s \<in> {EXIT_SUCCESS, EXIT_NO_RESOURCE, EXIT_NOT_IMPLEMENTED}"

lemma killable_procs: "r_procs r' = r_procs r \<Longrightarrow> killable bs r' = killable bs r"
  by (simp add: killable_def get_proc_def)

lemma killable_mono:
  assumes "killable bs r" and "same_links r r'"
    and "\<And>b p. get_proc b r = Some p \<Longrightarrow> \<exists>p'. get_proc b r' = Some p' \<and> started_procs p' = started_procs p \<and> length (pids p') = length (pids p)"
  shows "killable bs r'"
  unfolding killable_def
proof (intro conjI ballI)
  show "chain (p_heap (r_procs r')) (procs_head (r_procs r')) bs"
    using assms(1,2) chain_links by (auto simp: killable_def same_links_def)
  show "\<exists>p. get_proc b r' = Some p \<and> nat (started_procs p) \<le> length (pids p)" if "b \<in> set bs" for b
    using assms(1,3) that unfolding killable_def by metis
qed

lemma reap_calm:
  assumes "killable bs r"
  shows "\<exists>r'. reap flags s r = Some r' \<and> r_procs r' = r_procs r \<and> r_tick r' = r_tick r \<and> logged r [] [] r'
    \<and> success r' = (success r \<and> good_exit s) \<and> resource_success r' = (resource_success r \<and> WEXITSTATUS s \<noteq> EXIT_NO_RESOURCE)
    \<and> (flags AND OPT_FLAGS_ABORT = 0 \<longrightarrow> g_keep_stressing_flag r' = g_keep_stressing_flag r)"
proof -
  let ?e = "WEXITSTATUS s"
  define r1 where "r1 = r\<lparr>success := (success r \<and> good_exit s), resource_success := (resource_success r \<and> ?e \<noteq> EXIT_NO_RESOURCE)\<rparr>"
  have "reap flags s r = (if flags AND OPT_FLAGS_ABORT \<noteq> 0 \<and> ?e \<noteq> EXIT_SUCCESS
      then kill_procs SIGALRM (r1\<lparr>g_keep_stressing_flag := False, wait_flag := False\<rparr>) else Some r1)"
    by (cases "WIFSIGNALED s"; cases "?e = EXIT_SUCCESS"; cases "?e = EXIT_NO_RESOURCE"; cases "?e = EXIT_NOT_IMPLEMENTED")
      (simp_all add: reap_def r1_def good_exit_def EXIT_SUCCESS_def EXIT_NO_RESOURCE_def EXIT_NOT_IMPLEMENTED_def)
  moreover have "killable bs (r1\<lparr>g_keep_stressing_flag := False, wait_flag := False\<rparr>)"
    using assms by (subst killable_procs [of _ r]) (simp_all add: r1_def)
  note kill_procs_calls [OF this, of SIGALRM]
  ultimately show ?thesis by (simp add: r1_def logged_def)
qed

lemma wait_one_calm:
  assumes calm: "calm os status" and r: "killable bs r" "get_proc a r = Some p" and j: "j < length (pids p)" "pids p ! j \<in> forked os"
  shows "\<exists>r'. wait_one os flags a j r = Some r' \<and> same_links r r' \<and> killable bs r' \<and> get_proc a r' = Some (p\<lparr>pids := (pids p)[j := 0]\<rparr>)
    \<and> (\<forall>b. b \<noteq> a \<longrightarrow> get_proc b r' = get_proc b r) \<and> success r' = (success r \<and> good_exit (status (pids p ! j)))
    \<and> resource_success r' = (resource_success r \<and> WEXITSTATUS (status (pids p ! j)) \<noteq> EXIT_NO_RESOURCE)
    \<and> logged r [] [(pids p ! j, status (pids p ! j))] r'
    \<and> (flags AND OPT_FLAGS_ABORT = 0 \<longrightarrow> g_keep_stressing_flag r' = g_keep_stressing_flag r)"
proof -
  let ?pid = "pids p ! j" and ?s = "status (pids p ! j)"
  have pid: "?pid \<noteq> 0" "\<And>t. os_wait os t ?pid \<in> {Wait_intr, Wait_status ?s}"
    using calm j(2) unfolding calm_def by (auto dest!: bspec)
  have hit: "\<exists>r'. wait_one os flags a j r = Some r' \<and> same_links r r' \<and> killable bs r' \<and> get_proc a r' = Some (p\<lparr>pids := (pids p)[j := 0]\<rparr>)
      \<and> (\<forall>b. b \<noteq> a \<longrightarrow> get_proc b r' = get_proc b r) \<and> success r' = (success r \<and> good_exit ?s)
      \<and> resource_success r' = (resource_success r \<and> WEXITSTATUS ?s \<noteq> EXIT_NO_RESOURCE)
      \<and> logged r [] [(?pid, ?s)] r'
      \<and> (flags AND OPT_FLAGS_ABORT = 0 \<longrightarrow> g_keep_stressing_flag r' = g_keep_stressing_flag r)"
    if hit: "os_wait os (r_tick r) ?pid \<noteq> Wait_intr" and kr: "killable bs r" and ar: "get_proc a r = Some p" for r
  proof -
    let ?r = "note_call (Waited ?pid ?s) (r\<lparr>r_tick := r_tick r + 1\<rparr>)"
    have w: "os_wait os (r_tick r) ?pid = Wait_status ?s" using hit pid(2) [of "r_tick r"] by auto
    have "killable bs ?r" using kr by (subst killable_procs [of _ r]) simp_all
    then obtain r1 where r1: "reap flags ?s ?r = Some r1" "r_procs r1 = r_procs r" "r_tick r1 = r_tick ?r"
      "success r1 = (success r \<and> good_exit ?s)" "resource_success r1 = (resource_success r \<and> WEXITSTATUS ?s \<noteq> EXIT_NO_RESOURCE)"
      "flags AND OPT_FLAGS_ABORT = 0 \<longrightarrow> g_keep_stressing_flag r1 = g_keep_stressing_flag r" "logged ?r [] [] r1"
      using reap_calm [of bs ?r flags ?s] by auto
    have g: "get_proc b r1 = get_proc b r" for b using r1(2) by (simp add: get_proc_def)
    obtain r' where r': "set_proc a (\<lambda>p. p\<lparr>pids := (pids p)[j := 0]\<rparr>) r1 = Some r'" "same_links r1 r'"
      "get_proc a r' = Some (p\<lparr>pids := (pids p)[j := 0]\<rparr>)" "\<And>b. b \<noteq> a \<Longrightarrow> get_proc b r' = get_proc b r1" "r' = r1\<lparr>r_procs := r_procs r'\<rparr>"
      using set_proc_some [of a r1 p "\<lambda>p. p\<lparr>pids := (pids p)[j := 0]\<rparr>"] ar g by auto
    have "wait_one os flags a j r = Some r'"
      using ar j(1) pid(1) calm w r1(1) r'(1) by (subst wait_one.simps) (simp add: proc_finished_def)
    moreover have l: "same_links r r'" using r'(2) r1(2) by (simp add: same_links_def)
    moreover have "killable bs r'"
    proof (rule killable_mono [OF kr l])
      show "\<exists>q'. get_proc b r' = Some q' \<and> started_procs q' = started_procs q \<and> length (pids q') = length (pids q)"
        if "get_proc b r = Some q" for b q
        using that ar r'(3,4) g by (cases "b = a") auto
    qed
    moreover have "success r' = success r1" "resource_success r' = resource_success r1" "g_keep_stressing_flag r' = g_keep_stressing_flag r1"
      "calls r' = calls r1"
      by (subst r'(5), simp)+
    moreover have "logged r [] [(?pid, ?s)] r'" using r1(7) \<open>calls r' = calls r1\<close> by (simp add: logged_def)
    ultimately show ?thesis using r'(3,4) r1(4-6) g by auto
  qed
  obtain k where "os_wait os (r_tick r + k) ?pid \<noteq> Wait_intr" using calm j(2) unfolding calm_def by blast
  then show ?thesis using r
  proof (induction k arbitrary: r)
    case 0
    then show ?case using hit [of r] by simp
  next
    case (Suc k)
    let ?r = "r\<lparr>r_tick := r_tick r + 1\<rparr>"
    show ?case
    proof (cases "os_wait os (r_tick r) ?pid = Wait_intr")
      case True
      have e: "wait_one os flags a j r = wait_one os flags a j ?r"
        using Suc.prems(3) j(1) pid(1) calm True by (subst wait_one.simps) simp
      have "killable bs ?r" using Suc.prems(2) by (subst killable_procs [of _ r]) simp_all
      then show ?thesis unfolding e using Suc.IH [of ?r] Suc.prems by (simp add: same_links_def logged_def)
    qed (rule hit [OF _ Suc.prems(2,3)])
  qed
qed

lemma wait_slots_calm:
  assumes calm: "calm os status" and "killable bs r" and "get_proc a r = Some p"
    and "distinct js" and "\<And>j. j \<in> set js \<Longrightarrow> j < length (pids p) \<and> pids p ! j \<in> forked os"
  shows "\<exists>r'. wait_slots os flags a js r = Some r' \<and> same_links r r' \<and> killable bs r'
    \<and> get_proc a r' = Some (p\<lparr>pids := fold (\<lambda>j ps. ps[j := 0]) js (pids p)\<rparr>)
    \<and> (\<forall>b. b \<noteq> a \<longrightarrow> get_proc b r' = get_proc b r) \<and> success r' = (success r \<and> (\<forall>j \<in> set js. good_exit (status (pids p ! j))))
    \<and> resource_success r' = (resource_success r \<and> (\<forall>j \<in> set js. WEXITSTATUS (status (pids p ! j)) \<noteq> EXIT_NO_RESOURCE))
    \<and> logged r [] (map (\<lambda>j. (pids p ! j, status (pids p ! j))) js) r'
    \<and> (flags AND OPT_FLAGS_ABORT = 0 \<longrightarrow> g_keep_stressing_flag r' = g_keep_stressing_flag r)"
  using assms(2-)
proof (induction js arbitrary: r p)
  case (Cons j js)
  let ?p = "p\<lparr>pids := (pids p)[j := 0]\<rparr>"
  obtain r1 where r1: "wait_one os flags a j r = Some r1" "same_links r r1" "killable bs r1" "get_proc a r1 = Some ?p"
    "\<forall>b. b \<noteq> a \<longrightarrow> get_proc b r1 = get_proc b r" "success r1 = (success r \<and> good_exit (status (pids p ! j)))"
    "resource_success r1 = (resource_success r \<and> WEXITSTATUS (status (pids p ! j)) \<noteq> EXIT_NO_RESOURCE)"
    "flags AND OPT_FLAGS_ABORT = 0 \<longrightarrow> g_keep_stressing_flag r1 = g_keep_stressing_flag r"
    "logged r [] [(pids p ! j, status (pids p ! j))] r1"
    using wait_one_calm [OF calm Cons.prems(1,2), of j flags] Cons.prems(4) [of j] by auto
  have n: "pids ?p ! i = pids p ! i" if "i \<in> set js" for i using that Cons.prems(3) by (cases "i = j") simp_all
  obtain r' where r': "wait_slots os flags a js r1 = Some r'" "same_links r1 r'" "killable bs r'"
    "get_proc a r' = Some (?p\<lparr>pids := fold (\<lambda>j ps. ps[j := 0]) js (pids ?p)\<rparr>)"
    "\<forall>b. b \<noteq> a \<longrightarrow> get_proc b r' = get_proc b r1" "success r' = (success r1 \<and> (\<forall>j \<in> set js. good_exit (status (pids ?p ! j))))"
    "resource_success r' = (resource_success r1 \<and> (\<forall>j \<in> set js. WEXITSTATUS (status (pids ?p ! j)) \<noteq> EXIT_NO_RESOURCE))"
    "flags AND OPT_FLAGS_ABORT = 0 \<longrightarrow> g_keep_stressing_flag r' = g_keep_stressing_flag r1"
    "logged r1 [] (map (\<lambda>j. (pids ?p ! j, status (pids ?p ! j))) js) r'"
    using Cons.IH [OF r1(3,4)] Cons.prems(3,4) n by auto
  show ?case
  proof (intro exI conjI)
    show "wait_slots os flags a (j # js) r = Some r'" using r1(1) r'(1) by simp
    show "same_links r r'" using r1(2) r'(2) same_links_trans by blast
    show "success r' = (success r \<and> (\<forall>j \<in> set (j # js). good_exit (status (pids p ! j))))"
      unfolding r'(6) r1(6) using n by simp
    show "resource_success r' = (resource_success r \<and> (\<forall>j \<in> set (j # js). WEXITSTATUS (status (pids p ! j)) \<noteq> EXIT_NO_RESOURCE))"
      unfolding r'(7) r1(7) using n by simp
    have "map (\<lambda>j. (pids ?p ! j, status (pids ?p ! j))) js = map (\<lambda>j. (pids p ! j, status (pids p ! j))) js"
      using n by (intro map_cong) auto
    then show "logged r [] (map (\<lambda>j. (pids p ! j, status (pids p ! j))) (j # js)) r'"
      using r1(9) r'(9) by (simp add: logged_def)
  qed (use r' r1 in auto)
qed (simp add: logged_def)

lemma fold_zeros: "fold (\<lambda>j ps. ps[j := 0]) [0..<length ps] ps = replicate (length ps) (0 :: int)"
proof -
  have l: "length (fold (\<lambda>j ps. ps[j := 0]) js ps) = length ps" for js and ps :: "int list" by (induction js arbitrary: ps) auto
  have "fold (\<lambda>j ps. ps[j := 0]) js ps ! i = (if i \<in> set js then 0 else ps ! i)" if "i < length ps" for js i and ps :: "int list"
    using that by (induction js arbitrary: ps) auto
  then show ?thesis by (intro nth_equalityI) (simp_all add: l)
qed

lemma wait_loop_calm:
  assumes calm: "calm os status" and k: "killable bs r" and "distinct as" and c: "chain (p_heap (r_procs r)) procs_list as"
    and all: "\<And>a. a \<in> set as \<Longrightarrow> \<exists>p. get_proc a r = Some p \<and> nat (started_procs p) = length (pids p) \<and> set (pids p) \<subseteq> forked os"
  defines "q \<equiv> \<lambda>a. the (get_proc a r)"
  shows "\<exists>r'. each_proc (wait_node os flags) procs_list r = Some (r', None) \<and> same_links r r' \<and> killable bs r'
    \<and> (\<forall>a \<in> set as. get_proc a r' = Some ((q a)\<lparr>pids := replicate (length (pids (q a))) 0\<rparr>))
    \<and> (\<forall>b. b \<notin> set as \<longrightarrow> get_proc b r' = get_proc b r)
    \<and> success r' = (success r \<and> (\<forall>a \<in> set as. \<forall>pid \<in> set (pids (q a)). good_exit (status pid)))
    \<and> resource_success r' = (resource_success r \<and> (\<forall>a \<in> set as. \<forall>pid \<in> set (pids (q a)). WEXITSTATUS (status pid) \<noteq> EXIT_NO_RESOURCE))
    \<and> logged r [] (concat (map (\<lambda>a. map (\<lambda>pid. (pid, status pid)) (pids (q a))) as)) r'
    \<and> (flags AND OPT_FLAGS_ABORT = 0 \<longrightarrow> g_keep_stressing_flag r' = g_keep_stressing_flag r)"
proof -
  let ?I = "\<lambda>xs r'. killable bs r'
    \<and> (\<forall>a \<in> set xs. get_proc a r' = Some ((q a)\<lparr>pids := replicate (length (pids (q a))) 0\<rparr>))
    \<and> (\<forall>b. b \<notin> set xs \<longrightarrow> get_proc b r' = get_proc b r)
    \<and> success r' = (success r \<and> (\<forall>a \<in> set xs. \<forall>pid \<in> set (pids (q a)). good_exit (status pid)))
    \<and> resource_success r' = (resource_success r \<and> (\<forall>a \<in> set xs. \<forall>pid \<in> set (pids (q a)). WEXITSTATUS (status pid) \<noteq> EXIT_NO_RESOURCE))
    \<and> logged r [] (concat (map (\<lambda>a. map (\<lambda>pid. (pid, status pid)) (pids (q a))) xs)) r'
    \<and> (flags AND OPT_FLAGS_ABORT = 0 \<longrightarrow> g_keep_stressing_flag r' = g_keep_stressing_flag r)"
  have "\<exists>r'. each_proc (wait_node os flags) procs_list r = Some (r', None) \<and> ?I as r' \<and> same_links r r'"
  proof (rule each_proc_rule [where I = ?I, OF c])
    fix xs a ys r1
    assume as: "as = xs @ a # ys" and I: "?I xs r1"
    have a: "a \<notin> set xs" "a \<in> set as" using as \<open>distinct as\<close> by auto
    then obtain p where p: "get_proc a r1 = Some p" "q a = p" "nat (started_procs p) = length (pids p)" "set (pids p) \<subseteq> forked os"
      using I all [of a] by (auto simp: q_def)
    have ids: "(\<forall>j \<in> set [0..<length (pids p)]. P (pids p ! j)) = (\<forall>pid \<in> set (pids p). P pid)" for P
      by (auto simp: all_set_conv_all_nth)
    have ends: "map (\<lambda>j. (pids p ! j, status (pids p ! j))) [0..<length (pids p)] = map (\<lambda>pid. (pid, status pid)) (pids p)"
      by (rule nth_equalityI) simp_all
    have slots: "j < length (pids p) \<and> pids p ! j \<in> forked os" if "j \<in> set [0..<length (pids p)]" for j
      using p(4) that nth_mem [of j "pids p"] by auto
    obtain r2 where r2: "wait_slots os flags a [0..<length (pids p)] r1 = Some r2" "same_links r1 r2" "killable bs r2"
      "get_proc a r2 = Some (p\<lparr>pids := replicate (length (pids p)) 0\<rparr>)" "\<forall>b. b \<noteq> a \<longrightarrow> get_proc b r2 = get_proc b r1"
      "success r2 = (success r1 \<and> (\<forall>pid \<in> set (pids p). good_exit (status pid)))"
      "resource_success r2 = (resource_success r1 \<and> (\<forall>pid \<in> set (pids p). WEXITSTATUS (status pid) \<noteq> EXIT_NO_RESOURCE))"
      "flags AND OPT_FLAGS_ABORT = 0 \<longrightarrow> g_keep_stressing_flag r2 = g_keep_stressing_flag r1"
      "logged r1 [] (map (\<lambda>pid. (pid, status pid)) (pids p)) r2"
      using wait_slots_calm [OF calm conjunct1 [OF I] p(1), of "[0..<length (pids p)]" flags, OF distinct_upt slots,
        unfolded fold_zeros ends ids [of "\<lambda>pid. good_exit (status pid)"] ids [of "\<lambda>pid. WEXITSTATUS (status pid) \<noteq> EXIT_NO_RESOURCE"]] by blast
    show "\<exists>r'. wait_node os flags a r1 = Some (r', None) \<and> ?I (xs @ [a]) r' \<and> same_links r1 r'"
    proof (intro exI conjI)
      show "wait_node os flags a r1 = Some (r2, None)" using p r2(1) by (simp add: wait_node_def)
      show "\<forall>b \<in> set (xs @ [a]). get_proc b r2 = Some ((q b)\<lparr>pids := replicate (length (pids (q b))) 0\<rparr>)"
        using I a(1) r2(4,5) p(2) by auto
      show "success r2 = (success r \<and> (\<forall>a \<in> set (xs @ [a]). \<forall>pid \<in> set (pids (q a)). good_exit (status pid)))"
        unfolding r2(6) using I p(2) by auto
      show "resource_success r2 = (resource_success r \<and> (\<forall>a \<in> set (xs @ [a]). \<forall>pid \<in> set (pids (q a)). WEXITSTATUS (status pid) \<noteq> EXIT_NO_RESOURCE))"
        unfolding r2(7) using I p(2) by auto
      show "\<forall>b. b \<notin> set (xs @ [a]) \<longrightarrow> get_proc b r2 = get_proc b r" using I r2(5) by simp
      show "logged r [] (concat (map (\<lambda>a. map (\<lambda>pid. (pid, status pid)) (pids (q a))) (xs @ [a]))) r2"
        using I r2(9) p(2) by (simp add: logged_def)
      show "flags AND OPT_FLAGS_ABORT = 0 \<longrightarrow> g_keep_stressing_flag r2 = g_keep_stressing_flag r" using I r2(8) by simp
    qed (rule r2)+
  qed (use k in \<open>simp add: logged_def\<close>)
  then show ?thesis by blast
qed

lemma set_handler_fields:
  "r_procs (snd (stress_set_handler os c r)) = r_procs r" "success (snd (stress_set_handler os c r)) = success r"
  "resource_success (snd (stress_set_handler os c r)) = resource_success r"
  "g_keep_stressing_flag (snd (stress_set_handler os c r)) = g_keep_stressing_flag r"
  "calls (snd (stress_set_handler os c r)) = calls r"
  by (simp_all add: stress_set_handler_def stress_sighandler_def Let_def)

lemma total_chain:
  assumes "chain (p_heap st) p as" and "\<And>a. a \<in> set as \<Longrightarrow> 0 \<le> num_procs (pi_proc (the (p_heap st a)))"
    and "(\<Sum>a \<leftarrow> as. num_procs (pi_proc (the (p_heap st a)))) < 2 ^ 31"
  shows "\<exists>n. get_total_num_procs p st = Some (Inr (n, st)) \<and> sint n = (\<Sum>a \<leftarrow> as. num_procs (pi_proc (the (p_heap st a))))"
proof -
  let ?n = "\<lambda>a. num_procs (pi_proc (the (p_heap st a)))"
  have "fold (\<lambda>a s. s + word_of_int (?n a)) as s = (s + word_of_int (\<Sum>a \<leftarrow> as. ?n a) :: u32)" for s
    by (induction as arbitrary: s) (simp_all add: add.assoc)
  moreover have "0 \<le> (\<Sum>a \<leftarrow> as. ?n a)" using assms(2) by (intro sum_list_nonneg) auto
  then have "sint (word_of_int (\<Sum>a \<leftarrow> as. ?n a) :: u32) = (\<Sum>a \<leftarrow> as. ?n a)"
    using assms(3) by (simp add: sint_sbintrunc' signed_take_bit_int_eq_self)
  moreover note for_procs_const [OF assms(1), where g = "\<lambda>q s. s + word_of_int (num_procs q)" and s = "0 :: u32"]
  ultimately show ?thesis by (simp add: get_total_num_procs_def)
qed

lemma spawn_phase:
  assumes calm: "calm os status" and keep: "g_keep_stressing_flag r"
    and as: "chain (p_heap (r_procs r)) procs_list as" "distinct as" and bs: "killable bs r"
    and fresh: "\<And>a. a \<in> set as \<Longrightarrow> fresh (the (get_proc a r))"
    and small: "(\<Sum>a \<leftarrow> as. num_procs (the (get_proc a r))) < 2 ^ 31"
  shows "\<exists>n r'. get_total_num_procs procs_list (r_procs r) = Some (Inr (n, r_procs r))
    \<and> spawn_loop os opt_timeout procs_list (nat (sint n)) (r\<lparr>wait_flag := True\<rparr>) = Some (r', None)
    \<and> same_verdict r r' \<and> same_links r r' \<and> killable bs r' \<and> logged r (concat (map (\<lambda>a. launched (the (get_proc a r'))) as)) [] r'
    \<and> (\<forall>b. b \<notin> set as \<longrightarrow> get_proc b r' = get_proc b r)
    \<and> (\<forall>a \<in> set as. \<exists>p. get_proc a r' = Some p
        \<and> started_to (forked os) (the (get_proc a r)) (nat (num_procs (the (get_proc a r)))) p)"
proof -
  let ?p = "\<lambda>a. the (get_proc a r)" and ?r = "r\<lparr>wait_flag := True\<rparr>"
  have get: "get_proc a r = Some (?p a)" if "a \<in> set as" for a using chain_get [OF as(1) that] by auto
  have node: "pi_proc (the (p_heap (r_procs r) a)) = ?p a" if "a \<in> set as" for a
    using get [OF that] by (auto simp: get_proc_def)
  have nn: "0 \<le> num_procs (?p a)" if "a \<in> set as" for a using fresh [OF that] by (simp add: fresh_def)
  have sums: "(\<Sum>a \<leftarrow> as. num_procs (pi_proc (the (p_heap (r_procs r) a)))) = (\<Sum>a \<leftarrow> as. num_procs (?p a))"
    using node by (simp cong: map_cong)
  obtain n where n: "get_total_num_procs procs_list (r_procs r) = Some (Inr (n, r_procs r))" "sint n = (\<Sum>a \<leftarrow> as. num_procs (?p a))"
    using total_chain [OF as(1)] node nn small unfolding sums by auto
  have le: "nat (num_procs (?p a)) \<le> nat (sint n)" if "a \<in> set as" for a
  proof -
    have "num_procs (?p a) \<le> (\<Sum>a \<leftarrow> as. num_procs (?p a))"
      using that nn by (intro member_le_sum_list) auto
    then show ?thesis unfolding n(2) by simp
  qed
  have sp: "spawning os ?r as (\<lambda>a. 0) ?r"
    unfolding spawning_def
  proof (intro conjI ballI)
    show "\<exists>p0 p. get_proc a ?r = Some p0 \<and> get_proc a ?r = Some p \<and> fresh p0
        \<and> started_to (forked os) p0 (min 0 (nat (num_procs p0))) p" if "a \<in> set as" for a
      using get [OF that] fresh [OF that] started_to_0 by (intro exI [of _ "?p a"]) simp
    have "launched (?p a) = []" if "a \<in> set as" for a using fresh [OF that] by (simp add: launched_def fresh_def)
    then show "logged ?r (concat (map (\<lambda>a. launched (the (get_proc a ?r))) as)) [] ?r" by (simp add: logged_def)
  qed (simp_all add: same_verdict_def)
  have keep': "g_keep_stressing_flag ?r" and as': "chain (p_heap (r_procs ?r)) procs_list as" using keep as(1) by simp_all
  obtain r1 where r1: "spawn_loop os opt_timeout procs_list (nat (sint n)) ?r = Some (r1, None)" "spawning os ?r as (\<lambda>a. nat (sint n)) r1"
    using spawn_loop_calm [OF calm keep' as(2) as' sp, of opt_timeout "nat (sint n)"] by auto
  have p1: "\<exists>p. get_proc a r1 = Some p \<and> started_to (forked os) (?p a) (nat (num_procs (?p a))) p" if "a \<in> set as" for a
    using r1(2) that get [OF that] le [OF that] by (auto simp: spawning_def min_absorb2)
  have out: "get_proc b r1 = get_proc b r" if "b \<notin> set as" for b using r1(2) that by (simp add: spawning_def)
  have l: "same_links r r1" "same_verdict r r1" using r1(2) by (simp_all add: spawning_def same_links_def same_verdict_def)
  have log: "logged r (concat (map (\<lambda>a. launched (the (get_proc a r1))) as)) [] r1" using r1(2) by (simp add: spawning_def logged_def)
  have "killable bs r1"
    unfolding killable_def
  proof (intro conjI ballI)
    show "chain (p_heap (r_procs r1)) (procs_head (r_procs r1)) bs"
      using bs l(1) chain_links [OF l(1)] by (auto simp: killable_def same_links_def)
    show "\<exists>p. get_proc b r1 = Some p \<and> nat (started_procs p) \<le> length (pids p)" if "b \<in> set bs" for b
    proof (cases "b \<in> set as")
      case True
      then obtain p where "get_proc b r1 = Some p" "started_to (forked os) (?p b) (nat (num_procs (?p b))) p" using p1 by blast
      then show ?thesis by (simp add: started_to_def)
    next
      case False
      then show ?thesis using bs that out by (simp add: killable_def)
    qed
  qed
  then show ?thesis using n(1) r1(1) p1 out l log by blast
qed

text \<open>
  The stressors \<open>as\<close> have started all their processes, with the numbers \<open>ids\<close>, and have none left: just these are in the log
  as started, and just these as ended.  The other stressors are as they were, and the verdict is that of the statuses.
\<close>

definition completed :: "os \<Rightarrow> (int \<Rightarrow> u32) \<Rightarrow> nat list \<Rightarrow> run \<Rightarrow> run \<Rightarrow> (nat \<Rightarrow> int list) \<Rightarrow> bool" where
  "completed os status as r r' ids \<longleftrightarrow> same_links r r'
    \<and> logged r (concat (map ids as)) (map (\<lambda>pid. (pid, status pid)) (concat (map ids as))) r'
    \<and> (\<forall>b. b \<notin> set as \<longrightarrow> get_proc b r' = get_proc b r)
    \<and> (\<forall>a \<in> set as. let p = the (get_proc a r); n = nat (num_procs p) in
         get_proc a r' = Some (p\<lparr>started_procs := num_procs p, pids := replicate n 0\<rparr>)
         \<and> length (ids a) = n \<and> set (ids a) \<subseteq> forked os)
    \<and> success r' = (success r \<and> (\<forall>a \<in> set as. \<forall>pid \<in> set (ids a). good_exit (status pid)))
    \<and> resource_success r' = (resource_success r \<and> (\<forall>a \<in> set as. \<forall>pid \<in> set (ids a). WEXITSTATUS (status pid) \<noteq> EXIT_NO_RESOURCE))"

lemma stress_run_calm:
  assumes calm: "calm os status" and keep: "g_keep_stressing_flag r" and flags: "flags AND OPT_FLAGS_AGGRESSIVE = 0"
    and as: "chain (p_heap (r_procs r)) procs_list as" "distinct as" and bs: "killable bs r"
    and fresh: "\<And>a. a \<in> set as \<Longrightarrow> fresh (the (get_proc a r))"
    and small: "(\<Sum>a \<leftarrow> as. num_procs (the (get_proc a r))) < 2 ^ 31"
  shows "\<exists>r' ids. stress_run os flags opt_timeout procs_list r = Some r' \<and> completed os status as r r' ids \<and> killable bs r'
    \<and> (flags AND OPT_FLAGS_ABORT = 0 \<longrightarrow> g_keep_stressing_flag r' = g_keep_stressing_flag r)"
proof -
  let ?p = "\<lambda>a. the (get_proc a r)"
  have nn: "0 \<le> num_procs (?p a)" if "a \<in> set as" for a using fresh [OF that] by (simp add: fresh_def)
  obtain n r1 where n: "get_total_num_procs procs_list (r_procs r) = Some (Inr (n, r_procs r))"
    and r1: "spawn_loop os opt_timeout procs_list (nat (sint n)) (r\<lparr>wait_flag := True\<rparr>) = Some (r1, None)"
    "same_verdict r r1" "same_links r r1" "killable bs r1" "\<forall>b. b \<notin> set as \<longrightarrow> get_proc b r1 = get_proc b r"
    "\<forall>a \<in> set as. \<exists>p. get_proc a r1 = Some p \<and> started_to (forked os) (?p a) (nat (num_procs (?p a))) p"
    "logged r (concat (map (\<lambda>a. launched (the (get_proc a r1))) as)) [] r1"
    using spawn_phase [OF calm keep as bs fresh small, of opt_timeout] by blast
  define r2 where "r2 = (let r = snd (stress_set_handler os False r1) in if opt_timeout \<noteq> 0 then note_call (Alarm opt_timeout) r else r)"
  define r3 where "r3 = (if flags AND OPT_FLAGS_IGNITE_CPU \<noteq> 0 then note_call Ignite_start r2 else r2)"
  have f3: "r_procs r3 = r_procs r1" "success r3 = success r" "resource_success r3 = resource_success r" "g_keep_stressing_flag r3 = g_keep_stressing_flag r"
    using r1(2) by (simp_all add: r3_def r2_def Let_def note_call_def set_handler_fields same_verdict_def)
  have g3: "get_proc b r3 = get_proc b r1" for b using f3(1) by (simp add: get_proc_def)
  have l3: "same_links r r3" using r1(3) f3(1) by (simp add: same_links_def)
  have k3: "killable bs r3" using r1(4) by (subst killable_procs [OF f3(1)])
  have all: "\<exists>p. get_proc a r3 = Some p \<and> nat (started_procs p) = length (pids p) \<and> set (pids p) \<subseteq> forked os" if "a \<in> set as" for a
    using r1(6) nn [OF that] that unfolding g3 by (fastforce simp: started_to_def in_set_conv_nth)
  obtain r4 where r4: "each_proc (wait_node os flags) procs_list r3 = Some (r4, None)" "same_links r3 r4" "killable bs r4"
    "\<forall>a \<in> set as. get_proc a r4 = Some ((the (get_proc a r3))\<lparr>pids := replicate (length (pids (the (get_proc a r3)))) 0\<rparr>)"
    "\<forall>b. b \<notin> set as \<longrightarrow> get_proc b r4 = get_proc b r3"
    "success r4 = (success r3 \<and> (\<forall>a \<in> set as. \<forall>pid \<in> set (pids (the (get_proc a r3))). good_exit (status pid)))"
    "resource_success r4 = (resource_success r3 \<and> (\<forall>a \<in> set as. \<forall>pid \<in> set (pids (the (get_proc a r3))). WEXITSTATUS (status pid) \<noteq> EXIT_NO_RESOURCE))"
    "flags AND OPT_FLAGS_ABORT = 0 \<longrightarrow> g_keep_stressing_flag r4 = g_keep_stressing_flag r3"
    "logged r3 [] (concat (map (\<lambda>a. map (\<lambda>pid. (pid, status pid)) (pids (the (get_proc a r3)))) as)) r4"
    using wait_loop_calm [OF calm k3 as(2) chain_links [OF l3 as(1)] all] by blast
  define r5 where "r5 = (if flags AND OPT_FLAGS_IGNITE_CPU \<noteq> 0 then note_call Ignite_stop r4 else r4)"
  have f5: "r_procs r5 = r_procs r4" "success r5 = success r4" "resource_success r5 = resource_success r4" "g_keep_stressing_flag r5 = g_keep_stressing_flag r4"
    by (simp_all add: r5_def note_call_def)
  have g5: "get_proc b r5 = get_proc b r4" for b using f5(1) by (simp add: get_proc_def)
  have run: "stress_run os flags opt_timeout procs_list r = Some r5"
    using n r1(1) r4(1) flags
    by (cases "flags AND OPT_FLAGS_IGNITE_CPU = 0")
      (simp_all add: stress_run_def wait_procs_def Let_def r2_def [unfolded Let_def, symmetric] r3_def r5_def)
  have fin: "let p = ?p a; n = nat (num_procs p) in get_proc a r5 = Some (p\<lparr>started_procs := num_procs p, pids := replicate n 0\<rparr>)
      \<and> length (pids (the (get_proc a r3))) = n \<and> set (pids (the (get_proc a r3))) \<subseteq> forked os" if ain: "a \<in> set as" for a
  proof -
    obtain p where p: "get_proc a r3 = Some p" "started_to (forked os) (?p a) (nat (num_procs (?p a))) p"
      unfolding g3 using bspec [OF r1(6) ain] by blast
    have "set (pids p) \<subseteq> forked os" using all [OF ain] p(1) by auto
    moreover have "p\<lparr>pids := replicate (length (pids p)) 0\<rparr> = (?p a)\<lparr>started_procs := num_procs (?p a), pids := replicate (nat (num_procs (?p a))) 0\<rparr>"
      using p(2) nn [OF ain] by (intro proc.equality) (simp_all add: started_to_def)
    moreover have "get_proc a r5 = Some (p\<lparr>pids := replicate (length (pids p)) 0\<rparr>)" using r4(4) ain p(1) by (simp add: g5)
    moreover have "length (pids p) = nat (num_procs (?p a))" using p(2) by (simp add: started_to_def)
    ultimately show ?thesis unfolding Let_def p(1) option.sel by simp
  qed
  have "launched (the (get_proc a r1)) = pids (the (get_proc a r3))" if "a \<in> set as" for a
    using all [OF that] unfolding g3 by (auto simp: launched_def)
  then have ids: "map (\<lambda>a. launched (the (get_proc a r1))) as = map (\<lambda>a. pids (the (get_proc a r3))) as" by simp
  have "logged r1 [] [] r3" "logged r4 [] [] r5"
    by (simp_all add: logged_def r3_def r2_def r5_def Let_def set_handler_fields)
  then have log: "logged r (concat (map (\<lambda>a. pids (the (get_proc a r3))) as))
      (map (\<lambda>pid. (pid, status pid)) (concat (map (\<lambda>a. pids (the (get_proc a r3))) as))) r5"
    using r1(7) [unfolded ids] r4(9) by (simp add: logged_def map_concat comp_def)
  have l5: "same_links r r5" using l3 r4(2) f5(1) by (simp add: same_links_def)
  show ?thesis
    using run fin l5 log killable_procs [OF f5(1), of bs] r4(3,5,6,7,8) r1(5) unfolding f3
    by (intro exI [of _ r5] exI [of _ "\<lambda>a. pids (the (get_proc a r3))"]) (simp add: completed_def f5 g5 g3)
qed

lemma chain_split:
  "chain h p (xs @ a # zs) \<Longrightarrow> h a = Some n \<Longrightarrow> chain h (Some a) (a # zs) \<and> chain h (pi_next n) zs"
  by (induction xs arbitrary: p) auto

lemma chain_cut:
  "chain h p (xs @ a # zs) \<Longrightarrow> distinct (xs @ a # zs) \<Longrightarrow> h a = Some n \<Longrightarrow> chain (h(a \<mapsto> n\<lparr>pi_next := None\<rparr>)) p (xs @ [a])"
  by (induction xs arbitrary: p) auto

text \<open>One stressor of the sequential mode: the list ends at the stressor while it runs.\<close>

lemma sequential_step:
  assumes calm: "calm os status" and keep: "g_keep_stressing_flag r" and flags: "flags AND OPT_FLAGS_AGGRESSIVE = 0" "flags AND OPT_FLAGS_ABORT = 0"
    and k: "killable (xs @ a # zs) r" and d: "distinct (xs @ a # zs)" and n: "p_heap (r_procs r) a = Some n"
    and p: "fresh (pi_proc n)" "num_procs (pi_proc n) < 2 ^ 31"
  obtains st r' st' ids where "set_node a (\<lambda>n. n\<lparr>pi_next := None\<rparr>) (r_procs r) = Some st"
    and "stress_run os flags opt_timeout (Some a) (r\<lparr>r_procs := st\<rparr>) = Some r'"
    and "set_node a (\<lambda>m. m\<lparr>pi_next := pi_next n\<rparr>) (r_procs r') = Some st'"
    and "completed os status [a] r (r'\<lparr>r_procs := st'\<rparr>) ids" and "killable (xs @ a # zs) (r'\<lparr>r_procs := st'\<rparr>)"
    and "g_keep_stressing_flag r'"
proof -
  let ?st = "(r_procs r)\<lparr>p_heap := (p_heap (r_procs r))(a \<mapsto> n\<lparr>pi_next := None\<rparr>)\<rparr>"
  let ?r = "r\<lparr>r_procs := ?st\<rparr>"
  have st: "set_node a (\<lambda>n. n\<lparr>pi_next := None\<rparr>) (r_procs r) = Some ?st" using n by (simp add: set_node_def)
  have g: "get_proc b ?r = get_proc b r" for b using n by (simp add: get_proc_def)
  have ga: "get_proc a ?r = Some (pi_proc n)" using n by (simp add: get_proc_def)
  have k1: "killable (xs @ [a]) ?r"
    using k chain_cut [of "p_heap (r_procs r)" _ xs a zs n, OF _ d n] unfolding killable_def g by simp
  have "g_keep_stressing_flag ?r" "chain (p_heap (r_procs ?r)) (Some a) [a]" "distinct [a]" using keep by simp_all
  then obtain r' ids where r': "stress_run os flags opt_timeout (Some a) ?r = Some r'" "completed os status [a] ?r r' ids"
    "killable (xs @ [a]) r'" "g_keep_stressing_flag r'"
    using stress_run_calm [OF calm _ flags(1) _ _ k1, of "Some a" "[a]" opt_timeout] ga p flags(2) by auto
  have links: "same_links ?r r'" using r'(2) by (simp add: completed_def)
  then have "map_option (\<lambda>n. (pi_next n, pi_prev n)) (p_heap (r_procs r') a) = Some (None, pi_prev n)"
    by (simp add: same_links_def)
  then obtain m where m: "p_heap (r_procs r') a = Some m" "pi_prev m = pi_prev n" by auto
  let ?st' = "(r_procs r')\<lparr>p_heap := (p_heap (r_procs r'))(a \<mapsto> m\<lparr>pi_next := pi_next n\<rparr>)\<rparr>"
  let ?r' = "r'\<lparr>r_procs := ?st'\<rparr>"
  have st': "set_node a (\<lambda>m. m\<lparr>pi_next := pi_next n\<rparr>) (r_procs r') = Some ?st'" using m(1) by (simp add: set_node_def)
  have g': "get_proc b ?r' = get_proc b r'" for b using m(1) by (simp add: get_proc_def)
  have l: "same_links r ?r'" using links n m by (simp add: same_links_def)
  have c: "completed os status [a] r ?r' ids" using r'(2) l by (simp add: completed_def g g' logged_def)
  have "killable (xs @ a # zs) ?r'" unfolding killable_def
  proof (intro conjI ballI)
    show "chain (p_heap (r_procs ?r')) (procs_head (r_procs ?r')) (xs @ a # zs)"
      using k chain_links [OF l] l by (auto simp: killable_def same_links_def)
    show "\<exists>p. get_proc b ?r' = Some p \<and> nat (started_procs p) \<le> length (pids p)" if b: "b \<in> set (xs @ a # zs)" for b
    proof (cases "b \<in> set (xs @ [a])")
      case True
      then show ?thesis using r'(3) unfolding killable_def g' by blast
    next
      case False
      then have e: "get_proc b ?r' = get_proc b r" using c by (simp add: completed_def)
      show ?thesis unfolding e using k b unfolding killable_def by blast
    qed
  qed
  then show thesis using that st r'(1) st' c r'(4) by blast
qed

lemma completed_trans:
  assumes "completed os status xs r r1 ids1" and "completed os status ys r1 r2 ids2" and "set xs \<inter> set ys = {}"
  shows "completed os status (xs @ ys) r r2 (\<lambda>a. if a \<in> set xs then ids1 a else ids2 a)"
proof -
  have y: "get_proc b r1 = get_proc b r" if "b \<in> set ys" for b using assms(1,3) that by (auto simp: completed_def)
  have x: "get_proc b r2 = get_proc b r1" if "b \<in> set xs" for b using assms(2,3) that by (auto simp: completed_def)
  have d: "b \<notin> set xs" if "b \<in> set ys" for b using assms(3) that by auto
  let ?ids = "\<lambda>a. if a \<in> set xs then ids1 a else ids2 a"
  have c: "(\<forall>a \<in> set (xs @ ys). \<forall>pid \<in> set (?ids a). P pid) = ((\<forall>a \<in> set xs. \<forall>pid \<in> set (ids1 a). P pid) \<and> (\<forall>a \<in> set ys. \<forall>pid \<in> set (ids2 a). P pid))" for P
    using d by auto
  show ?thesis unfolding completed_def
  proof (intro conjI allI impI ballI)
    show "same_links r r2" using assms(1,2) same_links_trans by (auto simp: completed_def)
    have m: "concat (map ?ids (xs @ ys)) = concat (map ids1 xs) @ concat (map ids2 ys)" using d by (simp cong: map_cong)
    show "logged r (concat (map ?ids (xs @ ys))) (map (\<lambda>pid. (pid, status pid)) (concat (map ?ids (xs @ ys)))) r2"
      unfolding m unfolding map_append using assms(1,2) by (intro logged_trans [of _ _ _ r1]) (simp_all add: completed_def)
    show "get_proc b r2 = get_proc b r" if "b \<notin> set (xs @ ys)" for b using assms(1,2) that by (simp add: completed_def)
    show "let p = the (get_proc a r); n = nat (num_procs p) in get_proc a r2 = Some (p\<lparr>started_procs := num_procs p, pids := replicate n 0\<rparr>)
        \<and> length (?ids a) = n \<and> set (?ids a) \<subseteq> forked os" if "a \<in> set (xs @ ys)" for a
    proof (cases "a \<in> set xs")
      case True
      then show ?thesis using assms(1) x by (simp add: completed_def)
    next
      case False
      then have "a \<in> set ys" using that by simp
      then show ?thesis unfolding y [OF \<open>a \<in> set ys\<close>, symmetric] using assms(2) False by (simp add: completed_def)
    qed
    show "success r2 = (success r \<and> (\<forall>a \<in> set (xs @ ys). \<forall>pid \<in> set (?ids a). good_exit (status pid)))"
      unfolding c using assms(1,2) by (simp add: completed_def)
    show "resource_success r2 = (resource_success r \<and> (\<forall>a \<in> set (xs @ ys). \<forall>pid \<in> set (?ids a). WEXITSTATUS (status pid) \<noteq> EXIT_NO_RESOURCE))"
      unfolding c using assms(1,2) by (simp add: completed_def)
  qed
qed

lemma run_sequential_calm:
  assumes calm: "calm os status" and flags: "flags AND OPT_FLAGS_AGGRESSIVE = 0" "flags AND OPT_FLAGS_ABORT = 0"
    and "g_keep_stressing_flag r" and "killable (xs @ ys) r" and "distinct (xs @ ys)" and "chain (p_heap (r_procs r)) p ys"
    and "\<And>a. a \<in> set ys \<Longrightarrow> fresh (the (get_proc a r)) \<and> num_procs (the (get_proc a r)) < 2 ^ 31"
  shows "\<exists>r' ids. run_sequential_loop os flags opt_timeout p r = Some r' \<and> completed os status ys r r' ids \<and> killable (xs @ ys) r'"
  using assms(4-)
proof (induction ys arbitrary: xs p r)
  case Nil
  then show ?case by (auto simp: run_sequential_loop.simps completed_def logged_def)
next
  case (Cons a zs)
  obtain n where n: "p = Some a" "p_heap (r_procs r) a = Some n" "chain (p_heap (r_procs r)) (pi_next n) zs" using Cons.prems(4) by auto
  have p: "fresh (pi_proc n)" "num_procs (pi_proc n) < 2 ^ 31" using Cons.prems(5) [of a] n(2) by (auto simp: get_proc_def)
  obtain st r1 st' ids where s: "set_node a (\<lambda>n. n\<lparr>pi_next := None\<rparr>) (r_procs r) = Some st"
    "stress_run os flags opt_timeout (Some a) (r\<lparr>r_procs := st\<rparr>) = Some r1"
    "set_node a (\<lambda>m. m\<lparr>pi_next := pi_next n\<rparr>) (r_procs r1) = Some st'"
    "completed os status [a] r (r1\<lparr>r_procs := st'\<rparr>) ids" "killable (xs @ a # zs) (r1\<lparr>r_procs := st'\<rparr>)" "g_keep_stressing_flag r1"
    by (rule sequential_step [OF calm Cons.prems(1) flags Cons.prems(2,3) n(2) p])
  let ?r = "r1\<lparr>r_procs := st'\<rparr>"
  have l: "same_links r ?r" and o: "\<And>b. b \<noteq> a \<Longrightarrow> get_proc b ?r = get_proc b r" using s(4) by (simp_all add: completed_def)
  have f: "fresh (the (get_proc b ?r)) \<and> num_procs (the (get_proc b ?r)) < 2 ^ 31" if "b \<in> set zs" for b
  proof -
    have "b \<noteq> a" "b \<in> set (a # zs)" using that Cons.prems(3) by auto
    then show ?thesis unfolding o [OF \<open>b \<noteq> a\<close>] using Cons.prems(5) by blast
  qed
  obtain r' ids' where r': "run_sequential_loop os flags opt_timeout (pi_next n) ?r = Some r'" "completed os status zs ?r r' ids'"
    "killable ((xs @ [a]) @ zs) r'"
    using Cons.IH [of ?r "xs @ [a]" "pi_next n"] s(5,6) Cons.prems(3) chain_links [OF l n(3)] f by auto
  have "run_sequential_loop os flags opt_timeout p r = Some r'"
    using n s(1,2,3) r'(1) Cons.prems(1) by (subst run_sequential_loop.simps) simp
  then show ?case using completed_trans [OF s(4) r'(2)] r'(3) Cons.prems(3) by auto
qed

section \<open>Runs over the list\<close>

lemma seg_chain: "seg h prv as ps None \<Longrightarrow> chain h (hd_ptr as) as \<and> map (\<lambda>a. pi_proc (the (h a))) as = ps"
proof (induction as arbitrary: prv ps)
  case (Cons a as)
  then obtain p qs where ps: "ps = p # qs" "h a = Some \<lparr>pi_next = hd_ptr as, pi_prev = prv, pi_proc = p\<rparr>" "seg h (Some a) as qs None"
    by (cases ps) (auto simp: hd_ptr_def)
  then show ?case using Cons.IH [of "Some a" qs] by simp
next
  case Nil
  then show ?case by (cases ps) simp_all
qed

lemma procs_rel_chain:
  assumes "procs_rel (r_procs r) as ps"
  shows "chain (p_heap (r_procs r)) (procs_head (r_procs r)) as" and "distinct as" and "map (\<lambda>a. the (get_proc a r)) as = ps"
proof -
  have s: "chain (p_heap (r_procs r)) (hd_ptr as) as" "map (\<lambda>a. pi_proc (the (p_heap (r_procs r) a))) as = ps"
    and h: "procs_head (r_procs r) = hd_ptr as" and d: "distinct as"
    using assms seg_chain [of "p_heap (r_procs r)" None as ps] by (auto simp: procs_rel_def)
  show c: "chain (p_heap (r_procs r)) (procs_head (r_procs r)) as" "distinct as" using s h d by simp_all
  have "the (get_proc a r) = pi_proc (the (p_heap (r_procs r) a))" if "a \<in> set as" for a
    using chain_get [OF c(1) that] by (auto simp: get_proc_def)
  then show "map (\<lambda>a. the (get_proc a r)) as = ps" using s(2) by (simp cong: map_cong)
qed

lemma seg_same_links:
  assumes "same_links r r'"
  shows "seg (p_heap (r_procs r)) prv as ps nxt \<Longrightarrow> seg (p_heap (r_procs r')) prv as (map (\<lambda>a. the (get_proc a r')) as) nxt"
proof (induction as arbitrary: prv ps)
  case (Cons a as)
  then obtain p qs where ps: "ps = p # qs"
    "p_heap (r_procs r) a = Some \<lparr>pi_next = (if as = [] then nxt else Some (hd as)), pi_prev = prv, pi_proc = p\<rparr>" "seg (p_heap (r_procs r)) (Some a) as qs nxt"
    by (cases ps) auto
  then have "map_option (\<lambda>n. (pi_next n, pi_prev n)) (p_heap (r_procs r') a) = Some (if as = [] then nxt else Some (hd as), prv)"
    using assms by (simp add: same_links_def)
  then obtain n where "p_heap (r_procs r') a = Some n" "pi_next n = (if as = [] then nxt else Some (hd as))" "pi_prev n = prv" by auto
  then show ?case using Cons.IH [OF ps(3)] by (simp add: get_proc_def)
next
  case Nil
  then show ?case by (cases ps) simp_all
qed

lemma procs_rel_same_links:
  "procs_rel (r_procs r) as ps \<Longrightarrow> same_links r r' \<Longrightarrow> procs_rel (r_procs r') as (map (\<lambda>a. the (get_proc a r')) as)"
  using seg_same_links [of r r' None as ps None] by (simp add: procs_rel_def same_links_def)

lemma killable_listed:
  assumes "procs_rel (r_procs r) as ps" and "\<And>p. p \<in> set ps \<Longrightarrow> nat (started_procs p) \<le> length (pids p)"
  shows "killable as r"
  unfolding killable_def
proof (intro conjI ballI)
  show "chain (p_heap (r_procs r)) (procs_head (r_procs r)) as" by (rule procs_rel_chain [OF assms(1)])
  fix b assume b: "b \<in> set as"
  then obtain p where p: "get_proc b r = Some p" using chain_get [OF procs_rel_chain(1) [OF assms(1)]] by blast
  have "the (get_proc b r) \<in> set ps" using b procs_rel_chain(3) [OF assms(1)] by (metis image_eqI set_map)
  then show "\<exists>p. get_proc b r = Some p \<and> nat (started_procs p) \<le> length (pids p)" using p assms(2) by auto
qed

section \<open>Properties of a run\<close>

definition finished :: "proc \<Rightarrow> proc" where
  "finished p = p\<lparr>started_procs := num_procs p, pids := replicate (nat (num_procs p)) 0\<rparr>"


text \<open>
  C21: sending a signal to the running stressors signals the process group and then every process that has been started and not
  been reaped, once and in the order of the list; from the sixth call on the single processes get SIGKILL, while the
  group still gets the signal asked for.
\<close>

theorem kill_escalates:
  assumes "listed (r_procs r) ps" and "\<forall>p \<in> set ps. nat (started_procs p) \<le> length (pids p)"
  shows "kill_procs sig r = Some (r\<lparr>kill_count := kill_count r + 1, calls := calls r @ Killpg sig
    # map (\<lambda>pid. Kill pid (if 5 \<le> kill_count r then SIGKILL else sig)) (concat (map live ps))\<rparr>)"
proof -
  obtain as where as: "procs_rel (r_procs r) as ps" using assms(1) by (auto simp: listed_def)
  have "map (\<lambda>b. live (the (get_proc b r))) as = map live ps"
    unfolding procs_rel_chain(3) [OF as, symmetric] by simp
  then show ?thesis using kill_procs_calls [OF killable_listed [OF as], of sig] assms(2) by simp
qed

section \<open>Concrete runs\<close>

text \<open>
  Two stressors with two processes and one, before the run; the kernel refuses the second call of \<open>fork\<close> once and interrupts every
  other wait.
\<close>

definition fresh_list :: "proc list" where
  "fresh_list = [(new_proc 7)\<lparr>num_procs := 2, pids := [0, 0], stats := [Some 0, Some 1]\<rparr>,
    (new_proc 21)\<lparr>num_procs := 1, pids := [0], stats := [Some 2]\<rparr>]"

definition running_list :: "proc list" where
  "running_list = [(new_proc 7)\<lparr>num_procs := 2, started_procs := 2, pids := [0, 104]\<rparr>, (new_proc 21)\<lparr>num_procs := 1, started_procs := 1, pids := [102]\<rparr>]"

definition two_procs :: "proc list \<Rightarrow> procs" where
  "two_procs ps = \<lparr>p_heap = [0 \<mapsto> \<lparr>pi_next = Some 1, pi_prev = None, pi_proc = ps ! 0\<rparr>,
     1 \<mapsto> \<lparr>pi_next = None, pi_prev = Some 0, pi_proc = ps ! 1\<rparr>],
     procs_head = Some 0, procs_tail = Some 1\<rparr>"

definition sample_os :: os where
  "sample_os = \<lparr>os_signals = \<lambda>t. [], os_timeup = \<lambda>t. False, os_fork = \<lambda>t. if t = 3 then Fork_again else Fork_pid (int t + 100),
     os_wait = \<lambda>t pid. if even t then Wait_intr else Wait_status 0, os_sigaction = \<lambda>s. True, os_cpus = 4,
     os_getaffinity = \<lambda>t. None, os_setaffinity = \<lambda>t. True\<rparr>"

definition sample_run :: "proc list \<Rightarrow> run" where
  "sample_run ps = \<lparr>r_procs = two_procs ps, g_keep_stressing_flag = True, wait_flag = True, g_caught_sigint = False, g_signum = None,
     handlers = Map.empty, kill_count = 5, calls = [], r_rng = mwc_init, r_tick = 0, success = True, resource_success = True\<rparr>"

lemma two_listed: "listed (r_procs (sample_run [p, q])) [p, q]"
  unfolding listed_def by (rule exI [of _ "[0, 1]"]) (simp add: procs_rel_def sample_run_def two_procs_def)

lemma sample_calm: "calm sample_os (\<lambda>pid. 0)"
proof -
  have "\<exists>k. os_fork sample_os (t + 2 * k) \<noteq> Fork_again" for t by (rule exI [of _ "if t = 3 then 1 else 0"]) (simp add: sample_os_def)
  moreover have "\<exists>k. os_wait sample_os (t + k) pid \<noteq> Wait_intr" for t pid
    by (rule exI [of _ "if even t then 1 else 0"]) (simp add: sample_os_def)
  ultimately show ?thesis by (auto simp: calm_def forked_def sample_os_def split: if_splits)
qed

lemma status_zero: "good_exit 0" "WEXITSTATUS 0 = 0"
  by (simp_all add: good_exit_def WIFSIGNALED_def WTERMSIG_def WEXITSTATUS_def EXIT_SUCCESS_def)


theorem kill_escalates_witness:
  "\<exists>r'. kill_procs SIGALRM (sample_run running_list) = Some r' \<and> calls r' = [Killpg SIGALRM, Kill 104 SIGKILL, Kill 102 SIGKILL]"
proof -
  have "listed (r_procs (sample_run running_list)) running_list" unfolding running_list_def by (rule two_listed)
  moreover have "\<forall>p \<in> set running_list. nat (started_procs p) \<le> length (pids p)" by (simp add: running_list_def)
  moreover have "concat (map live running_list) = [104, 102]" by (simp add: running_list_def live_def numeral_2_eq_2)
  ultimately show ?thesis using kill_escalates [of "sample_run running_list" running_list SIGALRM] by (simp add: sample_run_def)
qed

end
