(* ===== verification/Setters.thy ===== *)
theory Setters
  imports Parse_Opts Settings
begin

text \<open>
  The option setters of the stressors: each parses the text of an option, checks the range and
  stores the value under a name in the settings.  The bounds are the values of the MIN and MAX macros
  of stress-ng.h for machines with 64 bits.
\<close>

section \<open>Parsing and storing\<close>

text \<open>
  What the setters get from the machine: the current stressor, the memory for the node of the setting, the sizes of memory, file
  system and page, and the floating point operations for percentages.
\<close>

record 'd opt_env =
  oe_proc :: "nat option"
  oe_mem :: "nat option"
  oe_dup :: bool
  oe_phys :: u64
  oe_fs :: u64
  oe_inodes :: u64
  oe_page :: u64
  oe_fp :: "'d fp_ops"

definition bind_p :: "'a parsed \<Rightarrow> ('a \<Rightarrow> 'b parsed) \<Rightarrow> 'b parsed" where
  "bind_p x f = (case x of Inl e \<Rightarrow> Inl e | Inr v \<Rightarrow> f v)"

definition save :: "'d opt_env \<Rightarrow> string \<Rightarrow> setting_value \<Rightarrow> settings \<Rightarrow> settings parsed" where
  "save env name v st =
    (case set_setting (oe_proc env) (oe_mem env) (oe_dup env) name (Some v) st of
       Inl e \<Rightarrow> Inl (Exit_failure name) | Inr st \<Rightarrow> Inr st)"

definition KB :: u64 where "KB = push_bit 10 1"
definition MB :: u64 where "MB = push_bit 20 1"
definition GB :: u64 where "GB = push_bit 30 1"
definition MAX_MEM_LIMIT :: u64 where "MAX_MEM_LIMIT = 0xffffffffffff"

text \<open>Port numbers: the value is converted to a signed 32 bit number before the check.\<close>

definition stress_set_net_port :: "string \<Rightarrow> string \<Rightarrow> int \<Rightarrow> int \<Rightarrow> 32 word parsed" where
  "stress_set_net_port optname opt min_port max_port =
    bind_p (get_uint64 opt) (\<lambda>v.
      let port = ucast v :: 32 word
      in bind_p (check_range optname (scast port) (word_of_int min_port) (word_of_int (max_port - STRESS_PROCS_MAX))) (\<lambda>_. Inr port))"

section \<open>The setters\<close>

definition stress_set_aio_linux_requests :: "'d opt_env \<Rightarrow> string \<Rightarrow> settings \<Rightarrow> settings parsed" where
  "stress_set_aio_linux_requests env opt st =
    bind_p (get_uint32 opt) (\<lambda>v. bind_p (check_range ''aiol-requests'' (ucast v) 1 4096) (\<lambda>_.
      save env ''aiol-requests'' (V_uint64 (ucast v)) st))"

definition stress_set_aio_requests :: "'d opt_env \<Rightarrow> string \<Rightarrow> settings \<Rightarrow> settings parsed" where
  "stress_set_aio_requests env opt st =
    bind_p (get_uint64 opt) (\<lambda>v. bind_p (check_range ''aio-requests'' v 1 4096) (\<lambda>_.
      save env ''aio-requests'' (V_uint64 v) st))"

definition stress_set_bigheap_growth :: "'d opt_env \<Rightarrow> string \<Rightarrow> settings \<Rightarrow> settings parsed" where
  "stress_set_bigheap_growth env opt st =
    bind_p (get_uint64_byte opt) (\<lambda>v. bind_p (check_range_bytes ''bigheap-growth'' v (4 * KB) (64 * MB)) (\<lambda>_.
      save env ''bigheap-growth'' (V_uint64 v) st))"

definition stress_set_bsearch_size :: "'d opt_env \<Rightarrow> string \<Rightarrow> settings \<Rightarrow> settings parsed" where
  "stress_set_bsearch_size env opt st =
    bind_p (get_uint64 opt) (\<lambda>v. bind_p (check_range ''bsearch-size'' v (1 * KB) (4 * MB)) (\<lambda>_.
      save env ''bsearch-size'' (V_uint64 v) st))"

definition stress_set_chdir_dirs :: "'d opt_env \<Rightarrow> string \<Rightarrow> settings \<Rightarrow> settings parsed" where
  "stress_set_chdir_dirs env opt st =
    bind_p (get_uint64 opt) (\<lambda>v. bind_p (check_range ''chdir-dirs'' v 64 65536) (\<lambda>_.
      save env ''chdir-dirs'' (V_uint64 v) st))"

definition stress_set_clone_max :: "'d opt_env \<Rightarrow> string \<Rightarrow> settings \<Rightarrow> settings parsed" where
  "stress_set_clone_max env opt st =
    bind_p (get_uint64 opt) (\<lambda>v. bind_p (check_range ''clone-max'' v 1 1000000) (\<lambda>_.
      save env ''clone-max'' (V_uint64 v) st))"

definition stress_set_copy_file_bytes :: "'d opt_env \<Rightarrow> string \<Rightarrow> settings \<Rightarrow> settings parsed" where
  "stress_set_copy_file_bytes env opt st =
    bind_p (get_uint64_byte_filesystem (oe_fp env) (oe_fs env) opt 1) (\<lambda>v. bind_p (check_range_bytes ''copy-file-bytes'' v (128 * MB) (256 * GB)) (\<lambda>_.
      save env ''copy-file-bytes'' (V_uint64 v) st))"

definition stress_set_cpu_load :: "'d opt_env \<Rightarrow> string \<Rightarrow> settings \<Rightarrow> settings parsed" where
  "stress_set_cpu_load env opt st =
    bind_p (get_int32 opt) (\<lambda>v. bind_p (check_range ''cpu-load'' (scast v) 0 100) (\<lambda>_.
      save env ''cpu-load'' (V_int32 v) st))"

definition stress_set_cpu_load_slice :: "'d opt_env \<Rightarrow> string \<Rightarrow> settings \<Rightarrow> settings parsed" where
  "stress_set_cpu_load_slice env opt st =
    bind_p (get_int32 opt) (\<lambda>v.
      if sint v < - 5000 \<or> sint v > 5000 then Inl (Exit_failure ''cpu-load-slice must in the range -5000 to 5000.'')
      else save env ''cpu-load-slice'' (V_int32 v) st)"

definition stress_set_cyclic_sleep :: "'d opt_env \<Rightarrow> string \<Rightarrow> settings \<Rightarrow> settings parsed" where
  "stress_set_cyclic_sleep env opt st =
    bind_p (get_uint64 opt) (\<lambda>v. bind_p (check_range ''cyclic-sleep'' v 1 1000000000) (\<lambda>_.
      save env ''cyclic-sleep'' (V_uint64 v) st))"

definition stress_set_cyclic_prio :: "'d opt_env \<Rightarrow> string \<Rightarrow> settings \<Rightarrow> settings parsed" where
  "stress_set_cyclic_prio env opt st =
    bind_p (get_int32 opt) (\<lambda>v. bind_p (check_range ''cyclic-prio'' (scast v) 1 100) (\<lambda>_.
      save env ''cyclic-prio'' (V_int32 v) st))"

definition stress_set_cyclic_dist :: "'d opt_env \<Rightarrow> string \<Rightarrow> settings \<Rightarrow> settings parsed" where
  "stress_set_cyclic_dist env opt st =
    bind_p (get_uint64 opt) (\<lambda>v. bind_p (check_range ''cyclic-dist'' v 1 10000000) (\<lambda>_.
      save env ''cyclic-dist'' (V_uint64 v) st))"

definition stress_set_dccp_port :: "'d opt_env \<Rightarrow> string \<Rightarrow> settings \<Rightarrow> settings parsed" where
  "stress_set_dccp_port env opt st =
    bind_p (stress_set_net_port ''dccp-port'' opt 1024 (65535 - 4096)) (\<lambda>port. save env ''dccp-port'' (V_sint port) st)"

definition stress_set_dentries :: "'d opt_env \<Rightarrow> string \<Rightarrow> settings \<Rightarrow> settings parsed" where
  "stress_set_dentries env opt st =
    bind_p (get_uint64 opt) (\<lambda>v. bind_p (check_range ''dentries'' v 1 1000000) (\<lambda>_.
      save env ''dentries'' (V_uint64 v) st))"

definition stress_set_dir_dirs :: "'d opt_env \<Rightarrow> string \<Rightarrow> settings \<Rightarrow> settings parsed" where
  "stress_set_dir_dirs env opt st =
    bind_p (get_uint64 opt) (\<lambda>v. bind_p (check_range ''dir-dirs'' v 64 65536) (\<lambda>_.
      save env ''dir-dirs'' (V_uint64 v) st))"

definition stress_set_dirdeep_dirs :: "'d opt_env \<Rightarrow> string \<Rightarrow> settings \<Rightarrow> settings parsed" where
  "stress_set_dirdeep_dirs env opt st =
    bind_p (get_uint32 opt) (\<lambda>v. bind_p (check_range ''dirdeep-dirs'' (ucast v) 1 10) (\<lambda>_.
      save env ''dirdeep-dirs'' (V_uint32 v) st))"

definition stress_set_dirdeep_inodes :: "'d opt_env \<Rightarrow> string \<Rightarrow> settings \<Rightarrow> settings parsed" where
  "stress_set_dirdeep_inodes env opt st =
    bind_p (get_uint64_percent (oe_fp env) opt 1 (oe_inodes env) ''Cannot determine number of available free inodes'') (\<lambda>v. save env ''dirdeep-inodes'' (V_uint64 v) st)"

definition stress_set_epoll_port :: "'d opt_env \<Rightarrow> string \<Rightarrow> settings \<Rightarrow> settings parsed" where
  "stress_set_epoll_port env opt st =
    bind_p (stress_set_net_port ''epoll-port'' opt 1024 (65535 - (4096 * 4))) (\<lambda>port. save env ''epoll-port'' (V_sint port) st)"

definition stress_set_exec_max :: "'d opt_env \<Rightarrow> string \<Rightarrow> settings \<Rightarrow> settings parsed" where
  "stress_set_exec_max env opt st =
    bind_p (get_uint64 opt) (\<lambda>v. bind_p (check_range ''exec-max'' v 1 16000) (\<lambda>_.
      save env ''exec-max'' (V_int64 v) st))"

definition stress_set_fallocate_bytes :: "'d opt_env \<Rightarrow> string \<Rightarrow> settings \<Rightarrow> settings parsed" where
  "stress_set_fallocate_bytes env opt st =
    bind_p (get_uint64_byte_filesystem (oe_fp env) (oe_fs env) opt 1) (\<lambda>v. bind_p (check_range_bytes ''fallocate-bytes'' v (1 * MB) (4 * GB)) (\<lambda>_.
      save env ''fallocate-bytes'' (V_off v) st))"

definition stress_set_fiemap_bytes :: "'d opt_env \<Rightarrow> string \<Rightarrow> settings \<Rightarrow> settings parsed" where
  "stress_set_fiemap_bytes env opt st =
    bind_p (get_uint64_byte_filesystem (oe_fp env) (oe_fs env) opt 1) (\<lambda>v. bind_p (check_range_bytes ''fiemap-bytes'' v (1 * MB) (256 * GB)) (\<lambda>_.
      save env ''fiemap-bytes'' (V_uint64 v) st))"

definition stress_set_fifo_readers :: "'d opt_env \<Rightarrow> string \<Rightarrow> settings \<Rightarrow> settings parsed" where
  "stress_set_fifo_readers env opt st =
    bind_p (get_uint64 opt) (\<lambda>v. bind_p (check_range ''fifo-readers'' v 1 64) (\<lambda>_.
      save env ''fifo-readers'' (V_uint64 v) st))"

definition stress_set_fork_max :: "'d opt_env \<Rightarrow> string \<Rightarrow> settings \<Rightarrow> settings parsed" where
  "stress_set_fork_max env opt st =
    bind_p (get_uint64 opt) (\<lambda>v. bind_p (check_range ''fork-max'' v 1 16000) (\<lambda>_.
      save env ''fork-max'' (V_uint64 v) st))"

definition stress_set_vfork_max :: "'d opt_env \<Rightarrow> string \<Rightarrow> settings \<Rightarrow> settings parsed" where
  "stress_set_vfork_max env opt st =
    bind_p (get_uint64 opt) (\<lambda>v. bind_p (check_range ''vfork-max'' v 1 16000) (\<lambda>_.
      save env ''vfork-max'' (V_uint64 v) st))"

definition stress_set_fstat_dir :: "'d opt_env \<Rightarrow> string \<Rightarrow> settings \<Rightarrow> settings parsed" where
  "stress_set_fstat_dir env opt st =
    save env ''fstat-dir'' (V_str opt) st"

definition stress_set_hdd_bytes :: "'d opt_env \<Rightarrow> string \<Rightarrow> settings \<Rightarrow> settings parsed" where
  "stress_set_hdd_bytes env opt st =
    bind_p (get_uint64_byte_filesystem (oe_fp env) (oe_fs env) opt 1) (\<lambda>v. bind_p (check_range_bytes ''hdd-bytes'' v (1 * MB) (256 * GB)) (\<lambda>_.
      save env ''hdd-bytes'' (V_uint64 v) st))"

definition stress_set_hdd_write_size :: "'d opt_env \<Rightarrow> string \<Rightarrow> settings \<Rightarrow> settings parsed" where
  "stress_set_hdd_write_size env opt st =
    bind_p (get_uint64_byte opt) (\<lambda>v. bind_p (check_range_bytes ''hdd-write-size'' v 1 (4 * MB)) (\<lambda>_.
      save env ''hdd-write-size'' (V_uint64 v) st))"

definition stress_set_heapsort_size :: "'d opt_env \<Rightarrow> string \<Rightarrow> settings \<Rightarrow> settings parsed" where
  "stress_set_heapsort_size env opt st =
    bind_p (get_uint64 opt) (\<lambda>v. bind_p (check_range ''heapsort-size'' v (1 * KB) (4 * MB)) (\<lambda>_.
      save env ''heapsort-size'' (V_uint64 v) st))"

definition stress_set_hsearch_size :: "'d opt_env \<Rightarrow> string \<Rightarrow> settings \<Rightarrow> settings parsed" where
  "stress_set_hsearch_size env opt st =
    bind_p (get_uint64 opt) (\<lambda>v. bind_p (check_range ''hsearch-size'' v (1 * KB) (4 * MB)) (\<lambda>_.
      save env ''hsearch-size'' (V_uint64 v) st))"

definition stress_set_iomix_bytes :: "'d opt_env \<Rightarrow> string \<Rightarrow> settings \<Rightarrow> settings parsed" where
  "stress_set_iomix_bytes env opt st =
    bind_p (get_uint64_byte_filesystem (oe_fp env) (oe_fs env) opt 1) (\<lambda>v. bind_p (check_range_bytes ''iomix-bytes'' v (1 * MB) (256 * GB)) (\<lambda>_.
      save env ''iomix-bytes'' (V_off v) st))"

definition stress_set_itimer_freq :: "'d opt_env \<Rightarrow> string \<Rightarrow> settings \<Rightarrow> settings parsed" where
  "stress_set_itimer_freq env opt st =
    bind_p (get_uint64 opt) (\<lambda>v. bind_p (check_range ''itimer-freq'' v 1 100000000) (\<lambda>_.
      save env ''itimer-freq'' (V_uint64 v) st))"

definition stress_set_lease_breakers :: "'d opt_env \<Rightarrow> string \<Rightarrow> settings \<Rightarrow> settings parsed" where
  "stress_set_lease_breakers env opt st =
    bind_p (get_uint64 opt) (\<lambda>v. bind_p (check_range ''lease-breakers'' v 1 64) (\<lambda>_.
      save env ''lease-breakers'' (V_uint64 v) st))"

definition stress_set_lsearch_size :: "'d opt_env \<Rightarrow> string \<Rightarrow> settings \<Rightarrow> settings parsed" where
  "stress_set_lsearch_size env opt st =
    bind_p (get_uint64 opt) (\<lambda>v. bind_p (check_range ''lsearch-size'' v (1 * KB) (4 * MB)) (\<lambda>_.
      save env ''lsearch-size'' (V_uint64 v) st))"

definition stress_set_malloc_bytes :: "'d opt_env \<Rightarrow> string \<Rightarrow> settings \<Rightarrow> settings parsed" where
  "stress_set_malloc_bytes env opt st =
    bind_p (get_uint64_byte_memory (oe_fp env) (oe_phys env) opt 1) (\<lambda>v. bind_p (check_range_bytes ''malloc-bytes'' v (1 * KB) MAX_MEM_LIMIT) (\<lambda>_.
      save env ''malloc-bytes'' (V_size v) st))"

definition stress_set_malloc_max :: "'d opt_env \<Rightarrow> string \<Rightarrow> settings \<Rightarrow> settings parsed" where
  "stress_set_malloc_max env opt st =
    bind_p (get_uint64_byte opt) (\<lambda>v. bind_p (check_range ''malloc-max'' v 32 (256 * 1024)) (\<lambda>_.
      save env ''malloc-max'' (V_size v) st))"

definition stress_set_malloc_threshold :: "'d opt_env \<Rightarrow> string \<Rightarrow> settings \<Rightarrow> settings parsed" where
  "stress_set_malloc_threshold env opt st =
    bind_p (get_uint64_byte opt) (\<lambda>v. bind_p (check_range ''malloc-threshold'' v 1 (256 * MB)) (\<lambda>_.
      save env ''malloc-threshold'' (V_size v) st))"

definition stress_set_matrix_size :: "'d opt_env \<Rightarrow> string \<Rightarrow> settings \<Rightarrow> settings parsed" where
  "stress_set_matrix_size env opt st =
    bind_p (get_uint64 opt) (\<lambda>v. bind_p (check_range ''matrix-size'' v 16 8192) (\<lambda>_.
      save env ''matrix-size'' (V_size v) st))"

definition stress_set_memfd_bytes :: "'d opt_env \<Rightarrow> string \<Rightarrow> settings \<Rightarrow> settings parsed" where
  "stress_set_memfd_bytes env opt st =
    bind_p (get_uint64_byte_memory (oe_fp env) (oe_phys env) opt 1) (\<lambda>v. bind_p (check_range_bytes ''memfd-bytes'' v (2 * MB) MAX_MEM_LIMIT) (\<lambda>_.
      save env ''memfd-bytes'' (V_size v) st))"

definition stress_set_memfd_fds :: "'d opt_env \<Rightarrow> string \<Rightarrow> settings \<Rightarrow> settings parsed" where
  "stress_set_memfd_fds env opt st =
    bind_p (get_uint64 opt) (\<lambda>v. bind_p (check_range ''memfd-fds'' (ucast (ucast v :: u32)) 8 4096) (\<lambda>_.
      save env ''memfd-fds'' (V_uint32 (ucast v)) st))"

definition stress_set_memrate_bytes :: "'d opt_env \<Rightarrow> string \<Rightarrow> settings \<Rightarrow> settings parsed" where
  "stress_set_memrate_bytes env opt st =
    bind_p (get_uint64_byte opt) (\<lambda>v. bind_p (check_range_bytes ''memrate-bytes'' v (4 * KB) (4 * GB)) (\<lambda>_.
      save env ''memrate-bytes'' (V_uint64 v) st))"

definition stress_set_memrate_rd_mbs :: "'d opt_env \<Rightarrow> string \<Rightarrow> settings \<Rightarrow> settings parsed" where
  "stress_set_memrate_rd_mbs env opt st =
    bind_p (get_uint64 opt) (\<lambda>v. bind_p (check_range_bytes ''memrate-rd-mbs'' v 1 1000000) (\<lambda>_.
      save env ''memrate-rd-mbs'' (V_uint64 v) st))"

definition stress_set_memrate_wr_mbs :: "'d opt_env \<Rightarrow> string \<Rightarrow> settings \<Rightarrow> settings parsed" where
  "stress_set_memrate_wr_mbs env opt st =
    bind_p (get_uint64 opt) (\<lambda>v. bind_p (check_range_bytes ''memrate-wr-mbs'' v 1 1000000) (\<lambda>_.
      save env ''memrate-wr-mbs'' (V_uint64 v) st))"

definition stress_set_mergesort_size :: "'d opt_env \<Rightarrow> string \<Rightarrow> settings \<Rightarrow> settings parsed" where
  "stress_set_mergesort_size env opt st =
    bind_p (get_uint64 opt) (\<lambda>v. bind_p (check_range ''mergesort-size'' v (1 * KB) (4 * MB)) (\<lambda>_.
      save env ''mergesort-size'' (V_uint64 v) st))"

definition stress_set_mmap_bytes :: "'d opt_env \<Rightarrow> string \<Rightarrow> settings \<Rightarrow> settings parsed" where
  "stress_set_mmap_bytes env opt st =
    bind_p (get_uint64_byte_memory (oe_fp env) (oe_phys env) opt 1) (\<lambda>v. bind_p (check_range_bytes ''mmap-bytes'' v (4 * KB) MAX_MEM_LIMIT) (\<lambda>_.
      save env ''mmap-bytes'' (V_size v) st))"

definition stress_set_mq_size :: "'d opt_env \<Rightarrow> string \<Rightarrow> settings \<Rightarrow> settings parsed" where
  "stress_set_mq_size env opt st =
    bind_p (get_uint64 opt) (\<lambda>v. bind_p (check_range ''mq-size'' v 1 32) (\<lambda>_.
      save env ''mq-size'' (V_sint (ucast v)) st))"

definition stress_set_mremap_bytes :: "'d opt_env \<Rightarrow> string \<Rightarrow> settings \<Rightarrow> settings parsed" where
  "stress_set_mremap_bytes env opt st =
    bind_p (get_uint64_byte_memory (oe_fp env) (oe_phys env) opt 1) (\<lambda>v. bind_p (check_range_bytes ''mremap-bytes'' v (4 * KB) MAX_MEM_LIMIT) (\<lambda>_.
      save env ''mremap-bytes'' (V_size v) st))"

definition stress_set_msync_bytes :: "'d opt_env \<Rightarrow> string \<Rightarrow> settings \<Rightarrow> settings parsed" where
  "stress_set_msync_bytes env opt st =
    bind_p (get_uint64_byte_memory (oe_fp env) (oe_phys env) opt 1) (\<lambda>v. bind_p (check_range_bytes ''msync-bytes'' v (1 * MB) MAX_MEM_LIMIT) (\<lambda>_.
      save env ''msync-bytes'' (V_size v) st))"

definition stress_set_pipe_size :: "'d opt_env \<Rightarrow> string \<Rightarrow> settings \<Rightarrow> settings parsed" where
  "stress_set_pipe_size env opt st =
    bind_p (get_uint64_byte opt) (\<lambda>v. bind_p (check_range_bytes ''pipe-size'' v 4 (1024 * 1024)) (\<lambda>_.
      save env ''pipe-size'' (V_size v) st))"

definition stress_set_pipe_data_size :: "'d opt_env \<Rightarrow> string \<Rightarrow> settings \<Rightarrow> settings parsed" where
  "stress_set_pipe_data_size env opt st =
    bind_p (get_uint64_byte opt) (\<lambda>v. bind_p (check_range_bytes ''pipe-data-size'' v 4 (oe_page env)) (\<lambda>_.
      save env ''pipe-data-size,'' (V_size v) st))"

definition stress_set_pthread_max :: "'d opt_env \<Rightarrow> string \<Rightarrow> settings \<Rightarrow> settings parsed" where
  "stress_set_pthread_max env opt st =
    bind_p (get_uint64 opt) (\<lambda>v. bind_p (check_range ''pthread-max'' v 1 30000) (\<lambda>_.
      save env ''pthread-max'' (V_uint64 v) st))"

definition stress_set_pty_max :: "'d opt_env \<Rightarrow> string \<Rightarrow> settings \<Rightarrow> settings parsed" where
  "stress_set_pty_max env opt st =
    bind_p (get_uint64 opt) (\<lambda>v. bind_p (check_range ''pty-max'' v 8 65536) (\<lambda>_.
      save env ''pty-max'' (V_uint64 v) st))"

definition stress_set_qsort_size :: "'d opt_env \<Rightarrow> string \<Rightarrow> settings \<Rightarrow> settings parsed" where
  "stress_set_qsort_size env opt st =
    bind_p (get_uint64 opt) (\<lambda>v. bind_p (check_range ''qsort-size'' v (1 * KB) (4 * MB)) (\<lambda>_.
      save env ''qsort-size'' (V_uint64 v) st))"

definition stress_set_radixsort_size :: "'d opt_env \<Rightarrow> string \<Rightarrow> settings \<Rightarrow> settings parsed" where
  "stress_set_radixsort_size env opt st =
    bind_p (get_uint64 opt) (\<lambda>v. bind_p (check_range ''radixsort-size'' v (1 * KB) (4 * MB)) (\<lambda>_.
      save env ''radixsort-size'' (V_uint64 v) st))"

definition stress_set_readahead_bytes :: "'d opt_env \<Rightarrow> string \<Rightarrow> settings \<Rightarrow> settings parsed" where
  "stress_set_readahead_bytes env opt st =
    bind_p (get_uint64_byte_filesystem (oe_fp env) (oe_fs env) opt 1) (\<lambda>v. bind_p (check_range_bytes ''readahead-bytes'' v (1 * MB) (256 * GB)) (\<lambda>_.
      save env ''readahead-bytes'' (V_uint64 v) st))"

definition stress_set_sctp_port :: "'d opt_env \<Rightarrow> string \<Rightarrow> settings \<Rightarrow> settings parsed" where
  "stress_set_sctp_port env opt st =
    bind_p (stress_set_net_port ''sctp-port'' opt 1024 (65535 - 4096)) (\<lambda>port. save env ''sctp-port'' (V_sint port) st)"

definition stress_set_seek_size :: "'d opt_env \<Rightarrow> string \<Rightarrow> settings \<Rightarrow> settings parsed" where
  "stress_set_seek_size env opt st =
    bind_p (get_uint64_byte opt) (\<lambda>v. bind_p (check_range_bytes ''seek-size'' v (1 * MB) (256 * GB)) (\<lambda>_.
      save env ''seek-size'' (V_uint64 v) st))"

definition stress_set_semaphore_sysv_procs :: "'d opt_env \<Rightarrow> string \<Rightarrow> settings \<Rightarrow> settings parsed" where
  "stress_set_semaphore_sysv_procs env opt st =
    bind_p (get_uint64 opt) (\<lambda>v. bind_p (check_range ''sem-sysv-procs'' v 2 64) (\<lambda>_.
      save env ''sem-sysv-procs'' (V_uint64 v) st))"

definition stress_set_semaphore_posix_procs :: "'d opt_env \<Rightarrow> string \<Rightarrow> settings \<Rightarrow> settings parsed" where
  "stress_set_semaphore_posix_procs env opt st =
    bind_p (get_uint64 opt) (\<lambda>v. bind_p (check_range ''sem-procs'' v 2 64) (\<lambda>_.
      save env ''sem-procs'' (V_uint64 v) st))"

definition stress_set_sendfile_size :: "'d opt_env \<Rightarrow> string \<Rightarrow> settings \<Rightarrow> settings parsed" where
  "stress_set_sendfile_size env opt st =
    bind_p (get_uint64_byte opt) (\<lambda>v. bind_p (check_range_bytes ''sendfile-size'' v (1 * KB) (1 * GB)) (\<lambda>_.
      save env ''sendfile-size'' (V_uint64 v) st))"

definition stress_set_sgx_vm_hang :: "'d opt_env \<Rightarrow> string \<Rightarrow> settings \<Rightarrow> settings parsed" where
  "stress_set_sgx_vm_hang env opt st =
    bind_p (get_uint64_time opt) (\<lambda>v. bind_p (check_range ''sgx-vm-hang'' v 0 3600) (\<lambda>_.
      save env ''vm-hang'' (V_uint64 v) st))"

definition stress_set_sgx_vm_bytes :: "'d opt_env \<Rightarrow> string \<Rightarrow> settings \<Rightarrow> settings parsed" where
  "stress_set_sgx_vm_bytes env opt st =
    bind_p (get_uint64_byte_memory (oe_fp env) (oe_phys env) opt 1) (\<lambda>v. bind_p (check_range_bytes ''sgx-vm-bytes'' v (4 * KB) MAX_MEM_LIMIT) (\<lambda>_.
      save env ''sgx-vm-bytes'' (V_size v) st))"

definition stress_set_shm_sysv_bytes :: "'d opt_env \<Rightarrow> string \<Rightarrow> settings \<Rightarrow> settings parsed" where
  "stress_set_shm_sysv_bytes env opt st =
    bind_p (get_uint64_byte opt) (\<lambda>v. bind_p (check_range_bytes ''shm-sysv-bytes'' v (1 * MB) MAX_MEM_LIMIT) (\<lambda>_.
      save env ''shm-sysv-bytes'' (V_size v) st))"

definition stress_set_shm_sysv_segments :: "'d opt_env \<Rightarrow> string \<Rightarrow> settings \<Rightarrow> settings parsed" where
  "stress_set_shm_sysv_segments env opt st =
    bind_p (get_uint64 opt) (\<lambda>v. bind_p (check_range ''shm-sysv-segs'' v 1 128) (\<lambda>_.
      save env ''shm-sysv-segs'' (V_size v) st))"

definition stress_set_shm_posix_bytes :: "'d opt_env \<Rightarrow> string \<Rightarrow> settings \<Rightarrow> settings parsed" where
  "stress_set_shm_posix_bytes env opt st =
    bind_p (get_uint64_byte_memory (oe_fp env) (oe_phys env) opt 1) (\<lambda>v. bind_p (check_range_bytes ''shm-bytes'' v (1 * MB) MAX_MEM_LIMIT) (\<lambda>_.
      save env ''shm-bytes'' (V_size v) st))"

definition stress_set_shm_posix_objects :: "'d opt_env \<Rightarrow> string \<Rightarrow> settings \<Rightarrow> settings parsed" where
  "stress_set_shm_posix_objects env opt st =
    bind_p (get_uint64 opt) (\<lambda>v. bind_p (check_range ''shm-objs'' v 1 0xffffffffffff) (\<lambda>_.
      save env ''shm-objs'' (V_size v) st))"

definition stress_set_sleep_max :: "'d opt_env \<Rightarrow> string \<Rightarrow> settings \<Rightarrow> settings parsed" where
  "stress_set_sleep_max env opt st =
    bind_p (get_uint64 opt) (\<lambda>v. bind_p (check_range ''sleep-max'' v 1 30000) (\<lambda>_.
      save env ''sleep-max'' (V_uint64 v) st))"

definition stress_set_socket_fd_port :: "'d opt_env \<Rightarrow> string \<Rightarrow> settings \<Rightarrow> settings parsed" where
  "stress_set_socket_fd_port env opt st =
    bind_p (stress_set_net_port ''sockfd-port'' opt 1024 (65535 - 4096)) (\<lambda>port. save env ''sockfd-port'' (V_sint port) st)"

definition stress_set_socket_port :: "'d opt_env \<Rightarrow> string \<Rightarrow> settings \<Rightarrow> settings parsed" where
  "stress_set_socket_port env opt st =
    bind_p (stress_set_net_port ''sock-port'' opt 1024 (65535 - 4096)) (\<lambda>port. save env ''sock-port'' (V_sint port) st)"

definition stress_set_splice_bytes :: "'d opt_env \<Rightarrow> string \<Rightarrow> settings \<Rightarrow> settings parsed" where
  "stress_set_splice_bytes env opt st =
    bind_p (get_uint64_byte_memory (oe_fp env) (oe_phys env) opt 1) (\<lambda>v. bind_p (check_range_bytes ''splice-bytes'' v (1 * KB) MAX_MEM_LIMIT) (\<lambda>_.
      save env ''splice-bytes'' (V_size v) st))"

definition stress_set_stream_L3_size :: "'d opt_env \<Rightarrow> string \<Rightarrow> settings \<Rightarrow> settings parsed" where
  "stress_set_stream_L3_size env opt st =
    bind_p (get_uint64_byte opt) (\<lambda>v. bind_p (check_range_bytes ''stream-L3-size'' v (4 * KB) (4 * GB)) (\<lambda>_.
      save env ''stream-L3-size'' (V_uint64 v) st))"

definition stress_set_sync_file_bytes :: "'d opt_env \<Rightarrow> string \<Rightarrow> settings \<Rightarrow> settings parsed" where
  "stress_set_sync_file_bytes env opt st =
    bind_p (get_uint64_byte_filesystem (oe_fp env) (oe_fs env) opt 1) (\<lambda>v. bind_p (check_range_bytes ''sync_file-bytes'' v (1 * MB) (4 * GB)) (\<lambda>_.
      save env ''sync_file-bytes'' (V_off v) st))"

definition stress_set_timer_freq :: "'d opt_env \<Rightarrow> string \<Rightarrow> settings \<Rightarrow> settings parsed" where
  "stress_set_timer_freq env opt st =
    bind_p (get_uint64 opt) (\<lambda>v. bind_p (check_range ''timer-freq'' v 1 100000000) (\<lambda>_.
      save env ''timer-freq'' (V_uint64 v) st))"

definition stress_set_timerfd_freq :: "'d opt_env \<Rightarrow> string \<Rightarrow> settings \<Rightarrow> settings parsed" where
  "stress_set_timerfd_freq env opt st =
    bind_p (get_uint64 opt) (\<lambda>v. bind_p (check_range ''timerfd-freq'' v 1 100000000) (\<lambda>_.
      save env ''timerfd-freq'' (V_uint64 v) st))"

definition stress_set_tree_size :: "'d opt_env \<Rightarrow> string \<Rightarrow> settings \<Rightarrow> settings parsed" where
  "stress_set_tree_size env opt st =
    bind_p (get_uint64 opt) (\<lambda>v. bind_p (check_range ''tree-size'' v 1000 25000000) (\<lambda>_.
      save env ''tree-size'' (V_uint64 v) st))"

definition stress_set_tsearch_size :: "'d opt_env \<Rightarrow> string \<Rightarrow> settings \<Rightarrow> settings parsed" where
  "stress_set_tsearch_size env opt st =
    bind_p (get_uint64 opt) (\<lambda>v. bind_p (check_range ''tsearch-size'' v (1 * KB) (4 * MB)) (\<lambda>_.
      save env ''tsearch-size'' (V_uint64 v) st))"

definition stress_set_udp_port :: "'d opt_env \<Rightarrow> string \<Rightarrow> settings \<Rightarrow> settings parsed" where
  "stress_set_udp_port env opt st =
    bind_p (stress_set_net_port ''udp-port'' opt 1024 (65535 - 4096)) (\<lambda>port. save env ''udp-port'' (V_sint port) st)"

definition stress_set_userfaultfd_bytes :: "'d opt_env \<Rightarrow> string \<Rightarrow> settings \<Rightarrow> settings parsed" where
  "stress_set_userfaultfd_bytes env opt st =
    bind_p (get_uint64_byte_memory (oe_fp env) (oe_phys env) opt 1) (\<lambda>v. bind_p (check_range_bytes ''userfaultfd-bytes'' v (4 * KB) MAX_MEM_LIMIT) (\<lambda>_.
      save env ''userfaultfd-bytes'' (V_size v) st))"

definition stress_set_vm_rw_bytes :: "'d opt_env \<Rightarrow> string \<Rightarrow> settings \<Rightarrow> settings parsed" where
  "stress_set_vm_rw_bytes env opt st =
    bind_p (get_uint64_byte_memory (oe_fp env) (oe_phys env) opt 1) (\<lambda>v. bind_p (check_range_bytes ''vm-rw-bytes'' v (4 * KB) MAX_MEM_LIMIT) (\<lambda>_.
      save env ''vm-rw-bytes'' (V_size v) st))"

definition stress_set_vm_splice_bytes :: "'d opt_env \<Rightarrow> string \<Rightarrow> settings \<Rightarrow> settings parsed" where
  "stress_set_vm_splice_bytes env opt st =
    bind_p (get_uint64_byte_memory (oe_fp env) (oe_phys env) opt 1) (\<lambda>v. bind_p (check_range_bytes ''vm-splice-bytes'' v (4 * KB) MAX_MEM_LIMIT) (\<lambda>_.
      save env ''vm-splice-bytes'' (V_size v) st))"

definition stress_set_vm_hang :: "'d opt_env \<Rightarrow> string \<Rightarrow> settings \<Rightarrow> settings parsed" where
  "stress_set_vm_hang env opt st =
    bind_p (get_uint64_time opt) (\<lambda>v. bind_p (check_range ''vm-hang'' v 0 3600) (\<lambda>_.
      save env ''vm-hang'' (V_uint64 v) st))"

definition stress_set_vm_bytes :: "'d opt_env \<Rightarrow> string \<Rightarrow> settings \<Rightarrow> settings parsed" where
  "stress_set_vm_bytes env opt st =
    bind_p (get_uint64_byte_memory (oe_fp env) (oe_phys env) opt 1) (\<lambda>v. bind_p (check_range_bytes ''vm-bytes'' v (4 * KB) MAX_MEM_LIMIT) (\<lambda>_.
      save env ''vm-bytes'' (V_size v) st))"

definition stress_set_zombie_max :: "'d opt_env \<Rightarrow> string \<Rightarrow> settings \<Rightarrow> settings parsed" where
  "stress_set_zombie_max env opt st =
    bind_p (get_uint64 opt) (\<lambda>v. bind_p (check_range ''zombie-max'' v 1 1000000) (\<lambda>_.
      save env ''zombie-max'' (V_int64 v) st))"

section \<open>The ranges they promise\<close>

text \<open>The setters for unsigned numbers: function, name of the setting, type, lower and upper bound.\<close>

definition setter_table :: "(('d opt_env \<Rightarrow> string \<Rightarrow> settings \<Rightarrow> settings parsed) \<times> string \<times> (u64 \<Rightarrow> setting_value) \<times> u64 \<times> u64) list" where
  "setter_table =
    [(stress_set_aio_requests, ''aio-requests'', V_uint64, 1, 4096),
     (stress_set_bigheap_growth, ''bigheap-growth'', V_uint64, (4 * KB), (64 * MB)),
     (stress_set_bsearch_size, ''bsearch-size'', V_uint64, (1 * KB), (4 * MB)),
     (stress_set_chdir_dirs, ''chdir-dirs'', V_uint64, 64, 65536),
     (stress_set_clone_max, ''clone-max'', V_uint64, 1, 1000000),
     (stress_set_copy_file_bytes, ''copy-file-bytes'', V_uint64, (128 * MB), (256 * GB)),
     (stress_set_cyclic_sleep, ''cyclic-sleep'', V_uint64, 1, 1000000000),
     (stress_set_cyclic_dist, ''cyclic-dist'', V_uint64, 1, 10000000),
     (stress_set_dentries, ''dentries'', V_uint64, 1, 1000000),
     (stress_set_dir_dirs, ''dir-dirs'', V_uint64, 64, 65536),
     (stress_set_exec_max, ''exec-max'', V_int64, 1, 16000),
     (stress_set_fallocate_bytes, ''fallocate-bytes'', V_off, (1 * MB), (4 * GB)),
     (stress_set_fiemap_bytes, ''fiemap-bytes'', V_uint64, (1 * MB), (256 * GB)),
     (stress_set_fifo_readers, ''fifo-readers'', V_uint64, 1, 64),
     (stress_set_fork_max, ''fork-max'', V_uint64, 1, 16000),
     (stress_set_vfork_max, ''vfork-max'', V_uint64, 1, 16000),
     (stress_set_hdd_bytes, ''hdd-bytes'', V_uint64, (1 * MB), (256 * GB)),
     (stress_set_hdd_write_size, ''hdd-write-size'', V_uint64, 1, (4 * MB)),
     (stress_set_heapsort_size, ''heapsort-size'', V_uint64, (1 * KB), (4 * MB)),
     (stress_set_hsearch_size, ''hsearch-size'', V_uint64, (1 * KB), (4 * MB)),
     (stress_set_iomix_bytes, ''iomix-bytes'', V_off, (1 * MB), (256 * GB)),
     (stress_set_itimer_freq, ''itimer-freq'', V_uint64, 1, 100000000),
     (stress_set_lease_breakers, ''lease-breakers'', V_uint64, 1, 64),
     (stress_set_lsearch_size, ''lsearch-size'', V_uint64, (1 * KB), (4 * MB)),
     (stress_set_malloc_bytes, ''malloc-bytes'', V_size, (1 * KB), MAX_MEM_LIMIT),
     (stress_set_malloc_max, ''malloc-max'', V_size, 32, (256 * 1024)),
     (stress_set_malloc_threshold, ''malloc-threshold'', V_size, 1, (256 * MB)),
     (stress_set_matrix_size, ''matrix-size'', V_size, 16, 8192),
     (stress_set_memfd_bytes, ''memfd-bytes'', V_size, (2 * MB), MAX_MEM_LIMIT),
     (stress_set_memrate_bytes, ''memrate-bytes'', V_uint64, (4 * KB), (4 * GB)),
     (stress_set_memrate_rd_mbs, ''memrate-rd-mbs'', V_uint64, 1, 1000000),
     (stress_set_memrate_wr_mbs, ''memrate-wr-mbs'', V_uint64, 1, 1000000),
     (stress_set_mergesort_size, ''mergesort-size'', V_uint64, (1 * KB), (4 * MB)),
     (stress_set_mmap_bytes, ''mmap-bytes'', V_size, (4 * KB), MAX_MEM_LIMIT),
     (stress_set_mq_size, ''mq-size'', (\<lambda>v. V_sint (ucast v)), 1, 32),
     (stress_set_mremap_bytes, ''mremap-bytes'', V_size, (4 * KB), MAX_MEM_LIMIT),
     (stress_set_msync_bytes, ''msync-bytes'', V_size, (1 * MB), MAX_MEM_LIMIT),
     (stress_set_pipe_size, ''pipe-size'', V_size, 4, (1024 * 1024)),
     (stress_set_pthread_max, ''pthread-max'', V_uint64, 1, 30000),
     (stress_set_pty_max, ''pty-max'', V_uint64, 8, 65536),
     (stress_set_qsort_size, ''qsort-size'', V_uint64, (1 * KB), (4 * MB)),
     (stress_set_radixsort_size, ''radixsort-size'', V_uint64, (1 * KB), (4 * MB)),
     (stress_set_readahead_bytes, ''readahead-bytes'', V_uint64, (1 * MB), (256 * GB)),
     (stress_set_seek_size, ''seek-size'', V_uint64, (1 * MB), (256 * GB)),
     (stress_set_semaphore_sysv_procs, ''sem-sysv-procs'', V_uint64, 2, 64),
     (stress_set_semaphore_posix_procs, ''sem-procs'', V_uint64, 2, 64),
     (stress_set_sendfile_size, ''sendfile-size'', V_uint64, (1 * KB), (1 * GB)),
     (stress_set_sgx_vm_hang, ''vm-hang'', V_uint64, 0, 3600),
     (stress_set_sgx_vm_bytes, ''sgx-vm-bytes'', V_size, (4 * KB), MAX_MEM_LIMIT),
     (stress_set_shm_sysv_bytes, ''shm-sysv-bytes'', V_size, (1 * MB), MAX_MEM_LIMIT),
     (stress_set_shm_sysv_segments, ''shm-sysv-segs'', V_size, 1, 128),
     (stress_set_shm_posix_bytes, ''shm-bytes'', V_size, (1 * MB), MAX_MEM_LIMIT),
     (stress_set_shm_posix_objects, ''shm-objs'', V_size, 1, 0xffffffffffff),
     (stress_set_sleep_max, ''sleep-max'', V_uint64, 1, 30000),
     (stress_set_splice_bytes, ''splice-bytes'', V_size, (1 * KB), MAX_MEM_LIMIT),
     (stress_set_stream_L3_size, ''stream-L3-size'', V_uint64, (4 * KB), (4 * GB)),
     (stress_set_sync_file_bytes, ''sync_file-bytes'', V_off, (1 * MB), (4 * GB)),
     (stress_set_timer_freq, ''timer-freq'', V_uint64, 1, 100000000),
     (stress_set_timerfd_freq, ''timerfd-freq'', V_uint64, 1, 100000000),
     (stress_set_tree_size, ''tree-size'', V_uint64, 1000, 25000000),
     (stress_set_tsearch_size, ''tsearch-size'', V_uint64, (1 * KB), (4 * MB)),
     (stress_set_userfaultfd_bytes, ''userfaultfd-bytes'', V_size, (4 * KB), MAX_MEM_LIMIT),
     (stress_set_vm_rw_bytes, ''vm-rw-bytes'', V_size, (4 * KB), MAX_MEM_LIMIT),
     (stress_set_vm_splice_bytes, ''vm-splice-bytes'', V_size, (4 * KB), MAX_MEM_LIMIT),
     (stress_set_vm_hang, ''vm-hang'', V_uint64, 0, 3600),
     (stress_set_vm_bytes, ''vm-bytes'', V_size, (4 * KB), MAX_MEM_LIMIT),
     (stress_set_zombie_max, ''zombie-max'', V_int64, 1, 1000000)]"

text \<open>
  Only values in the range are stored, whatever the text; and the decimal text of a number is stored as that number when
  it is in the range and rejected otherwise.
\<close>

definition setter_ok :: "('d opt_env \<Rightarrow> string \<Rightarrow> settings \<Rightarrow> settings parsed) \<times> string \<times> (u64 \<Rightarrow> setting_value) \<times> u64 \<times> u64 \<Rightarrow> bool" where
  "setter_ok row \<longleftrightarrow> (case row of (f, name, con, lo, hi) \<Rightarrow>
    (\<forall>env opt st st'. f env opt st = Inr st' \<longrightarrow> (\<exists>v. lo \<le> v \<and> v \<le> hi \<and> save env name (con v) st = Inr st'))
    \<and> (\<forall>env n st. n < 2 ^ 64 \<longrightarrow> (if lo \<le> of_nat n \<and> of_nat n \<le> hi then f env (show_nat n) st = save env name (con (of_nat n)) st
        else \<exists>msg. f env (show_nat n) st = Inl (Longjmp msg))))"

lemma setter_okI:
  assumes "\<And>env opt st. f env opt st = bind_p (g env opt) (\<lambda>v. bind_p (c v) (\<lambda>_. save env name (con v) st))"
    and "\<And>v. c v = (if v < lo \<or> v > hi then Inl (Longjmp msg) else Inr ())"
    and "\<And>env n. n < 2 ^ 64 \<Longrightarrow> g env (show_nat n) = Inr (of_nat n)"
  shows "setter_ok (f, name, con, lo, hi)"
  unfolding setter_ok_def prod.case
proof (intro conjI allI impI)
  show "\<exists>v. lo \<le> v \<and> v \<le> hi \<and> save env name (con v) st = Inr st'" if "f env opt st = Inr st'" for env opt st st'
    using that assms(1,2) by (auto simp: bind_p_def not_less split: sum.splits if_splits)
  show "if lo \<le> of_nat n \<and> of_nat n \<le> hi then f env (show_nat n) st = save env name (con (of_nat n)) st
      else \<exists>msg. f env (show_nat n) st = Inl (Longjmp msg)" if "n < 2 ^ 64" for env n st
    using assms(1,2) assms(3) [OF that] by (auto simp: bind_p_def not_less not_le)
qed

lemma get_plain:
  assumes "n < 2 ^ 64"
  shows "get_uint64 (show_nat n) = Inr (of_nat n)" "get_uint64_byte (show_nat n) = Inr (of_nat n)"
    "get_uint64_time (show_nat n) = Inr (of_nat n)"
    "get_uint64_byte_memory fp b (show_nat n) 1 = Inr (of_nat n)" "get_uint64_byte_filesystem fp b (show_nat n) 1 = Inr (of_nat n)"
proof -
  have "isdigit (last (show_nat n))" using show_nat_digits last_in_set show_nat_nonempty by blast
  then have "last (show_nat n) \<noteq> CHR ''%''" by (auto simp: isdigit_def)
  then show "get_uint64_byte_memory fp b (show_nat n) 1 = Inr (of_nat n)" "get_uint64_byte_filesystem fp b (show_nat n) 1 = Inr (of_nat n)"
    using get_uint64_scale_plain [OF assms]
    by (simp_all add: get_uint64_byte_memory_def get_uint64_byte_filesystem_def get_uint64_percent_def get_uint64_byte_def)
qed (use assms get_uint64_decimal [of n "[]"] get_uint64_scale_plain [OF assms] in
    \<open>simp_all add: get_uint64_byte_def get_uint64_time_def\<close>)

lemmas setter_defs =
  stress_set_aio_requests_def stress_set_bigheap_growth_def stress_set_bsearch_size_def stress_set_chdir_dirs_def
  stress_set_clone_max_def stress_set_copy_file_bytes_def stress_set_cyclic_sleep_def stress_set_cyclic_dist_def
  stress_set_dentries_def stress_set_dir_dirs_def stress_set_exec_max_def stress_set_fallocate_bytes_def
  stress_set_fiemap_bytes_def stress_set_fifo_readers_def stress_set_fork_max_def stress_set_vfork_max_def
  stress_set_hdd_bytes_def stress_set_hdd_write_size_def stress_set_heapsort_size_def stress_set_hsearch_size_def
  stress_set_iomix_bytes_def stress_set_itimer_freq_def stress_set_lease_breakers_def stress_set_lsearch_size_def
  stress_set_malloc_bytes_def stress_set_malloc_max_def stress_set_malloc_threshold_def stress_set_matrix_size_def
  stress_set_memfd_bytes_def stress_set_memrate_bytes_def stress_set_memrate_rd_mbs_def stress_set_memrate_wr_mbs_def
  stress_set_mergesort_size_def stress_set_mmap_bytes_def stress_set_mq_size_def stress_set_mremap_bytes_def
  stress_set_msync_bytes_def stress_set_pipe_size_def stress_set_pthread_max_def stress_set_pty_max_def
  stress_set_qsort_size_def stress_set_radixsort_size_def stress_set_readahead_bytes_def stress_set_seek_size_def
  stress_set_semaphore_sysv_procs_def stress_set_semaphore_posix_procs_def stress_set_sendfile_size_def
  stress_set_sgx_vm_hang_def stress_set_sgx_vm_bytes_def stress_set_shm_sysv_bytes_def stress_set_shm_sysv_segments_def
  stress_set_shm_posix_bytes_def stress_set_shm_posix_objects_def stress_set_sleep_max_def stress_set_splice_bytes_def
  stress_set_stream_L3_size_def stress_set_sync_file_bytes_def stress_set_timer_freq_def stress_set_timerfd_freq_def
  stress_set_tree_size_def stress_set_tsearch_size_def stress_set_userfaultfd_bytes_def stress_set_vm_rw_bytes_def
  stress_set_vm_splice_bytes_def stress_set_vm_hang_def stress_set_vm_bytes_def stress_set_zombie_max_def

lemma list_all_Nil: "list_all P []"
  by simp

lemma setter_table_ok: "list_all setter_ok setter_table"
  unfolding setter_table_def list.pred_inject
  by (intro conjI list_all_Nil; rule setter_okI, rule setter_defs, rule check_range_def check_range_bytes_def, erule get_plain)

lemma setter_table_values: "list_all (\<lambda>(f, name, con, lo, hi). \<forall>v. con v \<noteq> V_undefined) setter_table"
  unfolding setter_table_def by simp

lemma save_store:
  assumes "settings_rel st as es" and "s_heap st a = None" and "own_last (oe_proc env) es" and "v \<noteq> V_undefined"
    and "oe_mem env = Some a" and "oe_dup env"
  shows "\<exists>st'. save env name v st = Inr st' \<and> get_setting (oe_proc env) name st' = Some (True, Some v)
    \<and> (\<forall>other. other \<noteq> name \<longrightarrow> get_setting (oe_proc env) other st' = get_setting (oe_proc env) other st)"
  using heap_store.put_then_get [of st es a "oe_proc env" v name] assms
  by (cases "set_setting (oe_proc env) (Some a) True name (Some v) st") (simp_all add: save_def, blast+)

text \<open>
  C11: for every setter of the table, an option text that is accepted leaves a value between the bounds as the one that
  look-up of the setting returns; the decimal text of a number is accepted exactly when the number is
  in the range, and then the number itself is stored.
\<close>

theorem setters_in_range:
  assumes row: "(f, name, con, lo, hi) \<in> set setter_table"
    and st: "settings_rel st as es" "s_heap st a = None" "own_last (oe_proc env) es" and env: "oe_mem env = Some a" "oe_dup env"
  shows "(\<forall>opt st'. f env opt st = Inr st' \<longrightarrow>
      (\<exists>v. lo \<le> v \<and> v \<le> hi \<and> get_setting (oe_proc env) name st' = Some (True, Some (con v))))
    \<and> (\<forall>n. n < 2 ^ 64 \<longrightarrow>
        (if lo \<le> of_nat n \<and> of_nat n \<le> hi
         then \<exists>st'. f env (show_nat n) st = Inr st' \<and> get_setting (oe_proc env) name st' = Some (True, Some (con (of_nat n)))
         else \<exists>msg. f env (show_nat n) st = Inl (Longjmp msg)))"
proof -
  have ok: "setter_ok (f, name, con, lo, hi)" and u: "con v \<noteq> V_undefined" for v
    using row setter_table_ok setter_table_values by (auto simp: list_all_iff)
  have r: "\<exists>st'. save env name (con v) st = Inr st' \<and> get_setting (oe_proc env) name st' = Some (True, Some (con v))" for v
    using save_store [OF st u env] by blast
  show ?thesis
  proof (intro conjI allI impI)
    show "\<exists>v. lo \<le> v \<and> v \<le> hi \<and> get_setting (oe_proc env) name st' = Some (True, Some (con v))" if "f env opt st = Inr st'" for opt st'
      using ok that r unfolding setter_ok_def prod.case by (metis Inr_inject)
    show "if lo \<le> of_nat n \<and> of_nat n \<le> hi
         then \<exists>st'. f env (show_nat n) st = Inr st' \<and> get_setting (oe_proc env) name st' = Some (True, Some (con (of_nat n)))
         else \<exists>msg. f env (show_nat n) st = Inl (Longjmp msg)" if "n < 2 ^ 64" for n
      using ok that r [of "of_nat n"] unfolding setter_ok_def prod.case by (auto split: if_splits)
  qed
qed

text \<open>
  Two setters store under another name than the stressor reads: the pipe data size under a name with a
  trailing comma, and the time that the enclave memory stressor should hang under the name of the other
  memory stressor.  What the stressors read is not changed by the options.
\<close>

theorem lost_settings:
  assumes st: "settings_rel st as es" "s_heap st a = None" "own_last (oe_proc env) es" and env: "oe_mem env = Some a" "oe_dup env"
  shows "(stress_set_pipe_data_size env opt st = Inr st' \<longrightarrow>
      get_setting (oe_proc env) ''pipe-data-size'' st' = get_setting (oe_proc env) ''pipe-data-size'' st)
    \<and> (stress_set_sgx_vm_hang env opt st = Inr st' \<longrightarrow>
      get_setting (oe_proc env) ''sgx-vm-hang'' st' = get_setting (oe_proc env) ''sgx-vm-hang'' st
      \<and> (\<exists>v. get_setting (oe_proc env) ''vm-hang'' st' = Some (True, Some (V_uint64 v))))"
proof (intro conjI impI)
  assume "stress_set_pipe_data_size env opt st = Inr st'"
  then obtain v where "save env ''pipe-data-size,'' (V_size v) st = Inr st'"
    by (auto simp: stress_set_pipe_data_size_def bind_p_def split: sum.splits)
  then show "get_setting (oe_proc env) ''pipe-data-size'' st' = get_setting (oe_proc env) ''pipe-data-size'' st"
    using save_store [OF st _ env, of "V_size v" "''pipe-data-size,''"] by auto
next
  assume "stress_set_sgx_vm_hang env opt st = Inr st'"
  then obtain v where "save env ''vm-hang'' (V_uint64 v) st = Inr st'"
    by (auto simp: stress_set_sgx_vm_hang_def bind_p_def split: sum.splits)
  then show "get_setting (oe_proc env) ''sgx-vm-hang'' st' = get_setting (oe_proc env) ''sgx-vm-hang'' st"
    "\<exists>v. get_setting (oe_proc env) ''vm-hang'' st' = Some (True, Some (V_uint64 v))"
    using save_store [OF st _ env, of "V_uint64 v" "''vm-hang''"] by auto
qed

text \<open>
  Three options are narrowed to 32 bits before they are checked, so that numbers beyond 32 bits pass as small ones; and
  the port options refuse the ports between the bound they are given less the number of processes and the
  bound itself, since the callers have subtracted that number already.
\<close>

theorem narrowed_options:
  assumes "k < 2 ^ 31"
  shows "(8 \<le> k \<and> k \<le> 4096 \<longrightarrow>
      stress_set_memfd_fds env (show_nat (2 ^ 32 + k)) st = save env ''memfd-fds'' (V_uint32 (of_nat k)) st)
    \<and> (if 1024 \<le> k \<and> k \<le> 65535 - 2 * 4096
       then stress_set_udp_port env (show_nat k) st = save env ''udp-port'' (V_sint (of_nat k)) st
         \<and> stress_set_udp_port env (show_nat (2 ^ 32 + k)) st = save env ''udp-port'' (V_sint (of_nat k)) st
       else \<exists>msg. stress_set_udp_port env (show_nat k) st = Inl (Longjmp msg))"
proof -
  have big: "get_uint64 (show_nat (2 ^ 32 + k)) = Inr (of_nat (2 ^ 32 + k))" "get_uint64 (show_nat k) = Inr (of_nat k)"
    using assms by (intro get_plain; simp)+
  have c: "ucast (of_nat (2 ^ 32 + k) :: u64) = (of_nat k :: 32 word)" "ucast (of_nat k :: u64) = (of_nat k :: 32 word)"
  proof -
    have e: "ucast (of_nat n :: u64) = (of_nat n :: 32 word)" for n by (simp add: unsigned_of_nat word_of_nat_eq_iff)
    have "(of_nat (2 ^ 32 + k) :: 32 word) = of_nat k" by (simp add: word_of_nat_eq_iff take_bit_eq_mod del: of_nat_add)
    then show "ucast (of_nat (2 ^ 32 + k) :: u64) = (of_nat k :: 32 word)" unfolding e .
  qed (simp add: unsigned_of_nat word_of_nat_eq_iff)
  have w: "ucast (of_nat k :: u32) = (of_nat k :: u64)" "scast (of_nat k :: 32 word) = (of_nat k :: u64)"
    using assms by (simp_all add: unsigned_of_nat signed_of_nat take_bit_nat_eq_self signed_take_bit_int_eq_self)
  have r: "(of_nat k :: u64) < of_nat m \<longleftrightarrow> k < m" "of_nat m < (of_nat k :: u64) \<longleftrightarrow> m < k" if "m < 2 ^ 31" for m
    using assms that by (simp_all add: word_of_nat_less_iff take_bit_nat_eq_self)
  have b: "(of_nat k :: u64) < 8 \<longleftrightarrow> k < 8" "4096 < (of_nat k :: u64) \<longleftrightarrow> 4096 < k" "(of_nat k :: u64) < 1024 \<longleftrightarrow> k < 1024"
    "57343 < (of_nat k :: u64) \<longleftrightarrow> 57343 < k"
    using r(1) [of 8] r(2) [of 4096] r(1) [of 1024] r(2) [of 57343] by simp_all
  have m: "stress_set_memfd_fds env (show_nat (2 ^ 32 + k)) st = save env ''memfd-fds'' (V_uint32 (of_nat k)) st" if "8 \<le> k" "k \<le> 4096"
    unfolding stress_set_memfd_fds_def big bind_p_def sum.case c w check_range_def b using that by simp
  have u: "stress_set_udp_port env opt st = (if k < 1024 \<or> 57343 < k then Inl (Longjmp (''out of range for '' @ ''udp-port''))
      else save env ''udp-port'' (V_sint (of_nat k)) st)" if "get_uint64 opt = Inr x" "ucast x = (of_nat k :: 32 word)" for opt x
    using that b by (simp add: stress_set_udp_port_def stress_set_net_port_def bind_p_def w check_range_def STRESS_PROCS_MAX_def)
  show ?thesis using m u [OF big(1) c(1)] u [OF big(2) c(2)] by auto
qed

definition plain_env :: "unit opt_env" where
  "plain_env = \<lparr>oe_proc = None, oe_mem = Some 3, oe_dup = True, oe_phys = 2 ^ 34, oe_fs = 2 ^ 40, oe_inodes = 2 ^ 20, oe_page = 4096,
     oe_fp = \<lparr>fp_scan = \<lambda>s. None, fp_negative = \<lambda>d. False, fp_share = \<lambda>m d n. 0\<rparr>\<rparr>"

lemma plain_env_store:
  "settings_rel settings_init [] []" "s_heap settings_init 3 = None" "own_last (oe_proc plain_env) []" "oe_mem plain_env = Some 3" "oe_dup plain_env"
  using settings_rel_init by (simp_all add: settings_init_def own_last_def plain_env_def)

theorem setters_in_range_witness:
  "\<exists>st'. stress_set_vm_bytes plain_env ''65536'' settings_init = Inr st' \<and> get_setting None ''vm-bytes'' st' = Some (True, Some (V_size 65536))"
proof -
  have row: "(stress_set_vm_bytes, ''vm-bytes'', V_size, 4 * KB, MAX_MEM_LIMIT) \<in> set setter_table" by (simp add: setter_table_def)
  have "4 * KB \<le> 65536" "65536 \<le> MAX_MEM_LIMIT" by (simp_all add: KB_def MAX_MEM_LIMIT_def)
  moreover have "show_nat 65536 = ''65536''" by (simp add: scan_eval)
  moreover have "oe_proc plain_env = None" by (simp add: plain_env_def)
  ultimately show ?thesis
    using spec [OF conjunct2 [OF setters_in_range [OF row plain_env_store]], of 65536] by simp
qed

theorem lost_settings_witness:
  "\<exists>st'. stress_set_pipe_data_size plain_env ''512'' settings_init = Inr st' \<and> get_setting None ''pipe-data-size'' st' = Some (False, None)"
proof -
  have "get_uint64_byte ''512'' = Inr 512" using get_plain(2) [of 512] by (simp add: scan_eval)
  then obtain st' where s: "stress_set_pipe_data_size plain_env ''512'' settings_init = Inr st'"
    by (simp add: stress_set_pipe_data_size_def bind_p_def check_range_bytes_def plain_env_def save_def set_setting_def settings_init_def)
  have "get_setting None ''pipe-data-size'' settings_init = Some (False, None)"
    by (simp add: get_setting_def settings_init_def get_scan.simps)
  then show ?thesis using s lost_settings [OF plain_env_store, of "''512''" st'] by (simp add: plain_env_def)
qed

theorem narrowed_options_witness:
  "stress_set_udp_port plain_env (show_nat (2 ^ 32 + 2000)) settings_init = save plain_env ''udp-port'' (V_sint 2000) settings_init
    \<and> (\<exists>msg. stress_set_udp_port plain_env (show_nat 60000) settings_init = Inl (Longjmp msg))"
  using narrowed_options [of 2000 plain_env settings_init] narrowed_options [of 60000 plain_env settings_init] by simp

end
