(* ===== verification/Row_Setters.thy ===== *)
theory Row_Setters
  imports Setters Vm_Methods
begin

text \<open>
  The option setters that choose a row of a table by its name: the methods of a stressor, and the
  flags, orders, policies and socket domains with a name.  Numbers of system constants are those of Linux.
\<close>

section \<open>Choosing a row\<close>

text \<open>
  The loop over a table ends at the first row with the name.  A setter returns 0 after it has stored the value of the
  row, and -1 after it has listed the names.  Where the setting holds the address of the row it is represented by
  the number of the row.
\<close>

definition set_row :: "'d opt_env \<Rightarrow> string \<Rightarrow> (string \<times> setting_value) list \<Rightarrow> string \<Rightarrow> settings \<Rightarrow> int \<times> settings parsed" where
  "set_row env setting table name st =
    (case map_of table name of None \<Rightarrow> (- 1, Inr st) | Some v \<Rightarrow> (0, save env setting v st))"

definition method_rows :: "string list \<Rightarrow> (string \<times> setting_value) list" where
  "method_rows names = zip names (map (\<lambda>i. V_uintptr (of_nat i)) [0..<length names])"

definition size_rows :: "string list \<Rightarrow> (string \<times> setting_value) list" where
  "size_rows names = zip names (map (\<lambda>i. V_size (of_nat i)) [0..<length names])"

section \<open>Methods\<close>

text \<open>The table of stress-cpu.c for a compiler with complex, decimal and 128 bit types; row 0 is the method that runs all.\<close>

definition cpu_methods :: "string list" where
  "cpu_methods =
    [''all'', ''ackermann'', ''bitops'', ''callfunc'', ''cdouble'', ''cfloat'', ''clongdouble'', ''correlate'',
     ''crc16'', ''decimal32'', ''decimal64'', ''decimal128'', ''dither'', ''djb2a'', ''double'', ''euler'',
     ''explog'', ''fft'', ''factorial'', ''fibonacci'', ''float'', ''fnv1a'', ''gamma'', ''gcd'', ''gray'',
     ''hamming'', ''hanoi'', ''hyperbolic'', ''idct'', ''int128'', ''int64'', ''int32'', ''int16'', ''int8'',
     ''int128float'', ''int128double'', ''int128longdouble'', ''int128decimal32'', ''int128decimal64'',
     ''int128decimal128'', ''int64float'', ''int64double'', ''int64longdouble'', ''int32float'',
     ''int32double'', ''int32longdouble'', ''jenkin'', ''jmp'', ''ln2'', ''longdouble'', ''loop'',
     ''matrixprod'', ''nsqrt'', ''omega'', ''parity'', ''phi'', ''pi'', ''pjw'', ''prime'', ''psi'',
     ''queens'', ''rand'', ''rand48'', ''rgb'', ''sdbm'', ''sieve'', ''stats'', ''sqrt'', ''trig'', ''union'',
     ''zeta'']"

definition stress_set_cpu_method :: "'d opt_env \<Rightarrow> string \<Rightarrow> settings \<Rightarrow> int \<times> settings parsed" where
  "stress_set_cpu_method env =
    set_row env ''cpu-method'' (method_rows cpu_methods)"

definition stress_set_cyclic_method :: "'d opt_env \<Rightarrow> string \<Rightarrow> settings \<Rightarrow> int \<times> settings parsed" where
  "stress_set_cyclic_method env =
    set_row env ''cyclic-method'' (method_rows [''clock_ns'', ''itimer'', ''poll'', ''posix_ns'', ''pselect''])"

definition stress_set_funccall_method :: "'d opt_env \<Rightarrow> string \<Rightarrow> settings \<Rightarrow> int \<times> settings parsed" where
  "stress_set_funccall_method env =
    set_row env ''funccall-method'' (method_rows [''uint8'', ''uint16'', ''uint32'', ''uint64'', ''uint128'', ''float'', ''double'', ''longdouble''])"

definition stress_set_memthrash_method :: "'d opt_env \<Rightarrow> string \<Rightarrow> settings \<Rightarrow> int \<times> settings parsed" where
  "stress_set_memthrash_method env =
    set_row env ''memthrash-method'' (method_rows [''all'', ''chunk1'', ''chunk8'', ''chunk64'', ''chunk256'', ''chunkpage'', ''flip'', ''flush'', ''lock'', ''matrix'', ''memset'', ''mfence'', ''prefetch'', ''random'', ''spinread'', ''spinwrite''])"

definition stress_set_rawdev_method :: "'d opt_env \<Rightarrow> string \<Rightarrow> settings \<Rightarrow> int \<times> settings parsed" where
  "stress_set_rawdev_method env =
    set_row env ''rawdev-method'' (method_rows [''all'', ''sweep'', ''wiggle'', ''ends'', ''random'', ''burst''])"

definition stress_set_tree_method :: "'d opt_env \<Rightarrow> string \<Rightarrow> settings \<Rightarrow> int \<times> settings parsed" where
  "stress_set_tree_method env =
    set_row env ''tree-method'' (method_rows [''all'', ''avl'', ''binary'', ''rb'', ''splay''])"

definition stress_set_vm_method :: "'d opt_env \<Rightarrow> string \<Rightarrow> settings \<Rightarrow> int \<times> settings parsed" where
  "stress_set_vm_method env =
    set_row env ''vm-method'' (method_rows (map fst vm_methods))"

definition stress_set_wcs_method :: "'d opt_env \<Rightarrow> string \<Rightarrow> settings \<Rightarrow> int \<times> settings parsed" where
  "stress_set_wcs_method env =
    set_row env ''wcs-method'' (method_rows [''all'', ''wcscasecmp'', ''wcscat'', ''wcschr'', ''wcscmp'', ''wcscpy'', ''wcslen'', ''wcsncasecmp'', ''wcsncat'', ''wcsncmp'', ''wcsrchr'', ''wcscoll'', ''wcsxfrm''])"

definition stress_set_zlib_method :: "'d opt_env \<Rightarrow> string \<Rightarrow> settings \<Rightarrow> int \<times> settings parsed" where
  "stress_set_zlib_method env =
    set_row env ''zlib-method'' (method_rows [''random'', ''00ff'', ''ascii01'', ''asciidigits'', ''binary'', ''fixed'', ''latin'', ''nybble'', ''objcode'', ''rarely1'', ''rarely0'', ''text''])"

section \<open>Flags, orders and policies\<close>

definition stress_set_cyclic_policy :: "'d opt_env \<Rightarrow> string \<Rightarrow> settings \<Rightarrow> int \<times> settings parsed" where
  "stress_set_cyclic_policy env =
    set_row env ''cyclic-policy'' (size_rows [''deadline'', ''fifo'', ''rr''])"

definition stress_set_dccp_opts :: "'d opt_env \<Rightarrow> string \<Rightarrow> settings \<Rightarrow> int \<times> settings parsed" where
  "stress_set_dccp_opts env =
    set_row env ''dccp-opts'' ([(''send'', V_sint 1), (''sendmsg'', V_sint 2), (''sendmmsg'', V_sint 3)])"

definition stress_set_dentry_order :: "'d opt_env \<Rightarrow> string \<Rightarrow> settings \<Rightarrow> int \<times> settings parsed" where
  "stress_set_dentry_order env =
    set_row env ''dentry-order'' ([(''forward'', V_uint8 0), (''reverse'', V_uint8 1), (''stride'', V_uint8 2), (''random'', V_uint8 3)])"

definition stress_set_ioport_opts :: "'d opt_env \<Rightarrow> string \<Rightarrow> settings \<Rightarrow> int \<times> settings parsed" where
  "stress_set_ioport_opts env =
    set_row env ''ioport-opts'' ([(''in'', V_uint32 1), (''out'', V_uint32 2), (''inout'', V_uint32 3)])"

definition stress_set_socket_opts :: "'d opt_env \<Rightarrow> string \<Rightarrow> settings \<Rightarrow> int \<times> settings parsed" where
  "stress_set_socket_opts env =
    set_row env ''sock-opts'' ([(''send'', V_sint 1), (''sendmsg'', V_sint 2), (''sendmmsg'', V_sint 3)])"

definition stress_set_socket_type :: "'d opt_env \<Rightarrow> string \<Rightarrow> settings \<Rightarrow> int \<times> settings parsed" where
  "stress_set_socket_type env =
    set_row env ''sock-type'' ([(''stream'', V_sint 1), (''seqpacket'', V_sint 5)])"

definition stress_set_stream_madvise :: "'d opt_env \<Rightarrow> string \<Rightarrow> settings \<Rightarrow> int \<times> settings parsed" where
  "stress_set_stream_madvise env =
    set_row env ''stream-madvise'' ([(''hugepage'', V_sint 14), (''nohugepage'', V_sint 15), (''normal'', V_sint 0)])"

definition stress_set_vm_madvise :: "'d opt_env \<Rightarrow> string \<Rightarrow> settings \<Rightarrow> int \<times> settings parsed" where
  "stress_set_vm_madvise env =
    set_row env ''vm-madvise'' ([(''dontneed'', V_sint 4), (''hugepage'', V_sint 14), (''mergeable'', V_sint 12), (''nohugepage'', V_sint 15), (''normal'', V_sint 0), (''random'', V_sint 1), (''sequential'', V_sint 2), (''unmergeable'', V_sint 13), (''willneed'', V_sint 3)])"

section \<open>Socket domains\<close>

text \<open>The domains of net.c with the bit that tells which stressors take them; the domain is stored even when it is not known, as 0.\<close>

definition domains :: "(string \<times> 32 word \<times> 32 word) list" where
  "domains = [(''ipv4'', 2, 1), (''ipv6'', 10, 2), (''unix'', 1, 4)]"

definition stress_set_net_domain :: "32 word \<Rightarrow> string \<Rightarrow> int \<times> 32 word" where
  "stress_set_net_domain domain_mask domain_name =
    (case find (\<lambda>(name, domain, domain_flags). domain_mask AND domain_flags \<noteq> 0 \<and> domain_name = name) domains of
       None \<Rightarrow> (- 1, 0) | Some (name, domain, domain_flags) \<Rightarrow> (0, domain))"

definition set_domain :: "32 word \<Rightarrow> string \<Rightarrow> 'd opt_env \<Rightarrow> string \<Rightarrow> settings \<Rightarrow> int \<times> settings parsed" where
  "set_domain domain_mask setting env name st =
    (let (ret, domain) = stress_set_net_domain domain_mask name in (ret, save env setting (V_sint domain) st))"

definition stress_set_dccp_domain :: "'d opt_env \<Rightarrow> string \<Rightarrow> settings \<Rightarrow> int \<times> settings parsed" where
  "stress_set_dccp_domain = set_domain 3 ''dccp-domain''"

definition stress_set_sctp_domain :: "'d opt_env \<Rightarrow> string \<Rightarrow> settings \<Rightarrow> int \<times> settings parsed" where
  "stress_set_sctp_domain = set_domain 7 ''sctp-domain''"

definition stress_set_socket_domain :: "'d opt_env \<Rightarrow> string \<Rightarrow> settings \<Rightarrow> int \<times> settings parsed" where
  "stress_set_socket_domain = set_domain 7 ''sock-domain''"

definition stress_set_udp_domain :: "'d opt_env \<Rightarrow> string \<Rightarrow> settings \<Rightarrow> int \<times> settings parsed" where
  "stress_set_udp_domain = set_domain 7 ''udp-domain''"

definition stress_set_udp_flood_domain :: "'d opt_env \<Rightarrow> string \<Rightarrow> settings \<Rightarrow> int \<times> settings parsed" where
  "stress_set_udp_flood_domain = set_domain 3 ''udp-flood-domain''"

text \<open>The setter of the epoll stressor also chooses the number of servers.\<close>

definition stress_set_epoll_domain :: "'d opt_env \<Rightarrow> string \<Rightarrow> settings \<Rightarrow> int \<times> nat \<times> settings parsed" where
  "stress_set_epoll_domain env name st =
    (let (ret, domain) = stress_set_net_domain 7 name
     in (ret, if domain = 2 \<or> domain = 10 then 4 else 1, save env ''epoll-domain'' (V_sint domain) st))"

section \<open>Reading a setting\<close>

text \<open>A variable keeps its initial value when the setting is not there.\<close>

definition read_int32 :: "nat option \<Rightarrow> string \<Rightarrow> settings \<Rightarrow> int \<Rightarrow> int" where
  "read_int32 proc name st dflt = (case get_setting proc name st of Some (_, Some (V_int32 v)) \<Rightarrow> sint v | _ \<Rightarrow> dflt)"

definition read_ptr :: "nat option \<Rightarrow> string \<Rightarrow> settings \<Rightarrow> nat \<Rightarrow> nat" where
  "read_ptr proc name st dflt = (case get_setting proc name st of Some (_, Some (V_uintptr v)) \<Rightarrow> unat v | _ \<Rightarrow> dflt)"

section \<open>Tables\<close>

text \<open>A table whose rows hold different values, none of them undefined.\<close>

definition good_rows :: "(string \<times> setting_value) list \<Rightarrow> bool" where
  "good_rows table \<longleftrightarrow> distinct (map snd table) \<and> V_undefined \<notin> snd ` set table"

lemma distinct_numbers: "n \<le> 2 ^ 64 \<Longrightarrow> distinct (map of_nat [0..<n] :: u64 list)"
  by (auto simp: distinct_map inj_on_def word_of_nat_eq_iff take_bit_nat_eq_self)

lemma good_method_rows: "length names \<le> 2 ^ 64 \<Longrightarrow> good_rows (method_rows names)"
  using distinct_numbers [of "length names"]
  by (auto simp: good_rows_def method_rows_def distinct_map inj_on_def dest!: set_zip_rightD)

lemma good_size_rows: "length names \<le> 2 ^ 64 \<Longrightarrow> good_rows (size_rows names)"
  using distinct_numbers [of "length names"]
  by (auto simp: good_rows_def size_rows_def distinct_map inj_on_def dest!: set_zip_rightD)

lemma good_vm_rows: "good_rows (method_rows (map fst vm_methods))"
  by (rule good_method_rows) (simp add: vm_methods_def vm_single_methods_def)

text \<open>What a setter does with a name, and that the value stands for one name only.\<close>

lemma set_row_result:
  assumes "good_rows table"
    and st: "settings_rel st as es" "s_heap st a = None" "own_last (oe_proc env) es" and env: "oe_mem env = Some a" "oe_dup env"
  shows "case map_of table name of
      None \<Rightarrow> set_row env setting table name st = (- 1, Inr st)
    | Some v \<Rightarrow> (\<exists>st'. set_row env setting table name st = (0, Inr st') \<and> get_setting (oe_proc env) setting st' = Some (True, Some v)
        \<and> (\<forall>other. other \<noteq> setting \<longrightarrow> get_setting (oe_proc env) other st' = get_setting (oe_proc env) other st))"
proof (cases "map_of table name")
  case (Some v)
  then have "(name, v) \<in> set table" by (rule map_of_SomeD)
  with assms(1) have "v \<noteq> V_undefined" by (force simp: good_rows_def)
  from save_store [OF st this env, of setting] Some show ?thesis by (auto simp: set_row_def)
qed (simp add: set_row_def)

lemma map_of_value_inj:
  assumes "distinct (map snd table)" "map_of table a = Some v" "map_of table b = Some v"
  shows "a = b"
proof -
  have "(a, v) \<in> set table" "(b, v) \<in> set table" using assms(2,3) by (simp_all add: map_of_SomeD)
  with assms(1) show ?thesis using inj_onD [of snd "set table" "(a, v)" "(b, v)"] by (simp add: distinct_map)
qed

end
