(* ===== verification/Driver.thy ===== *)
theory Driver
  imports Stress_Prelude
begin

text \<open>
  What the stressors share: the counter of operations in shared memory, the flag that a signal
  handler clears, and the loop of a stressor that runs until its operations are done or the flag
  is cleared (inc_counter in stress-ng.h, keep_stressing in helper.c).  The locale \<open>counted_step\<close>
  is the contract of one round of such a loop, under which the loop is proved to return.
\<close>

section \<open>State and loop\<close>

text \<open>
  The flag g_keep_stressing_flag is changed by signal handlers; it is read at consecutive ticks,
  and \<open>keep t\<close> is the value read at tick \<open>t\<close>.
\<close>

record drv =
  d_counter :: u64
  d_tick :: nat

definition inc_counter :: "'a drv_scheme \<Rightarrow> 'a drv_scheme" where
  "inc_counter d = d\<lparr>d_counter := d_counter d + 1\<rparr>"

definition keep_flag :: "(nat \<Rightarrow> bool) \<Rightarrow> 'a drv_scheme \<Rightarrow> bool \<times> 'a drv_scheme" where
  "keep_flag keep d = (keep (d_tick d), d\<lparr>d_tick := d_tick d + 1\<rparr>)"

definition keep_stressing :: "(nat \<Rightarrow> bool) \<Rightarrow> u64 \<Rightarrow> 'a drv_scheme \<Rightarrow> bool \<times> 'a drv_scheme" where
  "keep_stressing keep max_ops d =
    (let (k, d) = keep_flag keep d in (k \<and> (max_ops = 0 \<or> d_counter d < max_ops), d))"

text \<open>The loop that every stressor ends with; a round that does not return makes the loop not return.\<close>

partial_function (option) stress_loop ::
    "(nat \<Rightarrow> bool) \<Rightarrow> u64 \<Rightarrow> ('a drv_scheme \<Rightarrow> 'a drv_scheme option) \<Rightarrow> 'a drv_scheme \<Rightarrow> 'a drv_scheme option" where
  "stress_loop keep max_ops step d =
    Option.bind (step d) (\<lambda>d.
      let (k, d) = keep_stressing keep max_ops d
      in if k then stress_loop keep max_ops step d else Some d)"

section \<open>Loops of counted rounds\<close>

lemma of_nat_less_64: "a < 2 ^ 64 \<Longrightarrow> b < 2 ^ 64 \<Longrightarrow> (of_nat a :: u64) < of_nat b \<longleftrightarrow> a < b"
  by (simp add: word_of_nat_less_iff take_bit_nat_eq_self)

lemma of_nat_64_zero: "0 < n \<Longrightarrow> n < 2 ^ 64 \<Longrightarrow> (of_nat n :: u64) \<noteq> 0"
  using of_nat_less_64 [of 0 n] by auto

text \<open>
  A round keeps an invariant that is indexed by the number of rounds done so far.  While the flag is
  up a round adds \<open>c\<close> operations to the counter.
\<close>

locale counted_step =
  fixes step :: "'a drv_scheme \<Rightarrow> 'a drv_scheme option" and inv :: "nat \<Rightarrow> 'a drv_scheme \<Rightarrow> bool" and c :: nat
  assumes round: "inv m d \<Longrightarrow> \<exists>d'. step d = Some d' \<and> inv (Suc m) d' \<and> d_tick d \<le> d_tick d'"
    and counter: "inv m d \<Longrightarrow> d_counter d = of_nat (c * m)"
    and ticked: "inv m d \<Longrightarrow> inv m (d\<lparr>d_tick := t\<rparr>)"
    and c_pos: "0 < c"
begin

lemma loop_bounded:
  assumes "inv m d" and "c * m < n" and "n + c < 2 ^ 64"
  shows "\<exists>d'. stress_loop (\<lambda>t. True) (of_nat n) step d = Some d' \<and> inv ((n + c - 1) div c) d'"
  using assms
proof (induction "n - c * m" arbitrary: m d rule: less_induct)
  case less
  obtain d' where d': "step d = Some d'" "inv (Suc m) d'" using round [OF less.prems(1)] by blast
  have n0: "(of_nat n :: u64) \<noteq> 0" using less.prems by (intro of_nat_64_zero) auto
  have u: "d_counter d' < of_nat n \<longleftrightarrow> c * Suc m < n"
    using counter [OF d'(2)] of_nat_less_64 [of "c * Suc m" n] less.prems by simp
  note t = ticked [OF d'(2), of "d_tick d' + 1"]
  show ?case
  proof (cases "c * Suc m < n")
    case True
    have "n - c * Suc m < n - c * m" using True c_pos by simp
    from less.hyps [OF this t True less.prems(3)] True u d'(1) show ?thesis
      by (subst stress_loop.simps) (simp add: keep_stressing_def keep_flag_def)
  next
    case False
    have "(n + c - 1) div c = Suc m" using False less.prems c_pos by (intro div_nat_eqI) (auto simp: algebra_simps)
    with False u n0 t d'(1) show ?thesis by (subst stress_loop.simps) (simp add: keep_stressing_def keep_flag_def)
  qed
qed

lemma loop_stops:
  assumes "inv m d" and "\<And>t. T \<le> t \<Longrightarrow> \<not> keep t"
  shows "\<exists>d' k. stress_loop keep max_ops step d = Some d' \<and> inv k d' \<and> m < k \<and> k \<le> m + 1 + (T - d_tick d)"
  using assms(1)
proof (induction "T - d_tick d" arbitrary: m d rule: less_induct)
  case less
  obtain d' where d': "step d = Some d'" "inv (Suc m) d'" "d_tick d \<le> d_tick d'" using round [OF less.prems] by blast
  note t = ticked [OF d'(2), of "d_tick d' + 1"]
  show ?case
  proof (cases "fst (keep_stressing keep max_ops d')")
    case True
    then have "keep (d_tick d')" by (simp add: keep_stressing_def keep_flag_def)
    with assms(2) have "d_tick d' < T" using not_le by blast
    then have "T - d_tick (d'\<lparr>d_tick := d_tick d' + 1\<rparr>) < T - d_tick d" using d'(3) by simp
    from less.hyps [OF this t] obtain d'' k where
      k: "stress_loop keep max_ops step (d'\<lparr>d_tick := d_tick d' + 1\<rparr>) = Some d''" "inv k d''" "Suc m < k" "k \<le> Suc m + 1 + (T - (d_tick d' + 1))"
      by auto
    have "stress_loop keep max_ops step d = Some d''"
      using True k(1) d'(1) by (subst stress_loop.simps) (simp add: keep_stressing_def keep_flag_def)
    moreover have "k \<le> m + 1 + (T - d_tick d)" using k(4) d'(3) \<open>d_tick d' < T\<close> by simp
    ultimately show ?thesis using k(2,3) by (intro exI [of _ d''] exI [of _ k]) simp
  next
    case False
    then have "stress_loop keep max_ops step d = Some (d'\<lparr>d_tick := d_tick d' + 1\<rparr>)"
      using d'(1) by (subst stress_loop.simps) (auto simp: keep_stressing_def keep_flag_def)
    with t show ?thesis by (intro exI [of _ "d'\<lparr>d_tick := d_tick d' + 1\<rparr>"] exI [of _ "Suc m"]) simp
  qed
qed

end

end
