(* ===== verification/Tree_Model.thy ===== *)
theory Tree_Model
  imports Driver Mwc Row_Setters Opt_Flags
begin

text \<open>
  The tree stressor of stress-tree.c: binary and AVL trees of the elements of an array of nodes, built by
  pointer updates.  The red black and splay trees are macros of another library and an argument of the method
  that runs all.
\<close>

section \<open>Nodes and slots\<close>

text \<open>
  A pointer to a node is the number of the node in the array.  The members binary and avl of the union in a node have
  their links in the same place, and so they are one pair of links here.
\<close>

record tree_node =
  n_left :: "nat option"
  n_right :: "nat option"
  n_bf :: u8
  n_value :: u64

definition LH :: u8 where "LH = 0"
definition EH :: u8 where "EH = 1"
definition RH :: u8 where "RH = 2"

text \<open>The array and the local variable head of a method; a pointer to a pointer is the head or a link of a node.\<close>

record tree_mem =
  t_head :: "nat option"
  t_node :: "nat \<Rightarrow> tree_node"

datatype slot = Head | Left nat | Right nat

fun slot_get :: "tree_mem \<Rightarrow> slot \<Rightarrow> nat option" where
  "slot_get m Head = t_head m"
| "slot_get m (Left i) = n_left (t_node m i)"
| "slot_get m (Right i) = n_right (t_node m i)"

fun slot_put :: "slot \<Rightarrow> nat option \<Rightarrow> tree_mem \<Rightarrow> tree_mem" where
  "slot_put Head p m = m\<lparr>t_head := p\<rparr>"
| "slot_put (Left i) p m = m\<lparr>t_node := (t_node m)(i := (t_node m i)\<lparr>n_left := p\<rparr>)\<rparr>"
| "slot_put (Right i) p m = m\<lparr>t_node := (t_node m)(i := (t_node m i)\<lparr>n_right := p\<rparr>)\<rparr>"

definition set_bf :: "nat \<Rightarrow> u8 \<Rightarrow> tree_mem \<Rightarrow> tree_mem" where
  "set_bf i b m = m\<lparr>t_node := (t_node m)(i := (t_node m i)\<lparr>n_bf := b\<rparr>)\<rparr>"

text \<open>
  The result None stands for a call that does not return: it follows the links for ever, or follows a null
  pointer.  A loop over the array runs a step for every node in turn.
\<close>

primrec each_node :: "(nat \<Rightarrow> 's \<Rightarrow> 's option) \<Rightarrow> nat list \<Rightarrow> 's \<Rightarrow> 's option" where
  "each_node f [] s = Some s"
| "each_node f (i # is) s = Option.bind (f i s) (each_node f is)"

section \<open>Binary trees\<close>

partial_function (option) binary_insert :: "slot \<Rightarrow> nat \<Rightarrow> tree_mem \<Rightarrow> tree_mem option" where
  "binary_insert head node m =
    (case slot_get m head of
       None \<Rightarrow> Some (slot_put head (Some node) m)
     | Some h \<Rightarrow> binary_insert (if n_value (t_node m node) \<le> n_value (t_node m h) then Left h else Right h) node m)"

text \<open>The search returns the node that it finds or the null pointer.\<close>

partial_function (option) binary_find :: "nat option \<Rightarrow> nat \<Rightarrow> tree_mem \<Rightarrow> nat option option" where
  "binary_find head node m =
    (case head of
       None \<Rightarrow> Some None
     | Some h \<Rightarrow>
        if n_value (t_node m node) = n_value (t_node m h) then Some (Some h)
        else binary_find (if n_value (t_node m node) \<le> n_value (t_node m h) then n_left (t_node m h) else n_right (t_node m h)) node m)"

partial_function (option) binary_remove_tree :: "nat option \<Rightarrow> tree_mem \<Rightarrow> tree_mem option" where
  "binary_remove_tree node m =
    (case node of
       None \<Rightarrow> Some m
     | Some i \<Rightarrow>
        Option.bind (binary_remove_tree (n_left (t_node m i)) m) (\<lambda>m.
        Option.bind (binary_remove_tree (n_right (t_node m i)) m) (\<lambda>m.
        Some (slot_put (Right i) None (slot_put (Left i) None m)))))"

text \<open>The loop that looks for every node and reports the nodes that are not found.\<close>

definition find_all :: "(nat option \<Rightarrow> nat \<Rightarrow> tree_mem \<Rightarrow> nat option option) \<Rightarrow> nat \<Rightarrow> tree_mem \<Rightarrow> nat list option" where
  "find_all search n m =
    each_node (\<lambda>i errs. Option.bind (search (t_head m) i m) (\<lambda>res. Some (if res = None then errs @ [i] else errs))) [0..<n] []"

text \<open>A method returns the nodes it reports and the array.\<close>

definition stress_tree_binary :: "nat \<Rightarrow> tree_mem \<Rightarrow> (nat list \<times> tree_mem) option" where
  "stress_tree_binary n m =
    Option.bind (each_node (binary_insert Head) [0..<n] (m\<lparr>t_head := None\<rparr>)) (\<lambda>m.
    Option.bind (find_all binary_find n m) (\<lambda>errs.
    Option.bind (binary_remove_tree (t_head m) m) (\<lambda>m.
    Some (errs, m))))"

section \<open>AVL trees\<close>

text \<open>What insertion does at a node after its left or its right subtree has grown.\<close>

definition avl_left_grown :: "slot \<Rightarrow> tree_mem \<Rightarrow> bool \<Rightarrow> (tree_mem \<times> bool) option" where
  "avl_left_grown root m taller =
    Option.bind (slot_get m root) (\<lambda>r.
      if n_bf (t_node m r) = EH then Some (set_bf r LH m, True)
      else if n_bf (t_node m r) = RH then Some (set_bf r EH m, False)
      else if n_bf (t_node m r) = LH then
        Option.bind (n_left (t_node m r)) (\<lambda>p.
          if n_bf (t_node m p) = LH then
            let m = slot_put (Left r) (n_right (t_node m p)) m;
                m = slot_put (Right p) (Some r) m;
                m = set_bf p EH m;
                m = set_bf r EH m
            in Some (slot_put root (Some p) m, False)
          else
            Option.bind (n_right (t_node m p)) (\<lambda>q.
              let m = slot_put (Left r) (n_right (t_node m q)) m;
                  m = slot_put (Right q) (Some r) m;
                  m = slot_put (Right p) (n_left (t_node m q)) m;
                  m = slot_put (Left q) (Some p) m;
                  b = n_bf (t_node m q);
                  m = (if b = RH then set_bf p LH (set_bf r EH m)
                       else if b = LH then set_bf p EH (set_bf r RH m)
                       else if b = EH then set_bf p EH (set_bf r EH m) else m);
                  m = set_bf q EH m
              in Some (slot_put root (Some q) m, False)))
      else Some (m, taller))"

definition avl_right_grown :: "slot \<Rightarrow> tree_mem \<Rightarrow> bool \<Rightarrow> (tree_mem \<times> bool) option" where
  "avl_right_grown root m taller =
    Option.bind (slot_get m root) (\<lambda>r.
      if n_bf (t_node m r) = LH then Some (set_bf r EH m, False)
      else if n_bf (t_node m r) = EH then Some (set_bf r RH m, True)
      else if n_bf (t_node m r) = RH then
        Option.bind (n_right (t_node m r)) (\<lambda>p.
          if n_bf (t_node m p) = RH then
            let m = slot_put (Right r) (n_left (t_node m p)) m;
                m = slot_put (Left p) (Some r) m;
                m = set_bf p EH m;
                m = set_bf r EH m
            in Some (slot_put root (Some p) m, False)
          else
            Option.bind (n_left (t_node m p)) (\<lambda>q.
              let m = slot_put (Right r) (n_left (t_node m q)) m;
                  m = slot_put (Left q) (Some r) m;
                  m = slot_put (Left p) (n_right (t_node m q)) m;
                  m = slot_put (Right q) (Some p) m;
                  b = n_bf (t_node m q);
                  m = (if b = LH then set_bf p RH (set_bf r EH m)
                       else if b = RH then set_bf p EH (set_bf r LH m)
                       else if b = EH then set_bf p EH (set_bf r EH m) else m);
                  m = set_bf q EH m
              in Some (slot_put root (Some q) m, False)))
      else Some (m, taller))"

text \<open>The flag taller is passed in and out, as the variable of the caller that the pointer refers to.\<close>

partial_function (option) avl_insert :: "slot \<Rightarrow> nat \<Rightarrow> tree_mem \<Rightarrow> bool \<Rightarrow> (tree_mem \<times> bool) option" where
  "avl_insert root node m taller =
    (case slot_get m root of
       None \<Rightarrow>
        let m = slot_put root (Some node) m;
            m = slot_put (Left node) None m;
            m = slot_put (Right node) None m
        in Some (set_bf node EH m, True)
     | Some r \<Rightarrow>
        if n_value (t_node m node) < n_value (t_node m r) then
          Option.bind (avl_insert (Left r) node m False) (\<lambda>(m, sub_taller).
            if sub_taller then avl_left_grown root m taller else Some (m, taller))
        else if n_value (t_node m node) > n_value (t_node m r) then
          Option.bind (avl_insert (Right r) node m False) (\<lambda>(m, sub_taller).
            if sub_taller then avl_right_grown root m taller else Some (m, False))
        else Some (m, False))"

partial_function (option) avl_find :: "nat option \<Rightarrow> nat \<Rightarrow> tree_mem \<Rightarrow> nat option option" where
  "avl_find head node m =
    (case head of
       None \<Rightarrow> Some None
     | Some h \<Rightarrow>
        if n_value (t_node m node) = n_value (t_node m h) then Some (Some h)
        else avl_find (if n_value (t_node m node) \<le> n_value (t_node m h) then n_left (t_node m h) else n_right (t_node m h)) node m)"

text \<open>Removal only visits the nodes.\<close>

partial_function (option) avl_remove_tree :: "nat option \<Rightarrow> tree_mem \<Rightarrow> tree_mem option" where
  "avl_remove_tree node m =
    (case node of
       None \<Rightarrow> Some m
     | Some i \<Rightarrow>
        Option.bind (avl_remove_tree (n_left (t_node m i)) m) (\<lambda>m. avl_remove_tree (n_right (t_node m i)) m))"

definition stress_tree_avl :: "nat \<Rightarrow> tree_mem \<Rightarrow> (nat list \<times> tree_mem) option" where
  "stress_tree_avl n m =
    Option.bind (each_node (\<lambda>i m. map_option fst (avl_insert Head i m False)) [0..<n] (m\<lparr>t_head := None\<rparr>)) (\<lambda>m.
    Option.bind (find_all avl_find n m) (\<lambda>errs.
    Option.bind (avl_remove_tree (t_head m) m) (\<lambda>m.
    Some (errs, m))))"

section \<open>The stressor\<close>

text \<open>The methods by the number of their row; rb and splay belong to another library.\<close>

definition stress_tree_all ::
    "(nat \<Rightarrow> tree_mem \<Rightarrow> (nat list \<times> tree_mem) option) \<Rightarrow> (nat \<Rightarrow> tree_mem \<Rightarrow> (nat list \<times> tree_mem) option) \<Rightarrow>
     nat \<Rightarrow> tree_mem \<Rightarrow> (nat list \<times> tree_mem) option" where
  "stress_tree_all rb splay n m =
    Option.bind (rb n m) (\<lambda>(e1, m).
    Option.bind (splay n m) (\<lambda>(e2, m).
    Option.bind (stress_tree_binary n m) (\<lambda>(e3, m).
    Option.bind (stress_tree_avl n m) (\<lambda>(e4, m).
    Some (e1 @ e2 @ e3 @ e4, m)))))"

definition tree_func ::
    "(nat \<Rightarrow> tree_mem \<Rightarrow> (nat list \<times> tree_mem) option) \<Rightarrow> (nat \<Rightarrow> tree_mem \<Rightarrow> (nat list \<times> tree_mem) option) \<Rightarrow>
     nat \<Rightarrow> nat \<Rightarrow> tree_mem \<Rightarrow> (nat list \<times> tree_mem) option" where
  "tree_func rb splay row =
    (if row = 0 then stress_tree_all rb splay else if row = 1 then stress_tree_avl else if row = 2 then stress_tree_binary
     else if row = 3 then rb else splay)"

definition ror64 :: "u64 \<Rightarrow> u64" where
  "ror64 val = drop_bit 1 val OR push_bit 63 (val AND 1)"

definition set_value :: "nat \<Rightarrow> u64 \<Rightarrow> tree_mem \<Rightarrow> tree_mem" where
  "set_value i v m = m\<lparr>t_node := (t_node m)(i := (t_node m i)\<lparr>n_value := v\<rparr>)\<rparr>"

record tree_drv = drv +
  d_rng :: mwc_t
  d_mem :: tree_mem
  d_errs :: "nat list"

text \<open>The first values: a random number, and the same number rotated with one bit flipped after another.\<close>

definition fill_values :: "nat \<Rightarrow> tree_drv \<Rightarrow> tree_drv" where
  "fill_values n d =
    snd (snd (fold (\<lambda>i (v, bit, d).
      let (v, bit, d) =
        (if bit = 0 then let (v, g) = mwc64 (d_rng d) in (v, 1, d\<lparr>d_rng := g\<rparr>)
         else (v XOR bit, push_bit 1 bit, d))
      in (ror64 v, bit, d\<lparr>d_mem := set_value i v (d_mem d)\<rparr>)) [0..<n] (0, 0 :: u64, d)))"

definition tree_round :: "(nat \<Rightarrow> tree_mem \<Rightarrow> (nat list \<times> tree_mem) option) \<Rightarrow> nat \<Rightarrow> tree_drv \<Rightarrow> tree_drv option" where
  "tree_round func n d =
    Option.bind (func n (d_mem d)) (\<lambda>(errs, m).
      let (rnd, g) = mwc64 (d_rng d);
          m = fold (\<lambda>i m. set_value i (ror64 (n_value (t_node m i) XOR rnd)) m) [0..<n] m
      in Some (inc_counter (d\<lparr>d_rng := g, d_mem := m, d_errs := d_errs d @ errs\<rparr>)))"

text \<open>
  The array comes zeroed from calloc.  The results of calloc and of setting the signal handler are arguments; the exit status is 0, 1
  for a failure or 3 for missing resources.  The jump out of the loop at SIGALRM is left out.
\<close>

definition zero_nodes :: tree_mem where
  "zero_nodes = \<lparr>t_head = None, t_node = \<lambda>i. \<lparr>n_left = None, n_right = None, n_bf = 0, n_value = 0\<rparr>\<rparr>"

text \<open>The number of nodes: the setting, or else the default or the bound that the option flags ask for.\<close>

definition tree_size :: "nat option \<Rightarrow> settings \<Rightarrow> u64 \<Rightarrow> u64" where
  "tree_size proc st flags =
    (case get_setting proc ''tree-size'' st of
       Some (True, Some (V_uint64 v)) \<Rightarrow> v
     | _ \<Rightarrow>
        let size = (250000 :: u64);
            size = (if flags AND OPT_FLAGS_MAXIMIZE \<noteq> 0 then 25000000 else size)
        in if flags AND OPT_FLAGS_MINIMIZE \<noteq> 0 then 1000 else size)"

definition stress_tree ::
    "(nat \<Rightarrow> bool) \<Rightarrow> (nat \<Rightarrow> tree_mem \<Rightarrow> (nat list \<times> tree_mem) option) \<Rightarrow> (nat \<Rightarrow> tree_mem \<Rightarrow> (nat list \<times> tree_mem) option) \<Rightarrow>
     bool \<Rightarrow> bool \<Rightarrow> nat option \<Rightarrow> settings \<Rightarrow> u64 \<Rightarrow> u64 \<Rightarrow> tree_drv \<Rightarrow> (nat \<times> tree_drv) option" where
  "stress_tree keep rb splay calloc_ok handler_ok proc st flags max_ops d =
    (let func = tree_func rb splay (read_ptr proc ''tree-method'' st 0);
         n = unat (tree_size proc st flags)
     in if \<not> calloc_ok then Some (3, d)
        else if \<not> handler_ok then Some (1, d)
        else map_option (Pair 0) (stress_loop keep max_ops (tree_round func n) (fill_values n (d\<lparr>d_mem := zero_nodes\<rparr>))))"

end
