(* ===== verification/Row_Props.thy ===== *)
theory Row_Props
  imports Row_Setters Tree_Model
begin

text \<open>
  What the names of methods and other choices stand for: the names that the manual page lists for each option, in its order, the
  values of the named constants, and the functions that the stressors run for a stored row.
\<close>

section \<open>The documented names\<close>

text \<open>
  The names of stress-ng.1, with the three that it leaves out: the tree method avl, the memory method prime-incdec and the policy
  deadline.
\<close>

definition named_rows :: "(('d opt_env \<Rightarrow> string \<Rightarrow> settings \<Rightarrow> int \<times> settings parsed) \<times> string \<times> string list) list" where
  "named_rows =
    [(stress_set_cpu_method, ''cpu-method'',
       [''all'', ''ackermann'', ''bitops'', ''callfunc'', ''cfloat'', ''cdouble'', ''clongdouble'', ''correlate'',
        ''crc16'', ''decimal32'', ''decimal64'', ''decimal128'', ''dither'', ''djb2a'', ''double'', ''euler'',
        ''explog'', ''factorial'', ''fibonacci'', ''fft'', ''float'', ''fnv1a'', ''gamma'', ''gcd'', ''gray'',
        ''hamming'', ''hanoi'', ''hyperbolic'', ''idct'', ''int8'', ''int16'', ''int32'', ''int64'', ''int128'',
        ''int32float'', ''int32double'', ''int32longdouble'', ''int64float'', ''int64double'', ''int64longdouble'',
        ''int128float'', ''int128double'', ''int128longdouble'', ''int128decimal32'', ''int128decimal64'',
        ''int128decimal128'', ''jenkin'', ''jmp'', ''ln2'', ''longdouble'', ''loop'', ''matrixprod'', ''nsqrt'',
        ''omega'', ''parity'', ''phi'', ''pi'', ''pjw'', ''prime'', ''psi'', ''queens'', ''rand'', ''rand48'',
        ''rgb'', ''sdbm'', ''sieve'', ''stats'', ''sqrt'', ''trig'', ''union'', ''zeta'']),
     (stress_set_cyclic_method, ''cyclic-method'',
       [''clock_ns'', ''itimer'', ''poll'', ''posix_ns'', ''pselect'']),
     (stress_set_funccall_method, ''funccall-method'',
       [''uint8'', ''uint16'', ''uint32'', ''uint64'', ''uint128'', ''float'', ''double'', ''longdouble'']),
     (stress_set_memthrash_method, ''memthrash-method'',
       [''all'', ''chunk1'', ''chunk8'', ''chunk64'', ''chunk256'', ''chunkpage'', ''flip'', ''flush'', ''lock'',
        ''matrix'', ''memset'', ''mfence'', ''prefetch'', ''random'', ''spinread'', ''spinwrite'']),
     (stress_set_rawdev_method, ''rawdev-method'',
       [''all'', ''sweep'', ''wiggle'', ''ends'', ''random'', ''burst'']),
     (stress_set_tree_method, ''tree-method'',
       [''all'', ''binary'', ''rb'', ''splay'', ''avl'']),
     (stress_set_vm_method, ''vm-method'',
       [''all'', ''flip'', ''galpat-0'', ''galpat-1'', ''gray'', ''incdec'', ''inc-nybble'', ''rand-set'',
        ''rand-sum'', ''read64'', ''ror'', ''swap'', ''move-inv'', ''modulo-x'', ''prime-0'', ''prime-1'',
        ''prime-gray-0'', ''prime-gray-1'', ''rowhammer'', ''walk-0d'', ''walk-1d'', ''walk-0a'', ''walk-1a'',
        ''write64'', ''zero-one'', ''prime-incdec'']),
     (stress_set_wcs_method, ''wcs-method'',
       [''all'', ''wcscasecmp'', ''wcscat'', ''wcschr'', ''wcscoll'', ''wcscmp'', ''wcscpy'', ''wcslen'',
        ''wcsncasecmp'', ''wcsncat'', ''wcsncmp'', ''wcsrchr'', ''wcsxfrm'']),
     (stress_set_zlib_method, ''zlib-method'',
       [''00ff'', ''ascii01'', ''asciidigits'', ''binary'', ''fixed'', ''latin'', ''nybble'', ''objcode'',
        ''random'', ''rarely1'', ''rarely0'', ''text'']),
     (stress_set_cyclic_policy, ''cyclic-policy'',
       [''fifo'', ''rr'', ''deadline''])]"

text \<open>Options whose names stand for numbers: ways to send, orders, directions, and the constants for sockets and advice of Linux.\<close>

definition named_values :: "(('d opt_env \<Rightarrow> string \<Rightarrow> settings \<Rightarrow> int \<times> settings parsed) \<times> string \<times> (string \<times> setting_value) list) list" where
  "named_values =
    [(stress_set_dccp_opts, ''dccp-opts'',
       [(''send'', V_sint 1), (''sendmsg'', V_sint 2), (''sendmmsg'', V_sint 3)]),
     (stress_set_dentry_order, ''dentry-order'',
       [(''forward'', V_uint8 0), (''reverse'', V_uint8 1), (''stride'', V_uint8 2), (''random'', V_uint8 3)]),
     (stress_set_ioport_opts, ''ioport-opts'',
       [(''in'', V_uint32 1), (''out'', V_uint32 2), (''inout'', V_uint32 3)]),
     (stress_set_socket_opts, ''sock-opts'',
       [(''send'', V_sint 1), (''sendmsg'', V_sint 2), (''sendmmsg'', V_sint 3)]),
     (stress_set_socket_type, ''sock-type'',
       [(''stream'', V_sint 1), (''seqpacket'', V_sint 5)]),
     (stress_set_stream_madvise, ''stream-madvise'',
       [(''hugepage'', V_sint 14), (''nohugepage'', V_sint 15), (''normal'', V_sint 0)]),
     (stress_set_vm_madvise, ''vm-madvise'',
       [(''dontneed'', V_sint 4), (''hugepage'', V_sint 14), (''mergeable'', V_sint 12), (''nohugepage'', V_sint 15), (''normal'', V_sint 0), (''random'', V_sint 1), (''sequential'', V_sint 2), (''unmergeable'', V_sint 13), (''willneed'', V_sint 3)])]"

definition named_vm :: "(string \<times> vm_method) list" where
  "named_vm =
    [(''all'', stress_vm_all),
     (''flip'', total stress_vm_flip),
     (''galpat-0'', stress_vm_galpat_zero),
     (''galpat-1'', stress_vm_galpat_one),
     (''gray'', total stress_vm_gray),
     (''incdec'', total stress_vm_incdec),
     (''inc-nybble'', total stress_vm_inc_nybble),
     (''rand-set'', total stress_vm_rand_set),
     (''rand-sum'', total stress_vm_rand_sum),
     (''read64'', total stress_vm_read64),
     (''ror'', total stress_vm_ror),
     (''swap'', total stress_vm_swap),
     (''move-inv'', total stress_vm_moving_inversion),
     (''modulo-x'', total stress_vm_modulo_x),
     (''prime-0'', total stress_vm_prime_zero),
     (''prime-1'', total stress_vm_prime_one),
     (''prime-gray-0'', total stress_vm_prime_gray_zero),
     (''prime-gray-1'', total stress_vm_prime_gray_one),
     (''rowhammer'', total stress_vm_rowhammer),
     (''walk-0d'', total stress_vm_walking_zero_data),
     (''walk-1d'', total stress_vm_walking_one_data),
     (''walk-0a'', total stress_vm_walking_zero_addr),
     (''walk-1a'', total stress_vm_walking_one_addr),
     (''write64'', total stress_vm_write64),
     (''zero-one'', total stress_vm_zero_one),
     (''prime-incdec'', total stress_vm_prime_incdec)]"

definition named_trees :: "(nat \<Rightarrow> tree_mem \<Rightarrow> (nat list \<times> tree_mem) option) \<Rightarrow> (nat \<Rightarrow> tree_mem \<Rightarrow> (nat list \<times> tree_mem) option) \<Rightarrow>
    (string \<times> (nat \<Rightarrow> tree_mem \<Rightarrow> (nat list \<times> tree_mem) option)) list" where
  "named_trees rb splay =
    [(''all'', stress_tree_all rb splay), (''binary'', stress_tree_binary), (''rb'', rb), (''splay'', splay), (''avl'', stress_tree_avl)]"

text \<open>The setter accepts the name, look-up then returns the value, and no other setting has changed.\<close>

definition stores :: "('d opt_env \<Rightarrow> string \<Rightarrow> settings \<Rightarrow> int \<times> settings parsed) \<Rightarrow> string \<Rightarrow> 'd opt_env \<Rightarrow> string \<Rightarrow> settings \<Rightarrow>
    setting_value \<Rightarrow> bool" where
  "stores f setting env name st v \<longleftrightarrow> (\<exists>st'. f env name st = (0, Inr st') \<and> get_setting (oe_proc env) setting st' = Some (True, Some v)
    \<and> (\<forall>other. other \<noteq> setting \<longrightarrow> get_setting (oe_proc env) other st' = get_setting (oe_proc env) other st))"

section \<open>Tables and names\<close>

lemmas row_setter_defs =
  stress_set_cpu_method_def stress_set_cyclic_method_def stress_set_funccall_method_def stress_set_memthrash_method_def
  stress_set_rawdev_method_def stress_set_tree_method_def stress_set_vm_method_def stress_set_wcs_method_def
  stress_set_zlib_method_def stress_set_cyclic_policy_def

lemma table_names: "fst ` set (method_rows names) = set names" "fst ` set (size_rows names) = set names"
  by (simp_all add: method_rows_def size_rows_def flip: set_map)

definition row_names_ok :: "(('d opt_env \<Rightarrow> string \<Rightarrow> settings \<Rightarrow> int \<times> settings parsed) \<times> string \<times> string list) \<Rightarrow> bool" where
  "row_names_ok = (\<lambda>(f, setting, names). \<exists>table. good_rows table \<and> fst ` set table = set names \<and> (\<forall>env. f env = set_row env setting table))"

lemma row_names_okI:
  "(\<And>env. f env = set_row env setting table) \<Longrightarrow> fst ` set table = set names \<Longrightarrow> good_rows table \<Longrightarrow> row_names_ok (f, setting, names)"
  by (auto simp: row_names_ok_def)

lemma named_rows_ok: "list_all row_names_ok named_rows"
  unfolding named_rows_def list.pred_inject
  by (intro conjI list_all_Nil; rule row_names_okI, rule row_setter_defs, unfold table_names, rule subset_antisym)
    (simp_all add: good_method_rows good_size_rows good_vm_rows cpu_methods_def vm_methods_def vm_single_methods_def)

lemma named_values_ok: "list_all (\<lambda>(f, setting, table). (\<forall>env. f env = set_row env setting table) \<and> good_rows table) named_values"
  by (simp add: named_values_def good_rows_def stress_set_dccp_opts_def stress_set_dentry_order_def stress_set_ioport_opts_def
    stress_set_socket_opts_def stress_set_socket_type_def stress_set_stream_madvise_def stress_set_vm_madvise_def)

text \<open>The rows that the names of a method table choose.\<close>

lemma chosen_row:
  assumes f: "f env = set_row env setting (method_rows names)" and n: "length names \<le> 2 ^ 64"
    and st: "settings_rel st as es" "s_heap st a = None" "own_last (oe_proc env) es" and env: "oe_mem env = Some a" "oe_dup env"
    and r: "f env name st = (0, Inr st')"
  shows "\<exists>i < length names. names ! i = name \<and> read_ptr (oe_proc env) setting st' d = i"
proof (cases "map_of (method_rows names) name")
  case None
  then show ?thesis using r f by (simp add: set_row_def)
next
  case (Some v)
  then obtain i where i: "i < length names" "names ! i = name" "v = V_uintptr (of_nat i)"
    using map_of_SomeD [OF Some] by (auto simp: method_rows_def in_set_zip)
  have "get_setting (oe_proc env) setting st' = Some (True, Some v)"
    using set_row_result [OF good_method_rows [OF n] st env, where name = name and setting = setting] Some r f by simp
  moreover have "unat (of_nat i :: u64) = i" using i(1) n by (intro unat_of_nat_small) simp
  ultimately show ?thesis using i by (simp add: read_ptr_def)
qed

lemma vm_rows: "list_all (\<lambda>(name, f). map_of named_vm name = Some f) vm_methods"
  by (simp add: vm_methods_def vm_single_methods_def named_vm_def)

lemma tree_rows:
  "i < 5 \<Longrightarrow> map_of (named_trees rb splay) ([''all'', ''avl'', ''binary'', ''rb'', ''splay''] ! i) = Some (tree_func rb splay i)"
  by (auto simp: named_trees_def tree_func_def numeral_eq_Suc less_Suc_eq)

lemma refused_or_stored:
  assumes f: "f env = set_row env setting table" "good_rows table"
    and st: "settings_rel st as es" "s_heap st a = None" "own_last (oe_proc env) es" and env: "oe_mem env = Some a" "oe_dup env"
  shows "map_of table name = None \<Longrightarrow> f env name st = (- 1, Inr st)"
    and "map_of table name = Some v \<Longrightarrow> stores f setting env name st v"
    and "stores f setting env name st v \<Longrightarrow> map_of table name = Some v"
proof -
  note r = set_row_result [OF f(2) st env, where name = name and setting = setting]
  show "map_of table name = None \<Longrightarrow> f env name st = (- 1, Inr st)" using r f(1) by simp
  show "map_of table name = Some v \<Longrightarrow> stores f setting env name st v" using r f(1) by (simp add: stores_def)
  show "stores f setting env name st v \<Longrightarrow> map_of table name = Some v"
    using r f(1) by (cases "map_of table name") (auto simp: stores_def)
qed

section \<open>Names choose what they say\<close>



end
