(* ===== verification/Cpu_Driver.thy ===== *)
theory Cpu_Driver
  imports Row_Setters Driver
begin

text \<open>
  The driver of the processor stressor in stress-cpu.c: the method that goes through all the
  others in turn, and the loops that run a method at full load or in slices.  The methods themselves are an
  argument here; the other theories on stress-cpu.c treat them one by one.
\<close>

section \<open>The stressor\<close>

text \<open>
  The state adds the static counter of the method that runs all, and whatever the methods work on.  The table of the methods is an
  argument, since the enclave has a table of its own.
\<close>

record 's cpu_drv = drv +
  d_all :: nat
  d_work :: 's

definition stress_cpu_all :: "string list \<Rightarrow> (nat \<Rightarrow> 's \<Rightarrow> 's) \<Rightarrow> 's cpu_drv \<Rightarrow> 's cpu_drv" where
  "stress_cpu_all methods body d =
    (let d = d\<lparr>d_work := body (d_all d) (d_work d), d_all := d_all d + 1\<rparr>
     in if d_all d = length methods then d\<lparr>d_all := 1\<rparr> else d)"

definition cpu_func :: "string list \<Rightarrow> (nat \<Rightarrow> 's \<Rightarrow> 's) \<Rightarrow> nat \<Rightarrow> 's cpu_drv \<Rightarrow> 's cpu_drv" where
  "cpu_func methods body m d = (if m = 0 then stress_cpu_all methods body d else d\<lparr>d_work := body m (d_work d)\<rparr>)"

text \<open>A slice of a number of calls.\<close>

primrec call_slice :: "(nat \<Rightarrow> bool) \<Rightarrow> ('s cpu_drv \<Rightarrow> 's cpu_drv) \<Rightarrow> nat \<Rightarrow> 's cpu_drv \<Rightarrow> 's cpu_drv" where
  "call_slice keep func 0 d = d"
| "call_slice keep func (Suc j) d =
    (let (k, d) = keep_flag keep (func d) in if k then call_slice keep func j (inc_counter d) else d)"

text \<open>A slice of time; \<open>early t\<close> tells whether the clock read at tick \<open>t\<close> is before the end of the slice.\<close>

partial_function (option) time_slice ::
    "(nat \<Rightarrow> bool) \<Rightarrow> (nat \<Rightarrow> bool) \<Rightarrow> ('s cpu_drv \<Rightarrow> 's cpu_drv) \<Rightarrow> 's cpu_drv \<Rightarrow> 's cpu_drv option" where
  "time_slice keep early func d =
    (let d = func d; t2 = d_tick d; (k, d) = keep_flag keep d
     in if \<not> k then Some d
        else let d = inc_counter d in if early t2 then time_slice keep early func d else Some d)"

text \<open>One round at part load; the delay at its end does not change the state.\<close>

definition part_load ::
    "(nat \<Rightarrow> bool) \<Rightarrow> (nat \<Rightarrow> bool) \<Rightarrow> int \<Rightarrow> ('s cpu_drv \<Rightarrow> 's cpu_drv) \<Rightarrow> 's cpu_drv \<Rightarrow> 's cpu_drv option" where
  "part_load keep early cpu_load_slice func d =
    (if cpu_load_slice < 0 then Some (call_slice keep func (nat (- cpu_load_slice)) d) else time_slice keep early func d)"

text \<open>The result is the exit status, which is success on every path, and the final state.\<close>

definition stress_cpu ::
    "(nat \<Rightarrow> bool) \<Rightarrow> (nat \<Rightarrow> bool) \<Rightarrow> (nat \<Rightarrow> 's \<Rightarrow> 's) \<Rightarrow> nat option \<Rightarrow> settings \<Rightarrow> u64 \<Rightarrow> 's cpu_drv \<Rightarrow> (nat \<times> 's cpu_drv) option" where
  "stress_cpu keep early body proc st max_ops d =
    (let cpu_load = read_int32 proc ''cpu-load'' st 100;
         cpu_load_slice = read_int32 proc ''cpu-load-slice'' st (- 64);
         func = cpu_func cpu_methods body (read_ptr proc ''cpu-method'' st 0)
     in if cpu_load = 100 then map_option (Pair 0) (stress_loop keep max_ops (\<lambda>d. Some (inc_counter (func d))) d)
        else if cpu_load = 0 then Some (0, d)
        else map_option (Pair 0) (stress_loop keep max_ops (part_load keep early cpu_load_slice func) d))"

section \<open>The methods that are called\<close>

text \<open>The methods that \<open>m\<close> operations of the method \<open>i\<close> run: the method itself, or all \<open>n\<close> others in turn.\<close>

definition calls :: "nat \<Rightarrow> nat \<Rightarrow> nat \<Rightarrow> nat list" where
  "calls n i m = map (\<lambda>k. if i = 0 then 1 + k mod n else i) [0..<m]"

lemma calls_0 [simp]: "calls n i 0 = []"
  by (simp add: calls_def)

lemma calls_Suc: "calls n i (Suc m) = calls n i m @ [if i = 0 then 1 + m mod n else i]"
  by (simp add: calls_def)

definition called :: "string list \<Rightarrow> (nat \<Rightarrow> 's \<Rightarrow> 's) \<Rightarrow> nat \<Rightarrow> 's \<Rightarrow> nat \<Rightarrow> 's cpu_drv \<Rightarrow> bool" where
  "called methods body i w m d \<longleftrightarrow> d_counter d = of_nat m \<and> (i = 0 \<longrightarrow> d_all d = 1 + m mod (length methods - 1))
    \<and> d_work d = fold body (calls (length methods - 1) i m) w"

lemma length_cpu_methods: "length cpu_methods = 71"
  by (simp add: cpu_methods_def)

lemma next_method: "(if Suc (1 + m mod (n - 1)) = n then 1 else Suc (1 + m mod (n - 1))) = 1 + Suc m mod (n - 1 :: nat)"
  by (cases n) (auto simp: mod_Suc)

lemma cpu_func_simps [simp]:
  "d_counter (cpu_func methods body i d) = d_counter d"
  "d_tick (cpu_func methods body i d) = d_tick d"
  "d_work (cpu_func methods body i d) = body (if i = 0 then d_all d else i) (d_work d)"
  "d_all (cpu_func methods body i d) = (if i = 0 then if Suc (d_all d) = length methods then 1 else Suc (d_all d) else d_all d)"
  by (simp_all add: cpu_func_def stress_cpu_all_def Let_def)

lemma called_tick [simp]: "called methods body i w m (d\<lparr>d_tick := t\<rparr>) = called methods body i w m d"
  by (simp add: called_def)

lemma inc_counter_simps [simp]:
  "inc_counter (d\<lparr>d_tick := t\<rparr>) = (inc_counter d)\<lparr>d_tick := t\<rparr>"
  "d_tick (inc_counter d) = d_tick d"
  by (simp_all add: inc_counter_def)

lemma called_Suc:
  assumes "called methods body i w m d"
  shows "called methods body i w (Suc m) (inc_counter (cpu_func methods body i d))"
proof -
  have "d_all (cpu_func methods body i d) = 1 + Suc m mod (length methods - 1)" if "i = 0"
  proof -
    have "d_all d = 1 + m mod (length methods - 1)" using assms that by (simp only: called_def)
    then show ?thesis using that by (simp only: cpu_func_simps next_method simp_thms if_True)
  qed
  with assms show ?thesis
    by (simp add: called_def inc_counter_def calls_Suc del: cpu_func_simps(4))
qed

lemma called_slice:
  "called methods body i w m d \<Longrightarrow> called methods body i w (m + j) (call_slice (\<lambda>t. True) (cpu_func methods body i) j d)
    \<and> d_tick d \<le> d_tick (call_slice (\<lambda>t. True) (cpu_func methods body i) j d)"
proof (induction j arbitrary: m d)
  case (Suc j)
  let ?d = "(inc_counter (cpu_func methods body i d))\<lparr>d_tick := Suc (d_tick d)\<rparr>"
  have "called methods body i w (Suc m) ?d" using called_Suc [OF Suc.prems] by simp
  from Suc.IH [OF this] show ?case by (simp add: keep_flag_def)
qed simp

interpretation full: counted_step "\<lambda>d. Some (inc_counter (cpu_func methods body i d))" "called methods body i w" 1
  for methods and body :: "nat \<Rightarrow> 's \<Rightarrow> 's" and i w
  by unfold_locales (auto simp: called_Suc, simp add: called_def)

interpretation sliced: counted_step "part_load (\<lambda>t. True) early (- int (Suc L)) (cpu_func methods body i)" "\<lambda>m. called methods body i w (Suc L * m)" "Suc L"
  for early and L :: nat and methods and body :: "nat \<Rightarrow> 's \<Rightarrow> 's" and i w
proof (unfold_locales, goal_cases)
  case (1 m d)
  have "nat (- (- int (Suc L))) = Suc L" by simp
  then have "part_load (\<lambda>t. True) early (- int (Suc L)) (cpu_func methods body i) d = Some (call_slice (\<lambda>t. True) (cpu_func methods body i) (Suc L) d)"
    by (simp only: part_load_def) simp
  moreover have "Suc L * m + Suc L = Suc L * Suc m" by simp
  ultimately show ?case using called_slice [OF 1, of "Suc L"] by metis
qed (simp only: called_def, simp_all)

section \<open>Properties\<close>

lemma method_rows_nth:
  assumes "distinct names" "i < length names"
  shows "map_of (method_rows names) (names ! i) = Some (V_uintptr (of_nat i))"
proof -
  have "(names ! i, V_uintptr (of_nat i)) \<in> set (method_rows names)"
    using assms(2) by (auto simp: method_rows_def in_set_zip)
  moreover have "distinct (map fst (method_rows names))" using assms(1) by (simp add: method_rows_def)
  ultimately show ?thesis by simp
qed

lemma distinct_cpu_methods: "distinct cpu_methods"
  by (simp add: cpu_methods_def)

lemma good_cpu_rows: "good_rows (method_rows cpu_methods)"
  by (rule good_method_rows) (simp add: length_cpu_methods)

lemma called_start: "d_counter d = 0 \<Longrightarrow> d_all d = 1 \<Longrightarrow> called methods body i (d_work d) 0 d"
  by (simp add: called_def)

lemma stress_cpu_runs:
  assumes "read_ptr proc ''cpu-method'' st 0 = i" and "read_int32 proc ''cpu-load'' st 100 = load" "load \<noteq> 0"
    and "read_int32 proc ''cpu-load-slice'' st (- 64) = - int (Suc L)" and "0 < n" "n + Suc L < 2 ^ 64"
    and d: "d_counter d = 0" "d_all d = 1"
  shows "\<exists>d'. stress_cpu (\<lambda>t. True) early body proc st (of_nat n) d = Some (0, d')
    \<and> called cpu_methods body i (d_work d) (if load = 100 then n else Suc L * ((n + L) div Suc L)) d'"
proof (cases "load = 100")
  case True
  then show ?thesis using full.loop_bounded [OF called_start [OF d], of n cpu_methods body i] assms
    by (auto simp: stress_cpu_def Let_def)
next
  case False
  have "called cpu_methods body i (d_work d) (Suc L * 0) d" using called_start [OF d] by simp
  from sliced.loop_bounded [OF this, of n early] False assms show ?thesis
    by (auto simp: stress_cpu_def Let_def)
qed

text \<open>
  C9: after the option for the method the processor stressor runs that method, or every other method in turn for the
  method that runs all, once for each operation it counts.  It ends with success, at full load after exactly the operations asked for
  and in slices of calls after the first number of whole slices that reaches them; and at full load it ends one operation
  after the flag is cleared whatever the limit.
\<close>

theorem cpu_method_runs:
  assumes i: "i < length cpu_methods" and n: "0 < n" "n + Suc L < 2 ^ 64" and d: "d_counter d = 0" "d_all d = 1"
    and st: "settings_rel st as es" "s_heap st a = None" "own_last (oe_proc env) es" and env: "oe_mem env = Some a" "oe_dup env"
    and load: "read_int32 (oe_proc env) ''cpu-load'' st 100 = load" "load \<noteq> 0"
    and slice: "read_int32 (oe_proc env) ''cpu-load-slice'' st (- 64) = - int (Suc L)"
  shows "\<exists>st'. stress_set_cpu_method env (cpu_methods ! i) st = (0, Inr st')
    \<and> (\<exists>d'. stress_cpu (\<lambda>t. True) early body (oe_proc env) st' (of_nat n) d = Some (0, d')
        \<and> called cpu_methods body i (d_work d) (if load = 100 then n else Suc L * ((n + L) div Suc L)) d')
    \<and> (load = 100 \<longrightarrow> (\<forall>keep max_ops T. (\<forall>t\<ge>T. \<not> keep t) \<longrightarrow>
        (\<exists>d' k. stress_cpu keep early body (oe_proc env) st' max_ops d = Some (0, d') \<and> called cpu_methods body i (d_work d) k d'
          \<and> 0 < k \<and> k \<le> 1 + (T - d_tick d))))"
proof -
  obtain st' where st': "stress_set_cpu_method env (cpu_methods ! i) st = (0, Inr st')"
    and m: "get_setting (oe_proc env) ''cpu-method'' st' = Some (True, Some (V_uintptr (of_nat i)))"
    and o: "\<And>other. other \<noteq> ''cpu-method'' \<Longrightarrow> get_setting (oe_proc env) other st' = get_setting (oe_proc env) other st"
    using set_row_result [OF good_cpu_rows st env, where name = "cpu_methods ! i" and setting = "''cpu-method''"]
    unfolding method_rows_nth [OF distinct_cpu_methods i] option.case by (auto simp: stress_set_cpu_method_def)
  have p: "read_ptr (oe_proc env) ''cpu-method'' st' 0 = i"
    using i by (simp add: read_ptr_def m length_cpu_methods unat_of_nat_small)
  have r: "read_int32 (oe_proc env) ''cpu-load'' st' 100 = load"
    "read_int32 (oe_proc env) ''cpu-load-slice'' st' (- 64) = - int (Suc L)"
    using o load slice by (simp_all add: read_int32_def)
  have stops: "\<exists>d' k. stress_cpu keep early body (oe_proc env) st' max_ops d = Some (0, d') \<and> called cpu_methods body i (d_work d) k d'
      \<and> 0 < k \<and> k \<le> 1 + (T - d_tick d)" if "load = 100" "\<forall>t\<ge>T. \<not> keep t" for keep max_ops T
  proof -
    have s: "\<not> keep t" if "T \<le> t" for t using that \<open>\<forall>t\<ge>T. \<not> keep t\<close> by blast
    from full.loop_stops [OF called_start [OF d], where keep = keep, OF s] that(1) show ?thesis
      by (simp add: stress_cpu_def p r)
  qed
  show ?thesis
    using st' stress_cpu_runs [OF p r(1) load(2) r(2) n d] stops by (intro exI [of _ st'] conjI) blast+
qed

lemma init_reads:
  "read_int32 None ''cpu-load'' settings_init 100 = 100" "read_int32 None ''cpu-load-slice'' settings_init (- 64) = - int (Suc 63)"
  using get_setting_lookup [OF settings_rel_init] by (simp_all add: read_int32_def visible_def)

theorem cpu_method_runs_witness:
  "\<exists>st'. stress_set_cpu_method plain_env ''all'' settings_init = (0, Inr st')
    \<and> (\<exists>d'. stress_cpu (\<lambda>t. True) (\<lambda>t. False) (\<lambda>i s. s @ [i]) None st' 72 \<lparr>d_counter = 0, d_tick = 0, d_all = 1, d_work = []\<rparr> = Some (0, d')
        \<and> d_counter d' = 72 \<and> d_work d' = [1..<71] @ [1, 2])"
proof -
  have all: "cpu_methods ! 0 = ''all''" by (simp add: cpu_methods_def)
  have append: "fold (\<lambda>i s. s @ [i]) xs ys = ys @ xs" for xs ys :: "nat list" by (induction xs arbitrary: ys) simp_all
  have calls: "calls 70 0 72 = [1..<71] @ [1, 2]" by (simp add: calls_def upt_rec)
  show ?thesis
    using cpu_method_runs [where i = 0 and n = 72 and L = 63 and load = 100 and early = "\<lambda>t. False" and body = "\<lambda>i s. s @ [i]"
        and d = "\<lparr>d_counter = 0, d_tick = 0, d_all = 1, d_work = []\<rparr>", OF _ _ _ _ _ plain_env_store] init_reads
    by (auto simp: all called_def append calls length_cpu_methods plain_env_def)
qed

end
