(* ===== verification/Vm_Driver.thy ===== *)
theory Vm_Driver
  imports Row_Setters Vm_Props
begin

text \<open>
  The driver of the memory stressor, stress_vm in stress-vm.c: a child process maps the buffer and runs the methods on it, and is
  started again when it is killed for lack of memory; the parent adds up the bit errors and decides the exit status.
\<close>

section \<open>The machine\<close>

datatype fork_answer = Forked | Fork_again | Fork_failed

text \<open>
  The answers of the kernel, each asked at a tick: the flag g_keep_stressing_flag, mapping the page of the error counter and the
  buffer, creating a process, and waiting for it.  A child can be killed during a method; then it leaves a value in the shared counter of operations.  The enclave stressor extends the record, and the state below.
\<close>

record vm_os =
  os_keep :: "nat \<Rightarrow> bool"
  os_page_map :: "nat \<Rightarrow> bool"
  os_map :: "nat \<Rightarrow> bool"
  os_fork :: "nat \<Rightarrow> fork_answer"
  os_wait :: "nat \<Rightarrow> bool"
  os_killed :: "nat \<Rightarrow> u64 option"

text \<open>
  The state: the data of the methods with the shared counter of operations, the shared count of bit errors, the tick, and the two variables of the
  child that tell whether it has a buffer and how often it failed to get one.
\<close>

record vm_run =
  r_st :: vm_st
  r_errs :: u64
  r_tick :: nat
  r_mapped :: bool
  r_retries :: nat

text \<open>How a child ends: by exit, by returning from the stressor, by abort (in the enclave stressor only), or by SIGKILL.\<close>

datatype child_end = Child_exit | Child_return | Child_abort | Child_killed

definition VM_BOGO_SHIFT :: nat where "VM_BOGO_SHIFT = 12"
definition NO_MEM_RETRIES_MAX :: nat where "NO_MEM_RETRIES_MAX = 100"

definition read_flag :: "'o vm_os_scheme \<Rightarrow> 'r vm_run_scheme \<Rightarrow> bool \<times> 'r vm_run_scheme" where
  "read_flag os r = (os_keep os (r_tick r), r\<lparr>r_tick := r_tick r + 1\<rparr>)"

definition keep_stressing_vm :: "'o vm_os_scheme \<Rightarrow> u64 \<Rightarrow> 'r vm_run_scheme \<Rightarrow> bool \<times> 'r vm_run_scheme" where
  "keep_stressing_vm os max_ops r =
    (let (k, r) = read_flag os r
     in (k \<and> (max_ops = 0 \<or> drop_bit VM_BOGO_SHIFT (vcount (r_st r)) < max_ops), r))"

section \<open>The child\<close>

text \<open>
  One round of the child.  A mapping is new memory and so it is zero.  After a method the child sleeps when the option for
  hanging is set, for ever when it is 0.
\<close>

definition vm_call :: "'o vm_os_scheme \<Rightarrow> vm_env \<Rightarrow> vm_method \<Rightarrow> u64 \<Rightarrow> 'r vm_run_scheme \<Rightarrow> (child_end option \<times> 'r vm_run_scheme) option" where
  "vm_call os env f vm_hang r =
    (case os_killed os (r_tick r) of
       Some c \<Rightarrow> Some (Some Child_killed, r\<lparr>r_st := (r_st r)\<lparr>vcount := c\<rparr>\<rparr>)
     | None \<Rightarrow>
        (case f env (mincore_touch_pages env (r_st r)) of
           None \<Rightarrow> None
         | Some (e, st) \<Rightarrow> if vm_hang = 0 then None else Some (None, r\<lparr>r_st := st, r_errs := r_errs r + e, r_retries := 0\<rparr>)))"

definition vm_round :: "vm_os \<Rightarrow> vm_env \<Rightarrow> vm_method \<Rightarrow> u64 \<Rightarrow> bool \<Rightarrow> nat \<Rightarrow> vm_run \<Rightarrow> (child_end option \<times> vm_run) option" where
  "vm_round os env f vm_hang keep buf_sz r =
    (if NO_MEM_RETRIES_MAX \<le> r_retries r then Some (Some Child_exit, r)
     else if \<not> keep \<or> \<not> r_mapped r then
       (let (k, r) = read_flag os r
        in if \<not> k then Some (Some Child_return, r)
           else if \<not> os_map os (r_tick r) then Some (None, r\<lparr>r_mapped := False, r_retries := r_retries r + 1\<rparr>)
           else vm_call os env f vm_hang (r\<lparr>r_mapped := True, r_st := (r_st r)\<lparr>vmem := replicate buf_sz 0\<rparr>\<rparr>))
     else vm_call os env f vm_hang r)"

text \<open>The loop of a child around its rounds.\<close>

partial_function (option) child_loop ::
    "'o vm_os_scheme \<Rightarrow> u64 \<Rightarrow> ('r vm_run_scheme \<Rightarrow> (child_end option \<times> 'r vm_run_scheme) option) \<Rightarrow> 'r vm_run_scheme \<Rightarrow> (child_end \<times> 'r vm_run_scheme) option" where
  "child_loop os max_ops step r =
    Option.bind (step r) (\<lambda>(e, r).
      case e of
        Some e \<Rightarrow> Some (e, r)
      | None \<Rightarrow>
         let (k, r) = keep_stressing_vm os max_ops r
         in if k then child_loop os max_ops step r else Some (Child_exit, r))"

definition vm_child ::
    "vm_os \<Rightarrow> vm_env \<Rightarrow> vm_method \<Rightarrow> u64 \<Rightarrow> bool \<Rightarrow> nat \<Rightarrow> u64 \<Rightarrow> vm_run \<Rightarrow> (child_end \<times> vm_run) option" where
  "vm_child os env f vm_hang keep buf_sz max_ops = child_loop os max_ops (vm_round os env f vm_hang keep buf_sz)"

section \<open>The parent\<close>

text \<open>
  The parent, for a given child.  After the child only what it shares with the parent has changed: the two counters, and the messages in the log and the record of
  accesses outside the buffer.  The first component of the result counts the restarts.
\<close>

partial_function (option) vm_parent ::
    "'o vm_os_scheme \<Rightarrow> (vm_run \<Rightarrow> (child_end \<times> vm_run) option) \<Rightarrow> nat \<Rightarrow> vm_run \<Rightarrow> (nat \<times> vm_run) option" where
  "vm_parent os child restarts r =
    (let (k, r) = read_flag os r
     in if \<not> k then Some (restarts, r)
        else case os_fork os (r_tick r) of
          Fork_again \<Rightarrow> vm_parent os child restarts r
        | Fork_failed \<Rightarrow> Some (restarts, r)
        | Forked \<Rightarrow>
           Option.bind (child (r\<lparr>r_mapped := False, r_retries := 0\<rparr>)) (\<lambda>(e, c).
             let r = r\<lparr>r_st := (r_st r)\<lparr>vcount := vcount (r_st c), vfails := vfails (r_st c), voob := voob (r_st c)\<rparr>, r_errs := r_errs c, r_tick := r_tick c\<rparr>
             in if os_wait os (r_tick r) \<and> e = Child_killed
                then vm_parent os child (restarts + 1) r
                else Some (restarts, r)))"

text \<open>At most 100 attempts to map the page of the error counter, while the flag is up.\<close>

primrec vm_map_page :: "'o vm_os_scheme \<Rightarrow> nat \<Rightarrow> vm_run \<Rightarrow> bool \<times> vm_run" where
  "vm_map_page os 0 r = (False, r)"
| "vm_map_page os (Suc j) r =
    (let (k, r) = read_flag os r
     in if \<not> k then (False, r)
        else if os_page_map os (r_tick r) then (True, r)
        else vm_map_page os j r)"

definition vm_size :: "nat option \<Rightarrow> settings \<Rightarrow> u64 \<Rightarrow> u64 \<Rightarrow> u64 \<Rightarrow> u64" where
  "vm_size proc st flags num_instances page_size =
    (let vm_bytes = (case get_setting proc ''vm-bytes'' st of
           Some (True, Some (V_size v)) \<Rightarrow> v
         | _ \<Rightarrow> let b = 256 * MB; b = (if flags AND OPT_FLAGS_MAXIMIZE \<noteq> 0 then 4 * GB else b)
                in if flags AND OPT_FLAGS_MINIMIZE \<noteq> 0 then 4 * KB else b);
         vm_bytes = vm_bytes div num_instances;
         vm_bytes = (if vm_bytes < 4 * KB then 4 * KB else vm_bytes)
     in vm_bytes AND NOT (page_size - 1))"

text \<open>The exit status is 0, 1 for bit errors or 3 when there is no page for the counter.\<close>

definition stress_vm ::
    "vm_os \<Rightarrow> vm_env \<Rightarrow> nat option \<Rightarrow> settings \<Rightarrow> u64 \<Rightarrow> u64 \<Rightarrow> u64 \<Rightarrow> vm_run \<Rightarrow> (nat \<times> nat \<times> vm_run) option" where
  "stress_vm os env proc st flags num_instances max_ops r =
    (let vm_hang = (case get_setting proc ''vm-hang'' st of Some (_, Some (V_uint64 v)) \<Rightarrow> v | _ \<Rightarrow> 0xffffffffffffffff);
         f = snd (vm_methods ! read_ptr proc ''vm-method'' st 0);
         keep = (flags AND OPT_FLAGS_VM_KEEP \<noteq> 0);
         buf_sz = unat (vm_size proc st flags num_instances (of_nat (vm_page_size env)));
         (mapped, r) = vm_map_page os 100 r
     in if \<not> mapped then Some (3, 0, r)
        else Option.bind (vm_parent os (vm_child os (env\<lparr>vm_max_ops := push_bit VM_BOGO_SHIFT max_ops\<rparr>) f vm_hang keep buf_sz max_ops) 0 (r\<lparr>r_errs := 0\<rparr>)) (\<lambda>(restarts, r).
          Some (if r_errs r > 0 then 1 else 0, restarts, r\<lparr>r_st := (r_st r)\<lparr>vcount := drop_bit VM_BOGO_SHIFT (vcount (r_st r))\<rparr>\<rparr>)))"

section \<open>Runs on sound memory\<close>

text \<open>Nothing has been reported, and a mapped buffer has its size.\<close>

definition quiet :: "vm_st \<Rightarrow> nat \<Rightarrow> 'r vm_run_scheme \<Rightarrow> bool" where
  "quiet st0 sz r \<longleftrightarrow> r_errs r = 0 \<and> vfails (r_st r) = vfails st0 \<and> voob (r_st r) = voob st0 \<and> (r_mapped r \<longrightarrow> vsz (r_st r) = sz)"

definition method_ok :: "vm_env \<Rightarrow> vm_method \<Rightarrow> nat \<Rightarrow> bool" where
  "method_ok env f sz \<longleftrightarrow> (\<forall>st. vsz st = sz \<longrightarrow> (\<exists>res. f env st = Some res \<and> clean st res))"

lemma quiet_tick [simp]: "quiet st0 sz (r\<lparr>r_tick := t\<rparr>) = quiet st0 sz r"
  by (simp add: quiet_def)

lemma quiet_call:
  assumes "method_ok env f sz" "sound_mem env" "vm_hang \<noteq> 0" "quiet st0 sz r" "r_mapped r"
  shows "\<exists>e r'. vm_call os env f vm_hang r = Some (e, r') \<and> quiet st0 sz r' \<and> r_tick r' = r_tick r"
proof (cases "os_killed os (r_tick r)")
  case None
  obtain e st where f: "f env (r_st r) = Some (e, st)" "clean (r_st r) (e, st)"
    using assms(1,4,5) by (fastforce simp: method_ok_def quiet_def)
  then show ?thesis
    using None assms(3,4) mincore_touch_pages_id [OF assms(2)] by (simp add: vm_call_def quiet_def clean_def)
next
  case (Some c)
  then show ?thesis using assms(4) by (simp add: vm_call_def quiet_def)
qed

lemma quiet_round:
  assumes "method_ok env f sz" "sound_mem env" "vm_hang \<noteq> 0" "quiet st0 sz r"
  shows "\<exists>e r'. vm_round os env f vm_hang keep sz r = Some (e, r') \<and> quiet st0 sz r' \<and> r_tick r \<le> r_tick r'"
proof -
  let ?r = "r\<lparr>r_tick := r_tick r + 1, r_mapped := True, r_st := (r_st r)\<lparr>vmem := replicate sz 0\<rparr>\<rparr>"
  have "quiet st0 sz ?r" using assms(4) by (simp add: quiet_def)
  from quiet_call [OF assms(1-3) this, of os] quiet_call [OF assms(1-4), of os] assms(4)
  show ?thesis by (auto simp: vm_round_def read_flag_def quiet_def Let_def)
qed

text \<open>A loop of rounds that keep an invariant ends once the flag is cleared; a round that ends the child establishes what holds at the end.\<close>

lemma child_loop_ends:
  assumes round: "\<And>r. ok r \<Longrightarrow> \<exists>e r'. step r = Some (e, r') \<and> (case e of None \<Rightarrow> ok (r'\<lparr>r_tick := r_tick r' + 1\<rparr>) | Some e \<Rightarrow> post e r') \<and> r_tick r \<le> r_tick r'"
    and exit: "\<And>r. ok r \<Longrightarrow> post Child_exit r"
    and flag: "\<And>t. T \<le> t \<Longrightarrow> \<not> os_keep os t"
  shows "ok r \<Longrightarrow> \<exists>e r'. child_loop os max_ops step r = Some (e, r') \<and> post e r' \<and> r_tick r \<le> r_tick r'"
proof (induction "T - r_tick r" arbitrary: r rule: less_induct)
  case less
  obtain e r1 where r1: "step r = Some (e, r1)" "case e of None \<Rightarrow> ok (r1\<lparr>r_tick := r_tick r1 + 1\<rparr>) | Some e \<Rightarrow> post e r1" "r_tick r \<le> r_tick r1"
    using round [OF less.prems] by blast
  let ?r = "r1\<lparr>r_tick := r_tick r1 + 1\<rparr>"
  show ?case
  proof (cases "e = None \<and> fst (keep_stressing_vm os max_ops r1)")
    case True
    then have i: "ok ?r" using r1(2) by simp
    have "os_keep os (r_tick r1)" using True by (simp add: keep_stressing_vm_def read_flag_def split_def)
    then have "r_tick r1 < T" using flag not_le by blast
    then have "T - r_tick ?r < T - r_tick r" using r1(3) by simp
    from less.hyps [OF this i] obtain e' r2 where r2: "child_loop os max_ops step ?r = Some (e', r2)" "post e' r2" "r_tick ?r \<le> r_tick r2"
      by auto
    have "child_loop os max_ops step r = Some (e', r2)"
      using True r1(1) r2(1) by (subst child_loop.simps) (simp add: keep_stressing_vm_def read_flag_def)
    then show ?thesis using r2 r1(3) by (intro exI [of _ e'] exI [of _ r2]) simp
  next
    case False
    then have "child_loop os max_ops step r = (case e of Some e \<Rightarrow> Some (e, r1) | None \<Rightarrow> Some (Child_exit, ?r))"
      using r1(1) by (subst child_loop.simps) (auto simp: keep_stressing_vm_def read_flag_def Let_def split: option.split)
    then show ?thesis using r1(2,3) exit by (cases e) auto
  qed
qed

lemma child_loop_keeps:
  assumes round: "\<And>r. ok r \<Longrightarrow> \<exists>e r'. step r = Some (e, r') \<and> ok r' \<and> r_tick r \<le> r_tick r'"
    and tick: "\<And>r t. ok r \<Longrightarrow> ok (r\<lparr>r_tick := t\<rparr>)" and flag: "\<And>t. T \<le> t \<Longrightarrow> \<not> os_keep os t" and r: "ok r"
  shows "\<exists>e r'. child_loop os max_ops step r = Some (e, r') \<and> ok r' \<and> r_tick r \<le> r_tick r'"
proof (rule child_loop_ends [where ok = ok and post = "\<lambda>e. ok", OF _ _ flag r])
  fix r assume "ok r"
  from round [OF this] obtain e r' where "step r = Some (e, r')" "ok r'" "r_tick r \<le> r_tick r'" by blast
  then show "\<exists>e r'. step r = Some (e, r') \<and> (case e of None \<Rightarrow> ok (r'\<lparr>r_tick := r_tick r' + 1\<rparr>) | Some e \<Rightarrow> ok r') \<and> r_tick r \<le> r_tick r'"
    using tick by (intro exI [of _ e] exI [of _ r'] conjI) (simp_all split: option.split)
qed

lemma quiet_child:
  assumes m: "method_ok env f sz" "sound_mem env" "vm_hang \<noteq> 0" and flag: "\<And>t. T \<le> t \<Longrightarrow> \<not> os_keep os t" and q: "quiet st0 sz r"
  shows "\<exists>e r'. vm_child os env f vm_hang keep sz max_ops r = Some (e, r') \<and> quiet st0 sz r' \<and> r_tick r \<le> r_tick r'"
  unfolding vm_child_def by (rule child_loop_keeps [OF quiet_round [OF m] _ flag q]) simp_all

text \<open>
  What the parent relies on: a child that starts quietly ends, quietly, and later than it started.  The parameter \<open>p\<close> holds what the child is
  called with, \<open>good p sz\<close> tells when the contract is promised.
\<close>

locale quiet_process =
  fixes child :: "'p \<Rightarrow> vm_run \<Rightarrow> (child_end \<times> vm_run) option" and good :: "'p \<Rightarrow> nat \<Rightarrow> bool"
  assumes child_quiet: "good p sz \<Longrightarrow> quiet st0 sz r \<Longrightarrow> \<exists>e r'. child p r = Some (e, r') \<and> quiet st0 sz r' \<and> r_tick r \<le> r_tick r'"
begin

lemma parent_quiet:
  assumes p: "good p sz" and flag: "\<And>t. T \<le> t \<Longrightarrow> \<not> os_keep os t"
  shows "quiet st0 sz r \<Longrightarrow> \<not> r_mapped r \<Longrightarrow> \<exists>k r'. vm_parent os (child p) restarts r = Some (k, r') \<and> quiet st0 sz r'"
proof (induction "T - r_tick r" arbitrary: r restarts rule: less_induct)
  case less
  let ?r = "r\<lparr>r_tick := r_tick r + 1\<rparr>"
  show ?case
  proof (cases "os_keep os (r_tick r)")
    case False
    then show ?thesis using less.prems by (subst vm_parent.simps) (simp add: read_flag_def)
  next
    case True
    then have t: "r_tick r < T" using flag not_le by blast
    have q: "quiet st0 sz (?r\<lparr>r_mapped := False, r_retries := 0\<rparr>)" using less.prems by (simp add: quiet_def)
    obtain e c where c: "child p (?r\<lparr>r_mapped := False, r_retries := 0\<rparr>) = Some (e, c)" "quiet st0 sz c" "r_tick ?r \<le> r_tick c"
      using child_quiet [OF p q] by auto
    define r2 where "r2 = ?r\<lparr>r_st := (r_st r)\<lparr>vcount := vcount (r_st c), vfails := vfails (r_st c), voob := voob (r_st c)\<rparr>, r_errs := r_errs c, r_tick := r_tick c\<rparr>"
    have r2: "quiet st0 sz r2" "\<not> r_mapped r2" using c(2) less.prems by (simp_all add: r2_def quiet_def)
    have "T - r_tick r2 < T - r_tick r" using t c(3) by (simp add: r2_def)
    note again = less.hyps [OF this r2]
    have "T - r_tick ?r < T - r_tick r" using t by simp
    note retry = less.hyps [OF this]
    show ?thesis
    proof (cases "os_fork os (r_tick r + 1)")
      case Forked
      then have "vm_parent os (child p) restarts r =
          (if os_wait os (r_tick c) \<and> e = Child_killed then vm_parent os (child p) (restarts + 1) r2 else Some (restarts, r2))"
        using True c(1) by (subst vm_parent.simps) (simp add: read_flag_def r2_def Let_def)
      then show ?thesis using r2 again by simp
    next
      case Fork_again
      then show ?thesis using True retry less.prems by (subst vm_parent.simps) (simp add: read_flag_def)
    next
      case Fork_failed
      then show ?thesis using True less.prems by (subst vm_parent.simps) (simp add: read_flag_def)
    qed
  qed
qed

end

interpretation vm_process: quiet_process
  "\<lambda>(os, env, f, vm_hang, keep, buf_sz, max_ops). vm_child os env f vm_hang keep buf_sz max_ops"
  "\<lambda>(os, env, f, vm_hang, keep, buf_sz, max_ops) sz.
     buf_sz = sz \<and> method_ok env f sz \<and> sound_mem env \<and> vm_hang \<noteq> 0 \<and> (\<exists>T. \<forall>t\<ge>T. \<not> os_keep os t)"
proof (unfold_locales, goal_cases)
  case (1 p sz st0 r)
  obtain os env f vm_hang keep buf_sz max_ops where p: "p = (os, env, f, vm_hang, keep, buf_sz, max_ops)" by (cases p) auto
  with 1(1) obtain T where "buf_sz = sz" "method_ok env f sz" "sound_mem env" "vm_hang \<noteq> 0" "\<And>t. T \<le> t \<Longrightarrow> \<not> os_keep os t" by auto
  with quiet_child [of env f sz vm_hang T os st0 r keep max_ops] 1(2) p show ?case by simp
qed

section \<open>The stressor\<close>

lemma and_not_mask_dvd: "k < 64 \<Longrightarrow> 2 ^ k dvd unat ((x :: u64) AND NOT (of_nat (2 ^ k) - 1))"
proof -
  assume k: "k < 64"
  have m: "of_nat (2 ^ k) - 1 = (mask k :: u64)" by (simp add: mask_eq_exp_minus_1)
  have "take_bit k (unat (x AND NOT (mask k))) = 0"
    using k by (intro bit_eqI) (auto simp: bit_take_bit_iff bit_unat bit_and_iff bit_not_iff bit_mask_iff)
  then show ?thesis unfolding m by (simp add: take_bit_eq_mod mod_eq_0_iff_dvd)
qed

lemma vm_size_pages:
  "vm_page_size env = 2 ^ k \<Longrightarrow> 12 \<le> k \<Longrightarrow> k < 64 \<Longrightarrow> 4096 dvd unat (vm_size proc st flags n (of_nat (vm_page_size env)))"
proof -
  assume p: "vm_page_size env = 2 ^ k" and k: "12 \<le> k" "k < 64"
  have "(4096 :: nat) dvd 2 ^ k" using le_imp_power_dvd [OF k(1), of "2 :: nat"] by simp
  moreover have "2 ^ k dvd unat (vm_size proc st flags n (of_nat (vm_page_size env)))"
    unfolding vm_size_def p Let_def by (rule and_not_mask_dvd [OF k(2)])
  ultimately show ?thesis by (rule dvd_trans)
qed

lemma map_page_state: "vm_map_page os j r = (b, r') \<Longrightarrow> r_st r' = r_st r \<and> r_mapped r' = r_mapped r"
  by (induction j arbitrary: r) (auto simp: read_flag_def split: if_splits)

lemma sound_max_ops [simp]: "sound_mem (env\<lparr>vm_max_ops := m\<rparr>) = sound_mem env"
  by (simp add: sound_mem_def del: sound_memD)

text \<open>The methods whose operations are not limited, but for the galloping patterns, are clean on every buffer of whole pages.\<close>

lemma single_method_ok:
  assumes "sound_mem env" "vm_max_ops env = 0" "vm_swaps_alloc env" "4096 dvd sz" "unat (vm_base env) + sz < 2 ^ 64" "prime_walkable sz"
    and "i < length vm_single_methods" "fst (vm_single_methods ! i) \<notin> {''galpat-0'', ''galpat-1''}"
  shows "method_ok env (snd (vm_single_methods ! i)) sz"
  unfolding method_ok_def
proof (intro allI impI)
  fix st :: vm_st
  assume "vsz st = sz"
  moreover have "(fst (vm_single_methods ! i), snd (vm_single_methods ! i)) \<in> set vm_single_methods" using assms(7) by simp
  ultimately show "\<exists>res. snd (vm_single_methods ! i) env st = Some res \<and> clean st res"
    using single_methods_clean [OF assms(1-3), of st "fst (vm_single_methods ! i)"] assms(4-6,8) by auto
qed

text \<open>
  C1: on sound memory and without an operation limit the memory stressor ends once the flag is cleared, with success or for lack of a page for its counter, and
  without a report or an access outside the buffer.  This holds for every single method but the two galloping patterns, so not for the method that runs all, for a
  buffer that fits into the address space and whose size the prime walk covers, when the buffers of the swap method can be allocated and the option vm-hang is not
  given; and whatever else the kernel answers: mappings and forks that fail, and children that are killed in the middle of a method and started again.
\<close>

theorem vm_stressor_sound:
  assumes s: "sound_mem env" "vm_swaps_alloc env" and page: "vm_page_size env = 2 ^ k" "12 \<le> k" "k < 64"
    and size: "sz = unat (vm_size proc st flags n (of_nat (vm_page_size env)))" "unat (vm_base env) + sz < 2 ^ 64" "prime_walkable sz"
    and row: "read_ptr proc ''vm-method'' st 0 = Suc i" "i < length vm_single_methods" "fst (vm_single_methods ! i) \<notin> {''galpat-0'', ''galpat-1''}"
    and hang: "get_setting proc ''vm-hang'' st = Some (False, None)"
    and flag: "\<forall>t\<ge>T. \<not> os_keep os t" and fresh: "\<not> r_mapped r"
  shows "\<exists>status restarts r'. stress_vm os env proc st flags n 0 r = Some (status, restarts, r') \<and> status \<in> {0, 3}
    \<and> vfails (r_st r') = vfails (r_st r) \<and> voob (r_st r') = voob (r_st r)"
proof -
  let ?env = "env\<lparr>vm_max_ops := 0\<rparr>" and ?f = "snd (vm_single_methods ! i)"
  have se: "sound_mem ?env" using s(1) by simp
  have "4096 dvd sz" unfolding size(1) by (rule vm_size_pages [OF page])
  then have ok: "method_ok ?env ?f sz"
    using s(2) size(2,3) row(2,3) by (intro single_method_ok [OF se]) simp_all
  obtain b r1 where b: "vm_map_page os 100 r = (b, r1)" by fastforce
  then have r1: "r_st r1 = r_st r" "\<not> r_mapped r1" using map_page_state fresh by blast+
  have q: "quiet (r_st r) sz (r1\<lparr>r_errs := 0\<rparr>)" "\<not> r_mapped (r1\<lparr>r_errs := 0\<rparr>)" using r1 by (simp_all add: quiet_def)
  have h: "(0xffffffffffffffff :: u64) \<noteq> 0" by simp
  obtain c r2 where r2: "vm_parent os (vm_child os ?env ?f 0xffffffffffffffff (flags AND OPT_FLAGS_VM_KEEP \<noteq> 0) sz 0) 0 (r1\<lparr>r_errs := 0\<rparr>) = Some (c, r2)" "quiet (r_st r) sz r2"
    using vm_process.parent_quiet [OF _ _ q, where restarts = 0 and T = T and os = os and p = "(os, ?env, ?f, 0xffffffffffffffff, flags AND OPT_FLAGS_VM_KEEP \<noteq> 0, sz, 0)"] ok se h flag exI [of "\<lambda>T. \<forall>t\<ge>T. \<not> os_keep os t", OF flag]
    by auto
  have f: "snd (vm_methods ! Suc i) = ?f" by (simp add: vm_methods_def)
  show ?thesis
    using r1 r2 unfolding stress_vm_def b row(1) f hang size(1) [symmetric]
    by (auto simp: quiet_def Let_def)
qed

text \<open>A machine that kills the first child; the flag is cleared later.\<close>

definition sample_os :: vm_os where
  "sample_os = \<lparr>os_keep = \<lambda>t. t < 50, os_page_map = \<lambda>t. True, os_map = \<lambda>t. True, os_fork = \<lambda>t. Forked, os_wait = \<lambda>t. True,
     os_killed = \<lambda>t. if t < 5 then Some 17 else None\<rparr>"

definition sample_run :: vm_run where
  "sample_run = \<lparr>r_st = sample_st 0, r_errs = 0, r_tick = 0, r_mapped = False, r_retries = 0\<rparr>"

lemma walkable_256MB: "prime_walkable (2 ^ 28)"
proof -
  have "coprime ((2::nat) ^ 28) 1511789" by (simp only: coprime_power_left_iff) simp
  then show ?thesis by (simp add: prime_walkable_def prime_low_def)
qed

theorem vm_stressor_sound_witness:
  "\<exists>st'. stress_set_vm_method plain_env ''flip'' settings_init = (0, Inr st') \<and>
    (\<exists>status restarts r'. stress_vm sample_os sample_env None st' 0 1 0 sample_run = Some (status, restarts, r') \<and> status \<in> {0, 3})"
proof -
  have m: "map_of (method_rows (map fst vm_methods)) ''flip'' = Some (V_uintptr 1)"
    by (simp add: method_rows_def vm_methods_def vm_single_methods_def)
  obtain st' where st': "stress_set_vm_method plain_env ''flip'' settings_init = (0, Inr st')"
    and g: "get_setting None ''vm-method'' st' = Some (True, Some (V_uintptr 1))"
    and o: "\<And>other. other \<noteq> ''vm-method'' \<Longrightarrow> get_setting None other st' = get_setting None other settings_init"
    using set_row_result [OF good_vm_rows plain_env_store, where name = "''flip''" and setting = "''vm-method''"]
    unfolding m option.case by (auto simp: stress_set_vm_method_def plain_env_def)
  have e: "get_setting None name settings_init = Some (False, None)" for name
    using get_setting_lookup [OF settings_rel_init] by (simp add: visible_def)
  have page: "vm_page_size sample_env = 2 ^ 12" "vm_swaps_alloc sample_env" by (simp_all add: sample_env_def)
  have size: "(2 :: nat) ^ 28 = unat (vm_size None st' 0 1 (of_nat (vm_page_size sample_env)))"
    by (simp add: vm_size_def o e page MB_def KB_def)
  have base: "unat (vm_base sample_env) + 2 ^ 28 < 2 ^ 64" by (simp add: sample_env_def)
  have row: "read_ptr None ''vm-method'' st' 0 = Suc 0" by (simp add: read_ptr_def g)
  have single: "0 < length vm_single_methods" "fst (vm_single_methods ! 0) \<notin> {''galpat-0'', ''galpat-1''}"
    by (simp_all add: vm_single_methods_def)
  have hang: "get_setting None ''vm-hang'' st' = Some (False, None)" by (simp add: o e)
  have flag: "\<forall>t\<ge>50. \<not> os_keep sample_os t" "\<not> r_mapped sample_run" by (simp_all add: sample_os_def sample_run_def)
  have "(12 :: nat) \<le> 12" "(12 :: nat) < 64" by simp_all
  from vm_stressor_sound [OF sample_sound page(2) page(1) this size base walkable_256MB row single hang flag] st' show ?thesis by blast
qed

end
