(* ===== verification/Sgx_Cpu.thy ===== *)
theory Sgx_Cpu
  imports Cpu_Driver Cpu_Base
begin

text \<open>
  Enclaves: how an enclave is launched with a saved token (sgx/utils.c), the enclave with the processor methods (sgx/enclave_cpu/trusted/enclave.c), and the
  stressor around it (stress-sgx.c).  The status of a call into the enclave or out of it comes from stubs that the SDK generates and is an
  argument; 0 is success.
\<close>

section \<open>Launching an enclave\<close>

text \<open>
  The token of the last launch is kept in a file in the home directory.  The record holds the home directory, the permissions for files, the answer of
  sgx_create_enclave for a token (status, new token, whether it is new), and the number of bytes that fwrite manages to write.
\<close>

record launch_env =
  le_home :: "string option"
  le_readable :: "string \<Rightarrow> bool"
  le_writable :: "string \<Rightarrow> bool"
  le_create :: "u8 list \<Rightarrow> nat \<times> u8 list \<times> bool"
  le_written :: nat

definition token_path :: "string option \<Rightarrow> string \<Rightarrow> string" where
  "token_path home_dir enclave_token =
    (case home_dir of
       Some h \<Rightarrow> if length h + length ''/'' + length enclave_token + 1 \<le> 4096 then h @ ''/'' @ enclave_token else enclave_token
     | None \<Rightarrow> enclave_token)"

text \<open>A file that cannot be read is opened for writing, which empties it.  A token has 1024 bytes; anything shorter is not used.\<close>

definition initialize_enclave :: "launch_env \<Rightarrow> string \<Rightarrow> (string \<rightharpoonup> u8 list) \<Rightarrow> int \<times> (string \<rightharpoonup> u8 list)" where
  "initialize_enclave le enclave_token files =
    (let path = token_path (le_home le) enclave_token;
         reads = (files path \<noteq> None \<and> le_readable le path);
         fp = (reads \<or> le_writable le path);
         files = (if \<not> reads \<and> le_writable le path then files(path \<mapsto> []) else files);
         bytes = (if reads then take 1024 (the (files path)) else []);
         token = (if length bytes = 1024 then bytes else replicate 1024 0);
         (status, token, updated) = le_create le token
     in if status \<noteq> 0 then (- 1, files)
        else if \<not> updated \<or> \<not> fp then (0, files)
        else if \<not> le_writable le path then (0, files)
        else (0, files(path \<mapsto> take (le_written le) token)))"

section \<open>The enclave with the processor methods\<close>

definition enclave_cpu_methods :: "string list" where
  "enclave_cpu_methods =
    [''all'', ''ackermann'', ''bitops'', ''callfunc'', ''cdouble'', ''cfloat'', ''clongdouble'', ''correlate'',
     ''crc16'', ''decimal32'', ''decimal64'', ''decimal128'', ''dither'', ''djb2a'', ''double'', ''euler'',
     ''explog'', ''fft'', ''factorial'', ''fibonacci'', ''float'', ''fnv1a'', ''gamma'', ''gcd'', ''gray'',
     ''hamming'', ''hanoi'', ''hyperbolic'', ''idct'', ''int128'', ''int64'', ''int32'', ''int16'', ''int8'',
     ''int128float'', ''int128double'', ''int128longdouble'', ''int128decimal32'', ''int128decimal64'',
     ''int128decimal128'', ''int64float'', ''int64double'', ''int64longdouble'', ''int32float'',
     ''int32double'', ''int32longdouble'', ''jenkin'', ''jmp'', ''ln2'', ''longdouble'', ''loop'',
     ''matrixprod'', ''nsqrt'', ''ocall'', ''omega'', ''parity'', ''phi'', ''pi'', ''pjw'', ''prime'', ''psi'',
     ''queens'', ''rand'', ''rgb'', ''sdbm'', ''stats'', ''sqrt'', ''trig'', ''union'', ''zeta'']"

text \<open>
  The method that is only in the enclave: a call out of it and back.  When the call fails, the variable for the result keeps
  the value it happens to have.
\<close>

definition ocall_dummy :: "u64 \<Rightarrow> u64" where
  "ocall_dummy param = param + 1"

definition stress_cpu_enclave_transitions :: "u64 \<Rightarrow> nat \<Rightarrow> u64 \<Rightarrow> cpu_st \<Rightarrow> cpu_st" where
  "stress_cpu_enclave_transitions flags status stale st =
    (let result = (if status = 0 then ocall_dummy 10000 else stale);
         st = cpu_verify flags (status \<noteq> 0) ''OCALL status'' st
     in cpu_verify flags (result \<noteq> 10001) ''OCALL result'' st)"

definition ecall_cpu_method_exists :: "string \<Rightarrow> nat" where
  "ecall_cpu_method_exists method_name = (if method_name \<in> set enclave_cpu_methods then 1 else 0)"

text \<open>
  Text appended to a buffer by snprintf at the position that is the sum of the results so far.  The results count what did not fit as
  well; once their sum exceeds the size, the size that is left is negative, becomes a large unsigned number, and the call would write behind the
  buffer: then the value is None.
\<close>

definition put_text :: "nat \<Rightarrow> string \<Rightarrow> (string \<times> nat) option \<Rightarrow> (string \<times> nat) option" where
  "put_text len s out =
    (case out of
       None \<Rightarrow> None
     | Some (buf, counter) \<Rightarrow> if len < counter then None else Some (take (len - 1) (buf @ s), counter + length s))"

definition methods_error :: "string \<Rightarrow> string list \<Rightarrow> bool \<Rightarrow> nat \<Rightarrow> string option" where
  "methods_error intro names outside len =
    (if outside
     then map_option fst (put_text len [CHR 0x0A] (fold (\<lambda>n. put_text len ('' '' @ n)) names (put_text len intro (Some ([], 0)))))
     else Some [])"

definition ecall_get_cpu_methods_error :: "bool \<Rightarrow> nat \<Rightarrow> string option" where
  "ecall_get_cpu_methods_error = methods_error ''sgx-method must be one of:'' enclave_cpu_methods"

definition run_stressor :: "(nat \<Rightarrow> bool) \<Rightarrow> (nat \<Rightarrow> 's \<Rightarrow> 's) \<Rightarrow> nat \<Rightarrow> u64 \<Rightarrow> 's cpu_drv \<Rightarrow> 's cpu_drv option" where
  "run_stressor keep body info rounds d =
    stress_loop keep rounds (\<lambda>d. Some (inc_counter (cpu_func enclave_cpu_methods body info d))) d"

text \<open>The address of the flag that is passed in is not 0.\<close>

definition ecall_stress_cpu :: "(nat \<Rightarrow> bool) \<Rightarrow> (nat \<Rightarrow> 's \<Rightarrow> 's) \<Rightarrow> string \<Rightarrow> u64 \<Rightarrow> 's cpu_drv \<Rightarrow> (int \<times> 's cpu_drv) option" where
  "ecall_stress_cpu keep body method_name rounds d =
    (case map_of (zip enclave_cpu_methods [0..<length enclave_cpu_methods]) method_name of
       Some info \<Rightarrow> map_option (Pair 0) (run_stressor keep body info rounds d)
     | None \<Rightarrow> Some (- 1, d))"

section \<open>The stressor\<close>

text \<open>The text with the names is printed as a format, which has an effect that is defined only if it has no conversion.\<close>

definition print_format :: "string \<Rightarrow> string option" where
  "print_format s = (if CHR ''%'' \<in> set s then None else Some s)"

text \<open>
  Choosing a method by name, which is checked in the enclave.  The arguments are whether the enclave could be launched and the statuses of the two calls;
  the result has the value that is returned, what is printed to the standard error, and the settings.
\<close>

definition set_enclave_method ::
    "'d opt_env \<Rightarrow> string \<Rightarrow> nat \<Rightarrow> string option \<Rightarrow> bool \<Rightarrow> nat \<Rightarrow> nat \<Rightarrow> string \<Rightarrow> settings \<Rightarrow> int \<times> string option \<times> settings parsed" where
  "set_enclave_method env setting method_exists error_text launched status1 status2 name st =
    (if \<not> launched then (- 1, Some [], Inr st)
     else if status1 \<noteq> 0 then (- 1, Some [], Inr st)
     else if method_exists = 1 then (0, Some [], save env setting (V_str name) st)
     else if status2 \<noteq> 0 then (- 1, Some [], Inr st)
     else (- 1, Option.bind error_text print_format, Inr st))"

definition stress_set_sgx_method :: "'d opt_env \<Rightarrow> bool \<Rightarrow> nat \<Rightarrow> nat \<Rightarrow> string \<Rightarrow> settings \<Rightarrow> int \<times> string option \<times> settings parsed" where
  "stress_set_sgx_method env launched status1 status2 name =
    set_enclave_method env ''sgx-method'' (ecall_cpu_method_exists name) (ecall_get_cpu_methods_error True 2000) launched status1 status2 name"

text \<open>How the stressor ends: by returning a value or by abort.  A new enclave starts with the static variables of its image.\<close>

datatype sgx_end = Sgx_return int | Sgx_abort

text \<open>Where the setting is missing, the pointer to the name keeps the value it happens to have.\<close>

definition stress_sgx ::
    "(nat \<Rightarrow> bool) \<Rightarrow> (nat \<Rightarrow> 's \<Rightarrow> 's) \<Rightarrow> nat option \<Rightarrow> settings \<Rightarrow> string \<Rightarrow> bool \<Rightarrow> nat \<Rightarrow> u64 \<Rightarrow> 's cpu_drv \<Rightarrow> (sgx_end \<times> 's cpu_drv) option" where
  "stress_sgx keep body proc st stale launched status max_ops d =
    (let name = (case get_setting proc ''sgx-method'' st of Some (_, Some (V_str s)) \<Rightarrow> s | _ \<Rightarrow> stale)
     in if \<not> launched then Some (Sgx_return (- 1), d)
        else if status \<noteq> 0 then Some (Sgx_abort, d)
        else Option.bind (ecall_stress_cpu keep body name max_ops (d\<lparr>d_all := 1\<rparr>)) (\<lambda>(ret, d).
          Some (Sgx_return (if ret = 0 then 0 else 1), d)))"

section \<open>The saved token\<close>

lemma token_path_fits:
  assumes "length enclave_token < 4096"
  shows "length (token_path home enclave_token) < 4096"
  using assms by (auto simp: token_path_def split: option.split)

text \<open>What a launch finds: the first 1024 bytes of a file that can be read and has as many, else zeros.\<close>

definition saved_token :: "launch_env \<Rightarrow> string \<Rightarrow> (string \<rightharpoonup> u8 list) \<Rightarrow> u8 list" where
  "saved_token le name files =
    (case files (token_path (le_home le) name) of None \<Rightarrow> replicate 1024 0
     | Some b \<Rightarrow> if le_readable le (token_path (le_home le) name) \<and> 1024 \<le> length b then take 1024 b else replicate 1024 0)"

lemma launch_result:
  assumes "le_create le (saved_token le name files) = (status, token, updated)"
  shows "\<exists>files'. initialize_enclave le name files = (if status = 0 then 0 else - 1, files')
    \<and> (\<forall>other. other \<noteq> token_path (le_home le) name \<longrightarrow> files' other = files other)
    \<and> (length token = 1024 \<longrightarrow> saved_token le name files' =
        (if le_readable le (token_path (le_home le) name) \<and> le_writable le (token_path (le_home le) name) \<and> status = 0 \<and> updated
         then if 1024 \<le> le_written le then token else replicate 1024 0 else saved_token le name files))"
  using assms by (cases "files (token_path (le_home le) name)") (auto simp: saved_token_def initialize_enclave_def Let_def min_def)

lemma launch_status:
  "fst (initialize_enclave le name files) = (if fst (le_create le (saved_token le name files)) = 0 then 0 else - 1)"
proof -
  obtain status token updated where c: "le_create le (saved_token le name files) = (status, token, updated)" by (rule prod_cases3)
  then obtain files' where "initialize_enclave le name files = (if status = 0 then 0 else - 1, files')" using launch_result [OF c] by blast
  then show ?thesis by (simp add: c)
qed

text \<open>
  C17: a launch hands the token in its file to sgx_create_enclave, or zeros when the file is missing, short or cannot be read, and
  succeeds exactly when the enclave is created, whatever becomes of the file.  The next launch hands over the new token if the enclave was
  created with a renewed one, the file can be read and written and all 1024 bytes got written, and zeros after a short write; in
  every other case, the failed launch included, it hands over the same token again.  No other file is touched, and the path fits into its
  buffer of 4096 bytes.
\<close>

theorem token_kept:
  assumes create: "le_create le (saved_token le name files) = (status, token, updated)" "length token = 1024"
    and path: "path = token_path (le_home le) name" "length name < 4096"
  shows "\<exists>files'. initialize_enclave le name files = (if status = 0 then 0 else - 1, files')
    \<and> (\<forall>other. other \<noteq> path \<longrightarrow> files' other = files other)
    \<and> (\<forall>create. fst (initialize_enclave (le\<lparr>le_create := create\<rparr>) name files') =
        (if fst (create (if le_readable le path \<and> le_writable le path \<and> status = 0 \<and> updated
                         then if 1024 \<le> le_written le then token else replicate 1024 0
                         else saved_token le name files)) = 0 then 0 else - 1))
    \<and> length path < 4096"
proof -
  have same: "saved_token (le\<lparr>le_create := c\<rparr>) name fs = saved_token le name fs" for c fs
    by (cases "fs (token_path (le_home le) name)") (simp_all add: saved_token_def)
  have "length path < 4096" using path token_path_fits by simp
  moreover obtain files' where f: "initialize_enclave le name files = (if status = 0 then 0 else - 1, files')"
    "\<forall>other. other \<noteq> path \<longrightarrow> files' other = files other"
    "saved_token le name files' = (if le_readable le path \<and> le_writable le path \<and> status = 0 \<and> updated
       then if 1024 \<le> le_written le then token else replicate 1024 0 else saved_token le name files)"
    using launch_result [OF create(1)] create(2) unfolding path(1) by blast
  ultimately show ?thesis
    unfolding launch_status same f(3) [symmetric] by (intro exI [of _ files'] conjI allI) (simp_all add: f)
qed

section \<open>The list of the methods\<close>

abbreviation listing :: "string list \<Rightarrow> string" where
  "listing names \<equiv> concat (map (\<lambda>n. '' '' @ n) names)"

lemma put_text_fits: "length buf + length s < len \<Longrightarrow> put_text len s (Some (buf, length buf)) = Some (buf @ s, length (buf @ s))"
  by (simp add: put_text_def)

lemma put_listing:
  "length buf + length (listing names) < len \<Longrightarrow>
    fold (\<lambda>n. put_text len ('' '' @ n)) names (Some (buf, length buf)) = Some (buf @ listing names, length (buf @ listing names))"
proof (induction names arbitrary: buf)
  case (Cons n names)
  have "put_text len ('' '' @ n) (Some (buf, length buf)) = Some (buf @ '' '' @ n, length (buf @ '' '' @ n))"
    using Cons.prems by (intro put_text_fits) simp
  moreover have "length (buf @ '' '' @ n) + length (listing names) < len" using Cons.prems by simp
  ultimately show ?case using Cons.IH [of "buf @ '' '' @ n"] by simp
qed simp

lemma methods_error_fits:
  assumes "length intro + length (listing names) + 1 < len"
  shows "methods_error intro names True len = Some (intro @ listing names @ [CHR 0x0A])"
  using assms put_text_fits [of "[]" intro len] put_listing [of intro names len] put_text_fits [of "intro @ listing names" "[CHR 0x0A]" len]
  by (simp add: methods_error_def)

lemma cpu_listing: "length (listing enclave_cpu_methods) + 27 < 2000" "CHR ''%'' \<notin> set (listing enclave_cpu_methods)"
  by (simp_all add: enclave_cpu_methods_def)

definition cpu_methods_text :: string where
  "cpu_methods_text = ''sgx-method must be one of:'' @ listing enclave_cpu_methods @ [CHR 0x0A]"

lemma cpu_methods_error: "ecall_get_cpu_methods_error True 2000 = Some cpu_methods_text" "print_format cpu_methods_text = Some cpu_methods_text"
  using methods_error_fits [of "''sgx-method must be one of:''" enclave_cpu_methods 2000] cpu_listing
  by (simp_all add: ecall_get_cpu_methods_error_def cpu_methods_text_def print_format_def)

section \<open>From the name to the method\<close>

lemma length_enclave_cpu_methods: "length enclave_cpu_methods = 70"
  by (simp add: enclave_cpu_methods_def)

lemma distinct_enclave_cpu_methods: "distinct enclave_cpu_methods"
  by (simp add: enclave_cpu_methods_def)

lemma enclave_row: "i < length enclave_cpu_methods \<Longrightarrow>
    map_of (zip enclave_cpu_methods [0..<length enclave_cpu_methods]) (enclave_cpu_methods ! i) = Some i"
  using distinct_enclave_cpu_methods by (simp add: map_of_zip_nth)

lemma enclave_no_row: "name \<notin> set enclave_cpu_methods \<Longrightarrow> map_of (zip enclave_cpu_methods [0..<length enclave_cpu_methods]) name = None"
  by (auto simp: map_of_eq_None_iff dest: set_zip_leftD)

lemma ecall_runs:
  assumes "i < length enclave_cpu_methods" "0 < n" "n + 1 < 2 ^ 64" "d_counter d = 0"
  shows "\<exists>d'. ecall_stress_cpu (\<lambda>t. True) body (enclave_cpu_methods ! i) (of_nat n) (d\<lparr>d_all := 1\<rparr>) = Some (0, d')
    \<and> called enclave_cpu_methods body i (d_work d) n d'"
proof -
  have "called enclave_cpu_methods body i (d_work d) 0 (d\<lparr>d_all := 1\<rparr>)"
    using called_start [of "d\<lparr>d_all := 1\<rparr>" enclave_cpu_methods body i] assms(4) by simp
  from full.loop_bounded [OF this, of n] assms show ?thesis
    by (auto simp: ecall_stress_cpu_def enclave_row run_stressor_def)
qed



theorem token_kept_witness:
  "\<exists>files'. initialize_enclave \<lparr>le_home = Some ''/root'', le_readable = \<lambda>p. True, le_writable = \<lambda>p. True,
       le_create = \<lambda>t. (0, replicate 1024 7, True), le_written = 1024\<rparr> ''stress-sgx-cpu.token'' Map.empty = (0, files')
    \<and> fst (initialize_enclave \<lparr>le_home = Some ''/root'', le_readable = \<lambda>p. True, le_writable = \<lambda>p. True,
       le_create = \<lambda>t. (if t = replicate 1024 7 then 0 else 1, t, False), le_written = 1024\<rparr> ''stress-sgx-cpu.token'' files') = 0"
proof -
  let ?le = "\<lparr>le_home = Some ''/root'', le_readable = \<lambda>p. True, le_writable = \<lambda>p. True, le_create = \<lambda>t. (0, replicate 1024 7, True), le_written = 1024\<rparr>"
  let ?name = "''stress-sgx-cpu.token''" and ?c = "\<lambda>t. (if t = replicate 1024 (7 :: u8) then 0 else 1 :: nat, t, False)"
  have "le_create ?le (saved_token ?le ?name Map.empty) = (0, replicate 1024 7, True)" "length (replicate 1024 (7 :: u8)) = 1024"
    "token_path (le_home ?le) ?name = token_path (le_home ?le) ?name" "length ?name < 4096" by simp_all
  from token_kept [OF this]
  obtain files' where f: "initialize_enclave ?le ?name Map.empty = (0, files')"
    "\<And>create. fst (initialize_enclave (?le\<lparr>le_create := create\<rparr>) ?name files') = (if fst (create (replicate 1024 7)) = 0 then 0 else - 1)" by auto
  from f(2) [of ?c] have "fst (initialize_enclave (?le\<lparr>le_create := ?c\<rparr>) ?name files') = 0" by simp
  with f(1) show ?thesis by (intro exI [of _ files'] conjI) simp_all
qed

end
