(* ===== verification/Sgx_Vm.thy ===== *)
theory Sgx_Vm
  imports Sgx_Cpu Vm_Driver
begin

text \<open>
  The enclave with the memory methods: the entry points in sgx/enclave_vm/trusted/vm.c, which run the methods of the enclave's copy of stress-vm.c on memory of the
  enclave, and the stressor stress-sgx-vm.c with its child process.  The copy differs from the code of the host in reading the flag through a
  pointer and in the random numbers, which always start from the same seed.
\<close>

section \<open>The enclave\<close>

definition OPT_FLAGS_SGX_VM_KEEP :: u64 where
  "OPT_FLAGS_SGX_VM_KEEP = 0x40000000000000"

text \<open>
  The answers of the machine in addition to those of \<^typ>\<open>vm_os\<close>: launching the enclave, entering it, and what newly allocated memory holds.  The answer
  \<open>os_map\<close> is that of malloc.
\<close>

record sgx_os = vm_os +
  os_launch :: "nat \<Rightarrow> bool"
  os_enter :: "nat \<Rightarrow> bool"
  os_fill :: "nat \<Rightarrow> nat \<Rightarrow> u8"

text \<open>The state of the enclave adds its copy of g_opt_flags and the numbers of buffers allocated and released.\<close>

record enclave_run = vm_run +
  e_flags :: u64
  e_mallocs :: nat
  e_frees :: nat

definition ecall_vm_method_exists :: "string \<Rightarrow> nat" where
  "ecall_vm_method_exists method_name = (if method_name \<in> set (map fst vm_methods) then 1 else 0)"

definition ecall_get_vm_methods_error :: "bool \<Rightarrow> nat \<Rightarrow> string option" where
  "ecall_get_vm_methods_error = methods_error ''sgx-vm-method must be one of:'' (map fst vm_methods)"

text \<open>The variable buf; the test before the allocation looks at the address of the flag, which is never 0.\<close>

definition enclave_malloc :: "sgx_os \<Rightarrow> nat \<Rightarrow> enclave_run \<Rightarrow> bool \<times> enclave_run" where
  "enclave_malloc os buf_sz r =
    (if os_map os (r_tick r)
     then (True, r\<lparr>r_mapped := True, e_mallocs := e_mallocs r + 1, r_st := (r_st r)\<lparr>vmem := map (os_fill os (r_tick r)) [0..<buf_sz]\<rparr>\<rparr>)
     else (False, r\<lparr>r_mapped := False\<rparr>))"

definition enclave_round ::
    "sgx_os \<Rightarrow> vm_env \<Rightarrow> vm_method \<Rightarrow> u64 \<Rightarrow> bool \<Rightarrow> nat \<Rightarrow> enclave_run \<Rightarrow> (child_end option \<times> enclave_run) option" where
  "enclave_round os env func vm_hang keep buf_sz r =
    (if NO_MEM_RETRIES_MAX \<le> r_retries r then Some (Some Child_exit, r)
     else let (got, r) = (if \<not> keep \<or> \<not> r_mapped r then enclave_malloc os buf_sz r else (True, r))
          in if \<not> got then Some (None, r\<lparr>r_retries := r_retries r + 1\<rparr>)
             else Option.bind (vm_call os env func vm_hang r) (\<lambda>(e, r).
               Some (e, if e = None \<and> \<not> keep then r\<lparr>e_frees := e_frees r + 1\<rparr> else r)))"

text \<open>
  The option to keep the buffer is read from the enclave's flags before these are set to the flags that are passed in.  For a name that is
  not in the table the variable func is not set, and calling it has no result.
\<close>

definition ecall_stress_vm ::
    "sgx_os \<Rightarrow> vm_env \<Rightarrow> u64 \<Rightarrow> string \<Rightarrow> u64 \<Rightarrow> u64 \<Rightarrow> u64 \<Rightarrow> u64 \<Rightarrow> enclave_run \<Rightarrow> (child_end \<times> enclave_run) option" where
  "ecall_stress_vm os env vm_bytes method_name rounds flags page_size vm_hang r =
    (let keep = (e_flags r AND OPT_FLAGS_SGX_VM_KEEP \<noteq> 0);
         buf_sz = unat (vm_bytes AND NOT (page_size - 1));
         r = r\<lparr>e_flags := flags, r_mapped := False, r_retries := 0\<rparr>;
         env = env\<lparr>vm_max_ops := push_bit VM_BOGO_SHIFT rounds, vm_opt_flags := flags,
                  vm_reseed_env := (vm_reseed_env env)\<lparr>env_no_rand_seed := True\<rparr>\<rparr>
     in Option.bind (map_of vm_methods method_name) (\<lambda>func.
        Option.bind (child_loop os rounds (enclave_round os env func vm_hang keep buf_sz) r) (\<lambda>(e, r).
          Some (e, if e = Child_exit \<and> keep \<and> r_mapped r then r\<lparr>e_frees := e_frees r + 1\<rparr> else r))))"

section \<open>The stressor\<close>

definition stress_set_sgx_vm_method :: "'d opt_env \<Rightarrow> bool \<Rightarrow> nat \<Rightarrow> nat \<Rightarrow> string \<Rightarrow> settings \<Rightarrow> int \<times> string option \<times> settings parsed" where
  "stress_set_sgx_vm_method env launched status1 status2 name =
    set_enclave_method env ''sgx-vm-method'' (ecall_vm_method_exists name) (ecall_get_vm_methods_error True 2000) launched status1 status2 name"

text \<open>A new enclave: the static variables of the methods and the flags have the values of the image.  The counters are outside.\<close>

definition enclave_start :: "vm_run \<Rightarrow> enclave_run" where
  "enclave_start r = vm_run.extend
    (r\<lparr>r_st := (r_st r)\<lparr>vmwc := mwc_init, gray_val := 0, incdec_val := 0, prime_incdec_val := 0, nybble_val := 0,
        write64_val := 0, rowhammer_val := 0xff5a00a5, all_i := 1\<rparr>\<rparr>)
    \<lparr>e_flags = 0, e_mallocs = 0, e_frees = 0\<rparr>"

definition sgx_vm_child ::
    "sgx_os \<Rightarrow> vm_env \<Rightarrow> u64 \<Rightarrow> string \<Rightarrow> u64 \<Rightarrow> u64 \<Rightarrow> u64 \<Rightarrow> vm_run \<Rightarrow> (child_end \<times> vm_run) option" where
  "sgx_vm_child os env vm_bytes vm_method max_ops flags vm_hang r =
    (if \<not> os_launch os (r_tick r) then Some (Child_return, r)
     else if \<not> os_enter os (r_tick r) then Some (Child_abort, r)
     else Option.bind (ecall_stress_vm os env vm_bytes vm_method max_ops flags (of_nat (vm_page_size env)) vm_hang (enclave_start r)) (\<lambda>(e, r).
       Some (e, vm_run.truncate r)))"

definition sgx_vm_bytes :: "nat option \<Rightarrow> settings \<Rightarrow> u64 \<Rightarrow> u64 \<Rightarrow> u64" where
  "sgx_vm_bytes proc st flags num_instances =
    (let vm_bytes = (case get_setting proc ''sgx-vm-bytes'' st of
           Some (True, Some (V_size v)) \<Rightarrow> v
         | _ \<Rightarrow> let b = 32 * MB; b = (if flags AND OPT_FLAGS_MAXIMIZE \<noteq> 0 then 4 * GB else b)
                in if flags AND OPT_FLAGS_MINIMIZE \<noteq> 0 then 4 * KB else b);
         vm_bytes = vm_bytes div num_instances
     in if vm_bytes < 4 * KB then 4 * KB else vm_bytes)"

definition stress_sgx_vm ::
    "sgx_os \<Rightarrow> vm_env \<Rightarrow> nat option \<Rightarrow> settings \<Rightarrow> string \<Rightarrow> u64 \<Rightarrow> u64 \<Rightarrow> u64 \<Rightarrow> vm_run \<Rightarrow> (nat \<times> nat \<times> vm_run) option" where
  "stress_sgx_vm os env proc st stale flags num_instances max_ops r =
    (let vm_hang = (case get_setting proc ''sgx-vm-hang'' st of Some (_, Some (V_uint64 v)) \<Rightarrow> v | _ \<Rightarrow> 0xffffffffffffffff);
         vm_method = (case get_setting proc ''sgx-vm-method'' st of Some (_, Some (V_str s)) \<Rightarrow> s | _ \<Rightarrow> stale);
         vm_bytes = sgx_vm_bytes proc st flags num_instances;
         (mapped, r) = vm_map_page os 100 r
     in if \<not> mapped then Some (3, 0, r)
        else Option.bind (vm_parent os (sgx_vm_child os env vm_bytes vm_method max_ops flags vm_hang) 0 (r\<lparr>r_errs := 0\<rparr>)) (\<lambda>(restarts, r).
          Some (if r_errs r > 0 then 1 else 0, restarts, r\<lparr>r_st := (r_st r)\<lparr>vcount := drop_bit VM_BOGO_SHIFT (vcount (r_st r))\<rparr>\<rparr>)))"

text \<open>The random numbers of the enclave are those of the host without a random seed.\<close>

lemma enclave_seed: "mwc_reseed (e\<lparr>env_no_rand_seed := True\<rparr>) s = enclave_mwc_reseed s"
  by (simp add: mwc_reseed_def enclave_mwc_reseed_def)

section \<open>Runs on sound memory\<close>

lemma quiet_enclave_round:
  assumes "method_ok env f sz" "sound_mem env" "vm_hang \<noteq> 0" "quiet st0 sz r"
  shows "\<exists>e r'. enclave_round os env f vm_hang keep sz r = Some (e, r') \<and> quiet st0 sz r' \<and> r_tick r' = r_tick r"
proof -
  let ?r = "r\<lparr>r_mapped := True, e_mallocs := e_mallocs r + 1, r_st := (r_st r)\<lparr>vmem := map (os_fill os (r_tick r)) [0..<sz]\<rparr>\<rparr>"
  have free: "quiet st0 sz (r\<lparr>e_frees := n\<rparr>) = quiet st0 sz r" for n and r :: enclave_run by (simp add: quiet_def)
  have "quiet st0 sz ?r" using assms(4) by (simp add: quiet_def)
  from quiet_call [OF assms(1-3) this, of os] quiet_call [OF assms(1-4), of os] assms(4)
  show ?thesis by (auto simp: enclave_round_def enclave_malloc_def free Let_def) (simp_all add: quiet_def)
qed

lemma extend_simps [simp]:
  "r_st (vm_run.extend r m) = r_st r" "r_errs (vm_run.extend r m) = r_errs r" "r_tick (vm_run.extend r m) = r_tick r"
  "r_mapped (vm_run.extend r m) = r_mapped r" "r_retries (vm_run.extend r m) = r_retries r"
  by (simp_all add: vm_run.extend_def)

lemma truncate_simps [simp]:
  "r_st (vm_run.truncate r) = r_st r" "r_errs (vm_run.truncate r) = r_errs r" "r_tick (vm_run.truncate r) = r_tick r"
  "r_mapped (vm_run.truncate r) = r_mapped r" "r_retries (vm_run.truncate r) = r_retries r"
  by (simp_all add: vm_run.truncate_def)

lemma quiet_truncate [simp]: "quiet st0 sz (vm_run.truncate r) = quiet st0 sz r"
  by (simp add: quiet_def)

text \<open>The memory of the machine as the enclave sees it, with the limit, the flags and the seed it uses.\<close>

definition enclave_env :: "vm_env \<Rightarrow> u64 \<Rightarrow> u64 \<Rightarrow> vm_env" where
  "enclave_env env rounds flags = env\<lparr>vm_max_ops := push_bit VM_BOGO_SHIFT rounds, vm_opt_flags := flags,
     vm_reseed_env := (vm_reseed_env env)\<lparr>env_no_rand_seed := True\<rparr>\<rparr>"

lemma enclave_env_simps [simp]:
  "vm_max_ops (enclave_env env rounds flags) = push_bit VM_BOGO_SHIFT rounds" "vm_swaps_alloc (enclave_env env rounds flags) = vm_swaps_alloc env"
  "vm_base (enclave_env env rounds flags) = vm_base env" "sound_mem (enclave_env env rounds flags) = sound_mem env"
  by (simp_all add: enclave_env_def) (simp add: sound_mem_def del: sound_memD)

lemma quiet_ecall:
  assumes m: "map_of vm_methods name = Some f" "method_ok (enclave_env env rounds flags) f sz" "sound_mem env" "vm_hang \<noteq> 0"
    and sz: "sz = unat (vm_bytes AND NOT (page_size - 1))" and flag: "\<And>t. T \<le> t \<Longrightarrow> \<not> os_keep os t" and q: "quiet st0 sz r"
  shows "\<exists>e r'. ecall_stress_vm os env vm_bytes name rounds flags page_size vm_hang r = Some (e, r') \<and> quiet st0 sz r' \<and> r_tick r \<le> r_tick r'"
proof -
  define k where "k = (e_flags r AND OPT_FLAGS_SGX_VM_KEEP \<noteq> 0)"
  let ?r = "r\<lparr>e_flags := flags, r_mapped := False, r_retries := 0\<rparr>"
  have s: "sound_mem (enclave_env env rounds flags)" using m(3) by simp
  have q0: "quiet st0 sz ?r" using q by (simp add: quiet_def)
  have "\<exists>e r'. child_loop os rounds (enclave_round os (enclave_env env rounds flags) f vm_hang k sz) ?r = Some (e, r')
      \<and> quiet st0 sz r' \<and> r_tick ?r \<le> r_tick r'"
    using quiet_enclave_round [OF m(2) s m(4)] by (intro child_loop_keeps [where ok = "quiet st0 sz", OF _ _ flag q0]) (metis order_refl, simp)
  then obtain e r' where r': "child_loop os rounds (enclave_round os (enclave_env env rounds flags) f vm_hang k sz) ?r = Some (e, r')"
      "quiet st0 sz r'" "r_tick r \<le> r_tick r'" by auto
  then show ?thesis
    by (auto simp: ecall_stress_vm_def m(1) enclave_env_def [symmetric] k_def [symmetric] sz [symmetric] quiet_def Let_def)
qed

lemma quiet_start: "quiet st0 sz r \<Longrightarrow> quiet st0 sz (enclave_start r)"
  by (simp add: enclave_start_def quiet_def)

interpretation sgx_process: quiet_process
  "\<lambda>(os, env, vm_bytes, name, max_ops, flags, vm_hang). sgx_vm_child os env vm_bytes name max_ops flags vm_hang"
  "\<lambda>(os, env, vm_bytes, name, max_ops, flags, vm_hang) sz.
     sz = unat (vm_bytes AND NOT (of_nat (vm_page_size env) - 1)) \<and> sound_mem env \<and> vm_hang \<noteq> 0 \<and> (\<exists>T. \<forall>t\<ge>T. \<not> os_keep os t)
     \<and> (\<exists>f. map_of vm_methods name = Some f \<and> method_ok (enclave_env env max_ops flags) f sz)"
proof (unfold_locales, goal_cases)
  case (1 p sz st0 r)
  obtain os env vm_bytes name max_ops flags vm_hang where p: "p = (os, env, vm_bytes, name, max_ops, flags, vm_hang)" by (cases p) auto
  with 1(1) obtain T f where g: "sz = unat (vm_bytes AND NOT (of_nat (vm_page_size env) - 1))" "sound_mem env" "vm_hang \<noteq> 0"
    "\<And>t. T \<le> t \<Longrightarrow> \<not> os_keep os t" "map_of vm_methods name = Some f" "method_ok (enclave_env env max_ops flags) f sz" by auto
  have t: "r_tick (enclave_start r) = r_tick r" by (simp add: enclave_start_def)
  obtain e r' where "ecall_stress_vm os env vm_bytes name max_ops flags (of_nat (vm_page_size env)) vm_hang (enclave_start r) = Some (e, r')"
      "quiet st0 sz r'" "r_tick r \<le> r_tick r'"
    using quiet_ecall [OF g(5,6,2,3,1) _ quiet_start [OF 1(2)], of T os] g(4) t by auto
  with 1(2) p show ?case by (auto simp: sgx_vm_child_def)
qed

section \<open>Properties\<close>

lemma vm_method_names: "distinct (map fst vm_methods)" "length (listing (map fst vm_methods)) + 30 < 2000" "CHR ''%'' \<notin> set (listing (map fst vm_methods))"
  by (simp_all add: vm_methods_def vm_single_methods_def)

lemma vm_methods_error:
  "ecall_get_vm_methods_error True 2000 = Some (''sgx-vm-method must be one of:'' @ listing (map fst vm_methods) @ [CHR 0x0A])"
  "print_format (''sgx-vm-method must be one of:'' @ listing (map fst vm_methods) @ [CHR 0x0A]) \<noteq> None"
  using methods_error_fits [of "''sgx-vm-method must be one of:''" "map fst vm_methods" 2000] vm_method_names(2,3)
  by (simp_all add: ecall_get_vm_methods_error_def print_format_def)

lemma single_method_named: "i < length vm_single_methods \<Longrightarrow> map_of vm_methods (fst (vm_single_methods ! i)) = Some (snd (vm_single_methods ! i))"
  using vm_method_names(1) by (intro map_of_is_SomeI) (simp_all add: vm_methods_def)

text \<open>
  C5: on sound memory, whatever it holds when it is allocated, and without an operation limit the enclave memory stressor ends once the flag is cleared, with success or for
  lack of a page for its counter, and without a report or an access outside the buffer.  This holds for every single method but the two galloping patterns, so not for the method that runs
  all, for a buffer that fits into the address space and whose size the prime walk covers, when the buffers of the swap method can be allocated and nothing is stored
  under sgx-vm-hang; and whatever else the machine answers: enclaves that cannot be launched or entered, allocations and forks that fail, and children that are killed and started again.
\<close>

theorem sgx_vm_sound:
  assumes s: "sound_mem env" "vm_swaps_alloc env" and page: "vm_page_size env = 2 ^ k" "12 \<le> k" "k < 64"
    and size: "sz = unat (sgx_vm_bytes proc st flags n AND NOT (of_nat (vm_page_size env) - 1))" "unat (vm_base env) + sz < 2 ^ 64" "prime_walkable sz"
    and row: "get_setting proc ''sgx-vm-method'' st = Some (True, Some (V_str (fst (vm_single_methods ! i))))"
      "i < length vm_single_methods" "fst (vm_single_methods ! i) \<notin> {''galpat-0'', ''galpat-1''}"
    and hang: "get_setting proc ''sgx-vm-hang'' st = Some (False, None)"
    and flag: "\<forall>t\<ge>T. \<not> os_keep os t" and fresh: "\<not> r_mapped r"
  shows "\<exists>status restarts r'. stress_sgx_vm os env proc st stale flags n 0 r = Some (status, restarts, r') \<and> status \<in> {0, 3}
    \<and> vfails (r_st r') = vfails (r_st r) \<and> voob (r_st r') = voob (r_st r)"
proof -
  let ?f = "snd (vm_single_methods ! i)" and ?name = "fst (vm_single_methods ! i)" and ?bytes = "sgx_vm_bytes proc st flags n"
  have "(4096 :: nat) dvd 2 ^ k" using le_imp_power_dvd [OF page(2), of "2 :: nat"] by simp
  then have "4096 dvd sz" using and_not_mask_dvd [OF page(3)] unfolding size(1) page(1) by (rule dvd_trans)
  then have ok: "method_ok (enclave_env env 0 flags) ?f sz"
    using s size(2,3) row(2,3) by (intro single_method_ok) simp_all
  obtain b r1 where b: "vm_map_page os 100 r = (b, r1)" by fastforce
  then have r1: "r_st r1 = r_st r" "\<not> r_mapped r1" using map_page_state fresh by blast+
  have q: "quiet (r_st r) sz (r1\<lparr>r_errs := 0\<rparr>)" "\<not> r_mapped (r1\<lparr>r_errs := 0\<rparr>)" using r1 by (simp_all add: quiet_def)
  have h: "(0xffffffffffffffff :: u64) \<noteq> 0" by simp
  obtain c r2 where r2: "vm_parent os (sgx_vm_child os env ?bytes ?name 0 flags 0xffffffffffffffff) 0 (r1\<lparr>r_errs := 0\<rparr>) = Some (c, r2)" "quiet (r_st r) sz r2"
    using sgx_process.parent_quiet [OF _ _ q, where restarts = 0 and T = T and os = os and p = "(os, env, ?bytes, ?name, 0, flags, 0xffffffffffffffff)"]
      ok s(1) h flag single_method_named [OF row(2)] size(1) exI [of "\<lambda>T. \<forall>t\<ge>T. \<not> os_keep os t", OF flag] by auto
  show ?thesis
    using r1 r2 unfolding stress_sgx_vm_def b row(1) hang by (auto simp: quiet_def Let_def)
qed

text \<open>
  C22: when the enclave of the memory stressor cannot be launched or entered, the child that finds out returns or aborts, and the stressor
  ends with success without having done anything.
\<close>

theorem sgx_vm_hides_failure:
  assumes "os_keep os (r_tick r)" "os_page_map os (r_tick r + 1)" "os_keep os (r_tick r + 1)" "os_fork os (r_tick r + 2) = Forked"
    and "\<not> os_launch os (r_tick r + 2) \<or> \<not> os_enter os (r_tick r + 2)" and "vcount (r_st r) = 0"
  shows "\<exists>r'. stress_sgx_vm os env proc st stale flags n max_ops r = Some (0, 0, r') \<and> vcount (r_st r') = 0"
proof -
  have m: "vm_map_page os 100 r = (True, r\<lparr>r_tick := r_tick r + 1\<rparr>)"
    using assms(1,2) by (simp add: numeral_eq_Suc read_flag_def)
  show ?thesis
    using assms(3-) unfolding stress_sgx_vm_def m Let_def
    by (subst vm_parent.simps) (auto simp: read_flag_def sgx_vm_child_def)
qed

text \<open>What a round does to the numbers of buffers when every allocation succeeds and the child is not killed.\<close>

lemma round_buffers:
  assumes m: "method_ok env f sz" "sound_mem env" "vm_hang \<noteq> 0" and r: "quiet st0 sz r" "r_retries r = 0"
    and mem: "\<And>t. os_map os t" "\<And>t. os_killed os t = None"
  shows "\<exists>r'. enclave_round os env f vm_hang keep sz r = Some (None, r') \<and> quiet st0 sz r' \<and> r_retries r' = 0 \<and> r_mapped r' \<and> r_tick r' = r_tick r
    \<and> e_mallocs r' = e_mallocs r + of_bool (\<not> keep \<or> \<not> r_mapped r) \<and> e_frees r' = e_frees r + of_bool (\<not> keep)"
proof -
  define r0 where "r0 = snd (if \<not> keep \<or> \<not> r_mapped r then enclave_malloc os sz r else (True, r))"
  have r0: "quiet st0 sz r0" "r_mapped r0" "r_retries r0 = 0" "r_tick r0 = r_tick r" "e_frees r0 = e_frees r"
    "e_mallocs r0 = e_mallocs r + of_bool (\<not> keep \<or> \<not> r_mapped r)"
    using r mem by (auto simp: r0_def enclave_malloc_def quiet_def)
  obtain e st where f: "f env (r_st r0) = Some (e, st)" "clean (r_st r0) (e, st)"
    using m(1) r0(1,2) by (fastforce simp: method_ok_def quiet_def)
  let ?r = "r0\<lparr>r_st := st, r_errs := r_errs r0 + e, r_retries := 0\<rparr>"
  have c: "vm_call os env f vm_hang r0 = Some (None, ?r)" "quiet st0 sz ?r"
    using f m(3) mem(2) r0(1,2) mincore_touch_pages_id [OF m(2)] by (simp_all add: vm_call_def quiet_def clean_def)
  have "(if \<not> keep \<or> \<not> r_mapped r then enclave_malloc os sz r else (True, r)) = (True, r0)"
    using mem by (simp add: r0_def enclave_malloc_def)
  then have "enclave_round os env f vm_hang keep sz r = Some (None, if \<not> keep then ?r\<lparr>e_frees := e_frees ?r + 1\<rparr> else ?r)"
    using c(1) r(2) by (simp add: enclave_round_def NO_MEM_RETRIES_MAX_def)
  then show ?thesis using c(2) r0 by (simp add: quiet_def)
qed


text \<open>A machine whose memory holds 0x5a when it is allocated; the flag is cleared after 50 reads.\<close>

definition sample_machine :: "(nat \<Rightarrow> bool) \<Rightarrow> (nat \<Rightarrow> u64 option) \<Rightarrow> sgx_os" where
  "sample_machine launch killed = \<lparr>os_keep = \<lambda>t. t < 50, os_page_map = \<lambda>t. True, os_map = \<lambda>t. True, os_fork = \<lambda>t. Forked, os_wait = \<lambda>t. True,
     os_killed = killed, os_launch = launch, os_enter = \<lambda>t. True, os_fill = \<lambda>t i. 0x5a\<rparr>"

lemma walkable_32MB: "prime_walkable (2 ^ 25)"
proof -
  have "coprime ((2::nat) ^ 25) 1511789" by (simp only: coprime_power_left_iff) simp
  then show ?thesis by (simp add: prime_walkable_def prime_low_def)
qed

theorem sgx_vm_sound_witness:
  "\<exists>st'. stress_set_sgx_vm_method plain_env True 0 0 ''swap'' settings_init = (0, Some [], Inr st') \<and>
    (\<exists>status restarts r'. stress_sgx_vm (sample_machine (\<lambda>t. True) (\<lambda>t. if t < 5 then Some 17 else None)) sample_env None st' [] 0 1 0 sample_run
      = Some (status, restarts, r') \<and> status \<in> {0, 3})"
proof -
  have i: "11 < length vm_single_methods" "fst (vm_single_methods ! 11) = ''swap''" by (simp_all add: vm_single_methods_def)
  obtain st' where st': "save plain_env ''sgx-vm-method'' (V_str ''swap'') settings_init = Inr st'"
    and g: "get_setting None ''sgx-vm-method'' st' = Some (True, Some (V_str (fst (vm_single_methods ! 11))))"
    and o: "\<And>other. other \<noteq> ''sgx-vm-method'' \<Longrightarrow> get_setting None other st' = get_setting None other settings_init"
    using save_store [OF plain_env_store(1-3) _ plain_env_store(4,5), of "V_str ''swap''" "''sgx-vm-method''"] i(2) by (auto simp: plain_env_def)
  have e: "get_setting None name settings_init = Some (False, None)" for name
    using get_setting_lookup [OF settings_rel_init] by (simp add: visible_def)
  have set: "stress_set_sgx_vm_method plain_env True 0 0 ''swap'' settings_init = (0, Some [], Inr st')"
    by (simp add: stress_set_sgx_vm_method_def set_enclave_method_def ecall_vm_method_exists_def vm_methods_def vm_single_methods_def st')
  have page: "vm_page_size sample_env = 2 ^ 12" "vm_swaps_alloc sample_env" by (simp_all add: sample_env_def)
  have size: "(2 :: nat) ^ 25 = unat (sgx_vm_bytes None st' 0 1 AND NOT (of_nat (vm_page_size sample_env) - 1))"
    by (simp add: sgx_vm_bytes_def o e page MB_def KB_def)
  have base: "unat (vm_base sample_env) + 2 ^ 25 < 2 ^ 64" by (simp add: sample_env_def)
  have single: "fst (vm_single_methods ! 11) \<notin> {''galpat-0'', ''galpat-1''}" by (simp add: i)
  have hang: "get_setting None ''sgx-vm-hang'' st' = Some (False, None)" by (simp add: o e)
  have flag: "\<forall>t\<ge>50. \<not> os_keep (sample_machine (\<lambda>t. True) (\<lambda>t. if t < 5 then Some 17 else None)) t" "\<not> r_mapped sample_run"
    by (simp_all add: sample_machine_def sample_run_def)
  have "(12 :: nat) \<le> 12" "(12 :: nat) < 64" by simp_all
  from sgx_vm_sound [OF sample_sound page(2) page(1) this size base walkable_32MB g i(1) single hang flag] set show ?thesis by blast
qed

theorem sgx_vm_hides_failure_witness:
  "\<exists>r'. stress_sgx_vm (sample_machine (\<lambda>t. False) (\<lambda>t. None)) sample_env None settings_init ''all'' 0 1 100 sample_run = Some (0, 0, r') \<and> vcount (r_st r') = 0"
  by (rule sgx_vm_hides_failure) (simp_all add: sample_machine_def sample_run_def sample_st_def)


end
