(* ===== verification/Tree_Avl.thy ===== *)
theory Tree_Avl
  imports Tree_Model "HOL-Library.Tree"
begin

text \<open>
  Correctness of the tree methods.  The links in the array are related to trees of node numbers and
  balance factors; insertion by pointer updates refines an insertion on trees, which keeps the trees balanced and
  ordered.
\<close>

section \<open>Trees in the array\<close>

type_synonym btree = "(nat \<times> u8) tree"

fun is_tree :: "(nat \<Rightarrow> tree_node) \<Rightarrow> nat option \<Rightarrow> btree \<Rightarrow> bool" where
  "is_tree h p \<langle>\<rangle> = (p = None)"
| "is_tree h p \<langle>l, (i, b), r\<rangle> = (p = Some i \<and> n_bf (h i) = b \<and> is_tree h (n_left (h i)) l \<and> is_tree h (n_right (h i)) r)"

abbreviation nodes_of :: "btree \<Rightarrow> nat list" where
  "nodes_of t \<equiv> map fst (inorder t)"

lemma is_tree_Leaf [simp]: "is_tree h None t \<longleftrightarrow> t = \<langle>\<rangle>"
  by (cases t) (auto split: prod.splits)

lemma is_tree_Some: "is_tree h (Some i) t \<longleftrightarrow> (\<exists>l r. t = \<langle>l, (i, n_bf (h i)), r\<rangle> \<and> is_tree h (n_left (h i)) l \<and> is_tree h (n_right (h i)) r)"
  by (cases t) auto

lemma is_tree_cong: "(\<And>i. i \<in> set (nodes_of t) \<Longrightarrow> h' i = h i) \<Longrightarrow> is_tree h' p t = is_tree h p t"
  by (induction h p t rule: is_tree.induct) (auto simp: image_iff)

lemma is_tree_upd [simp]: "i \<notin> set (nodes_of t) \<Longrightarrow> is_tree (h(i := x)) p t = is_tree h p t"
  by (rule is_tree_cong) auto

section \<open>Insertion into a balanced tree\<close>

fun left_grown :: "btree \<Rightarrow> nat \<Rightarrow> u8 \<Rightarrow> btree \<Rightarrow> btree \<times> bool" where
  "left_grown l r b rr =
    (if b = EH then (\<langle>l, (r, LH), rr\<rangle>, True)
     else if b = RH then (\<langle>l, (r, EH), rr\<rangle>, False)
     else case l of \<langle>x, (p, bp), y\<rangle> \<Rightarrow>
       if bp = LH then (\<langle>x, (p, EH), \<langle>y, (r, EH), rr\<rangle>\<rangle>, False)
       else case y of \<langle>y1, (q, bq), y2\<rangle> \<Rightarrow>
         (\<langle>\<langle>x, (p, if bq = RH then LH else EH), y1\<rangle>, (q, EH), \<langle>y2, (r, if bq = LH then RH else EH), rr\<rangle>\<rangle>, False))"

fun right_grown :: "btree \<Rightarrow> nat \<Rightarrow> u8 \<Rightarrow> btree \<Rightarrow> btree \<times> bool" where
  "right_grown l r b rr =
    (if b = LH then (\<langle>l, (r, EH), rr\<rangle>, False)
     else if b = EH then (\<langle>l, (r, RH), rr\<rangle>, True)
     else case rr of \<langle>x, (p, bp), y\<rangle> \<Rightarrow>
       if bp = RH then (\<langle>\<langle>l, (r, EH), x\<rangle>, (p, EH), y\<rangle>, False)
       else case x of \<langle>x1, (q, bq), x2\<rangle> \<Rightarrow>
         (\<langle>\<langle>l, (r, if bq = RH then LH else EH), x1\<rangle>, (q, EH), \<langle>x2, (p, if bq = LH then RH else EH), y\<rangle>\<rangle>, False))"

fun ins :: "(nat \<Rightarrow> u64) \<Rightarrow> nat \<Rightarrow> btree \<Rightarrow> btree \<times> bool" where
  "ins v i \<langle>\<rangle> = (\<langle>\<langle>\<rangle>, (i, EH), \<langle>\<rangle>\<rangle>, True)"
| "ins v i \<langle>l, (r, b), rr\<rangle> =
    (if v i < v r then let (l', grown) = ins v i l in if grown then left_grown l' r b rr else (\<langle>l', (r, b), rr\<rangle>, False)
     else if v i > v r then let (rr', grown) = ins v i rr in if grown then right_grown l r b rr' else (\<langle>l, (r, b), rr'\<rangle>, False)
     else (\<langle>l, (r, b), rr\<rangle>, False))"

text \<open>Every balance factor tells the difference of the heights.\<close>

fun avl :: "btree \<Rightarrow> bool" where
  "avl \<langle>\<rangle> = True"
| "avl \<langle>l, (i, b), r\<rangle> =
    ((b = EH \<and> height l = height r \<or> b = LH \<and> height l = height r + 1 \<or> b = RH \<and> height r = height l + 1) \<and> avl l \<and> avl r)"

lemma bf_distinct [simp]: "LH \<noteq> EH" "EH \<noteq> LH" "LH \<noteq> RH" "RH \<noteq> LH" "EH \<noteq> RH" "RH \<noteq> EH"
  by (simp_all add: LH_def EH_def RH_def)

fun unbalanced :: "btree \<Rightarrow> bool" where
  "unbalanced \<langle>\<rangle> = False"
| "unbalanced \<langle>l, (i, b), r\<rangle> = (b \<noteq> EH)"

text \<open>What insertion into a subtree gives, as the other side of the root needs it.\<close>

definition grew :: "btree \<Rightarrow> btree \<Rightarrow> bool \<Rightarrow> bool" where
  "grew t t' g \<longleftrightarrow> avl t' \<and> height t' = height t + (if g then 1 else 0) \<and> (g \<longrightarrow> t = \<langle>\<rangle> \<or> unbalanced t') \<and> t' \<noteq> \<langle>\<rangle>"

lemma grew_left:
  assumes "avl \<langle>l, (r, b), rr\<rangle>" "grew l l' True" "left_grown l' r b rr = (t', g)"
  shows "grew \<langle>l, (r, b), rr\<rangle> t' g" and "nodes_of t' = nodes_of l' @ r # nodes_of rr"
  using assms by (auto simp: grew_def split!: tree.splits prod.splits if_splits)

lemma grew_right:
  assumes "avl \<langle>l, (r, b), rr\<rangle>" "grew rr rr' True" "right_grown l r b rr' = (t', g)"
  shows "grew \<langle>l, (r, b), rr\<rangle> t' g" and "nodes_of t' = nodes_of l @ r # nodes_of rr'"
  using assms by (auto simp: grew_def split!: tree.splits prod.splits if_splits)

lemma grew_same:
  "avl \<langle>l, (r, b), rr\<rangle> \<Longrightarrow> grew l l' False \<Longrightarrow> grew \<langle>l, (r, b), rr\<rangle> \<langle>l', (r, b), rr\<rangle> False"
  "avl \<langle>l, (r, b), rr\<rangle> \<Longrightarrow> grew rr rr' False \<Longrightarrow> grew \<langle>l, (r, b), rr\<rangle> \<langle>l, (r, b), rr'\<rangle> False"
  by (auto simp: grew_def)

lemma grew_ins: "avl t \<Longrightarrow> ins v i t = (t', g) \<Longrightarrow> grew t t' g"
proof (induction v i t arbitrary: t' g rule: ins.induct)
  case (2 v i l r b rr)
  have avl: "avl l" "avl rr" using "2.prems"(1) by auto
  obtain l' gl rr' gr where e: "ins v i l = (l', gl)" "ins v i rr = (rr', gr)" by fastforce
  consider "v i < v r" | "v r < v i" | "v i = v r" by fastforce
  then show ?case
  proof cases
    case 1
    note g = "2.IH"(1) [OF 1 avl(1) e(1)]
    show ?thesis
    proof (cases gl)
      case True
      have "left_grown l' r b rr = (t', g)" using "2.prems"(2) 1 e(1) True by (simp del: left_grown.simps)
      from grew_left(1) [OF "2.prems"(1) g [unfolded eqTrueI [OF True]] this] show ?thesis .
    next
      case False
      then have "t' = \<langle>l', (r, b), rr\<rangle>" "\<not> g" "grew l l' False" using "2.prems"(2) 1 e(1) g by (simp_all del: left_grown.simps)
      with grew_same(1) [OF "2.prems"(1)] show ?thesis by simp
    qed
  next
    case 2
    then have n: "\<not> v i < v r" by simp
    note g = "2.IH"(2) [OF n 2 avl(2) e(2)]
    show ?thesis
    proof (cases gr)
      case True
      have "right_grown l r b rr' = (t', g)" using "2.prems"(2) 2 n e(2) True by (simp del: right_grown.simps)
      moreover have "grew rr rr' True" using g 2 True by simp
      ultimately show ?thesis using grew_right(1) [OF "2.prems"(1)] by simp
    next
      case False
      then have "t' = \<langle>l, (r, b), rr'\<rangle>" "\<not> g" "grew rr rr' False" using "2.prems"(2) 2 n e(2) g by (simp_all del: right_grown.simps)
      with grew_same(2) [OF "2.prems"(1)] show ?thesis by simp
    qed
  next
    case 3
    then show ?thesis using "2.prems" by (auto simp: grew_def)
  qed
qed (auto simp: grew_def)

section \<open>Order\<close>

text \<open>Lists of nodes with increasing values, and such a list after the insertion of a node.\<close>

abbreviation incr :: "(nat \<Rightarrow> u64) \<Rightarrow> nat list \<Rightarrow> bool" where
  "incr v \<equiv> sorted_wrt (\<lambda>i j. v i < v j)"

lemma incr_mid:
  "incr v (xs @ y # ys) \<longleftrightarrow> incr v xs \<and> incr v ys \<and> (\<forall>x\<in>set xs. v x < v y) \<and> (\<forall>z\<in>set ys. v y < v z)"
  by (fastforce simp: sorted_wrt_append intro: less_trans)

definition added :: "(nat \<Rightarrow> u64) \<Rightarrow> nat \<Rightarrow> nat list \<Rightarrow> nat list \<Rightarrow> bool" where
  "added v i xs xs' \<longleftrightarrow> incr v xs' \<and> set xs' = (if v i \<in> v ` set xs then set xs else insert i (set xs))"

lemma added_left:
  assumes "incr v (xs @ y # ys)" "added v i xs xs'" "v i < v y"
  shows "added v i (xs @ y # ys) (xs' @ y # ys)"
proof -
  have "v i \<notin> v ` set ys" "v i \<noteq> v y" using assms(1,3) by (force simp: incr_mid)+
  with assms show ?thesis by (auto simp: added_def incr_mid split: if_splits)
qed

lemma added_right:
  assumes "incr v (xs @ y # ys)" "added v i ys ys'" "v y < v i"
  shows "added v i (xs @ y # ys) (xs @ y # ys')"
proof -
  have "v i \<notin> v ` set xs" "v i \<noteq> v y" using assms(1,3) by (force simp: incr_mid)+
  with assms show ?thesis by (auto simp: added_def incr_mid split: if_splits)
qed

lemma added_ins:
  "avl t \<Longrightarrow> incr v (nodes_of t) \<Longrightarrow> ins v i t = (t', g) \<Longrightarrow> added v i (nodes_of t) (nodes_of t')"
proof (induction v i t arbitrary: t' g rule: ins.induct)
  case (2 v i l r b rr)
  have avl: "avl l" "avl rr" using "2.prems"(1) by auto
  have o: "incr v (nodes_of l @ r # nodes_of rr)" using "2.prems"(2) by simp
  then have ol: "incr v (nodes_of l)" "incr v (nodes_of rr)" by (simp_all add: incr_mid)
  obtain l' gl rr' gr where e: "ins v i l = (l', gl)" "ins v i rr = (rr', gr)" by fastforce
  consider "v i < v r" | "v r < v i" | "v i = v r" by fastforce
  then show ?case
  proof cases
    case 1
    then have "nodes_of t' = nodes_of l' @ r # nodes_of rr"
      using "2.prems" e(1) grew_left(2) [of l r b rr l' t' g] grew_ins [OF avl(1) e(1)]
      by (auto simp del: left_grown.simps split: if_splits)
    with added_left [OF o "2.IH"(1) [OF 1 avl(1) ol(1) e(1)] 1] show ?thesis by simp
  next
    case 2
    then have n: "\<not> v i < v r" by simp
    with 2 have "nodes_of t' = nodes_of l @ r # nodes_of rr'"
      using "2.prems" e(2) grew_right(2) [of l r b rr rr' t' g] grew_ins [OF avl(2) e(2)]
      by (auto simp del: right_grown.simps split: if_splits)
    with added_right [OF o "2.IH"(2) [OF n 2 avl(2) ol(2) e(2)] 2] show ?thesis by simp
  next
    case 3
    then show ?thesis using "2.prems" by (auto simp: added_def)
  qed
qed (auto simp: added_def)

section \<open>Pointer updates\<close>

fun owner :: "slot \<Rightarrow> nat set" where
  "owner Head = {}"
| "owner (Left i) = {i}"
| "owner (Right i) = {i}"

text \<open>From one state to the next only a slot, which gets the pointer \<open>p\<close>, and the links and balance of the nodes in \<open>X\<close> have changed.\<close>

definition only :: "slot \<Rightarrow> nat set \<Rightarrow> nat option \<Rightarrow> tree_mem \<Rightarrow> tree_mem \<Rightarrow> bool" where
  "only s X p m m' \<longleftrightarrow> t_head m' = t_head (slot_put s p m) \<and> (\<forall>j. j \<notin> X \<longrightarrow> t_node m' j = t_node (slot_put s p m) j)
    \<and> (\<forall>j. n_value (t_node m' j) = n_value (t_node m j))"

lemma slot_put_node [simp]: "j \<notin> owner s \<Longrightarrow> t_node (slot_put s p m) j = t_node m j"
  by (cases s) auto

lemma slot_put_value [simp]: "n_value (t_node (slot_put s p m) j) = n_value (t_node m j)"
  by (cases s) auto

lemma slot_put_same [simp]: "slot_get m s = p \<Longrightarrow> slot_put s p m = m"
  by (cases s) auto

lemma slot_get_only: "only s X p m m' \<Longrightarrow> owner s \<inter> X = {} \<Longrightarrow> slot_get m' s = p"
  by (cases s) (auto simp: only_def)

lemma only_trans:
  assumes "only s X p m m1" "only s X q m1 m2" "owner s \<inter> X = {}"
  shows "only s X q m m2"
proof -
  have "t_head (slot_put s q m1) = t_head (slot_put s q m)" "\<forall>j. j \<notin> X \<longrightarrow> t_node (slot_put s q m1) j = t_node (slot_put s q m) j"
    using assms(1,3) by (cases s; auto simp: only_def)+
  with assms(1,2) show ?thesis by (auto simp: only_def)
qed

lemma only_inner:
  assumes "only (Left r) Y p m m1 \<or> only (Right r) Y p m m1" "r \<in> X" "Y \<subseteq> X" "slot_get m s = q" "owner s \<inter> X = {}"
  shows "only s X q m m1"
proof -
  have "t_head m1 = t_head m" "\<forall>j. j \<notin> X \<longrightarrow> t_node m1 j = t_node m j" "\<forall>j. n_value (t_node m1 j) = n_value (t_node m j)"
    using assms(1,2,3) by (auto simp: only_def)
  with assms(4) show ?thesis by (simp add: only_def)
qed

lemma is_tree_put [simp]: "owner s \<inter> set (nodes_of t) = {} \<Longrightarrow> is_tree (t_node (slot_put s p m)) q t = is_tree (t_node m) q t"
  by (rule is_tree_cong, rule slot_put_node) blast

lemma is_tree_only: "only s X p m m' \<Longrightarrow> (X \<union> owner s) \<inter> set (nodes_of t) = {} \<Longrightarrow> is_tree (t_node m') q t = is_tree (t_node m) q t"
proof (rule is_tree_cong)
  fix i
  assume "only s X p m m'" "(X \<union> owner s) \<inter> set (nodes_of t) = {}" "i \<in> set (nodes_of t)"
  then have "t_node m' i = t_node (slot_put s p m) i" "i \<notin> owner s" unfolding only_def by blast+
  then show "t_node m' i = t_node m i" by simp
qed

text \<open>Changes to the nodes in a set, which the steps of a rotation build up.\<close>

definition within :: "nat set \<Rightarrow> tree_mem \<Rightarrow> tree_mem \<Rightarrow> bool" where
  "within X m m' \<longleftrightarrow> t_head m' = t_head m \<and> (\<forall>j. j \<notin> X \<longrightarrow> t_node m' j = t_node m j) \<and> (\<forall>j. n_value (t_node m' j) = n_value (t_node m j))"

lemma within_intros:
  "within X m m"
  "i \<in> X \<Longrightarrow> within X m m' \<Longrightarrow> within X m (slot_put (Left i) q m')"
  "i \<in> X \<Longrightarrow> within X m m' \<Longrightarrow> within X m (slot_put (Right i) q m')"
  "i \<in> X \<Longrightarrow> within X m m' \<Longrightarrow> within X m (set_bf i b m')"
  by (auto simp: within_def set_bf_def)

lemma only_put: "within X m m' \<Longrightarrow> only s X p m (slot_put s p m')"
  by (cases s) (auto simp: within_def only_def)

text \<open>The rotations in the array refine those on trees.\<close>

lemma avl_left_single:
  assumes t: "is_tree (t_node m) (slot_get m s) \<langle>\<langle>a, (p, LH), c\<rangle>, (r, LH), d\<rangle>" and d: "distinct (nodes_of \<langle>\<langle>a, (p, LH), c\<rangle>, (r, LH), d\<rangle>)"
    and o: "owner s \<inter> X = {}" "set (nodes_of \<langle>\<langle>a, (p, LH), c\<rangle>, (r, LH), d\<rangle>) \<subseteq> X"
  shows "\<exists>m' ptr. avl_left_grown s m x = Some (m', False) \<and> only s X ptr m m' \<and> is_tree (t_node m') ptr \<langle>a, (p, EH), \<langle>c, (r, EH), d\<rangle>\<rangle>"
proof -
  define m' where "m' = slot_put s (Some p) (set_bf r EH (set_bf p EH (slot_put (Right p) (Some r) (slot_put (Left r) (n_right (t_node m p)) m))))"
  have so: "owner s \<inter> set (nodes_of \<langle>a, (p, EH), \<langle>c, (r, EH), d\<rangle>\<rangle>) = {}" using o by auto
  have "avl_left_grown s m x = Some (m', False)" using t by (auto simp: avl_left_grown_def m'_def)
  moreover have "only s X (Some p) m m'" using o unfolding m'_def by (intro only_put within_intros) auto
  moreover have "is_tree (t_node m') (Some p) \<langle>a, (p, EH), \<langle>c, (r, EH), d\<rangle>\<rangle>"
    unfolding m'_def is_tree_put [OF so] using d t by (simp add: set_bf_def)
  ultimately show ?thesis by blast
qed

lemma avl_left_double:
  assumes t: "is_tree (t_node m) (slot_get m s) \<langle>\<langle>a, (p, RH), \<langle>c1, (q, bq), c2\<rangle>\<rangle>, (r, LH), d\<rangle>" and d: "distinct (nodes_of \<langle>\<langle>a, (p, RH), \<langle>c1, (q, bq), c2\<rangle>\<rangle>, (r, LH), d\<rangle>)"
    and o: "owner s \<inter> X = {}" "set (nodes_of \<langle>\<langle>a, (p, RH), \<langle>c1, (q, bq), c2\<rangle>\<rangle>, (r, LH), d\<rangle>) \<subseteq> X" and b: "bq = EH \<or> bq = LH \<or> bq = RH"
  shows "\<exists>m' ptr. avl_left_grown s m x = Some (m', False) \<and> only s X ptr m m' \<and> is_tree (t_node m') ptr \<langle>\<langle>a, (p, if bq = RH then LH else EH), c1\<rangle>, (q, EH), \<langle>c2, (r, if bq = LH then RH else EH), d\<rangle>\<rangle>"
proof -
  define m1 where "m1 = slot_put (Left q) (Some p) (slot_put (Right p) (n_left (t_node m q)) (slot_put (Right q) (Some r) (slot_put (Left r) (n_right (t_node m q)) m)))"
  define m' where "m' = slot_put s (Some q) (set_bf q EH (set_bf p (if bq = RH then LH else EH) (set_bf r (if bq = LH then RH else EH) m1)))"
  have so: "owner s \<inter> set (nodes_of \<langle>\<langle>a, (p, if bq = RH then LH else EH), c1\<rangle>, (q, EH), \<langle>c2, (r, if bq = LH then RH else EH), d\<rangle>\<rangle>) = {}" using o by auto
  have pqr: "p \<noteq> q" "p \<noteq> r" "q \<noteq> r" using d by auto
  have "avl_left_grown s m x = Some (m', False)"
    using t b pqr by (auto simp: avl_left_grown_def m'_def m1_def Let_def)
  moreover have "only s X (Some q) m m'" using o unfolding m'_def m1_def by (intro only_put within_intros) auto
  moreover have "is_tree (t_node m') (Some q) \<langle>\<langle>a, (p, if bq = RH then LH else EH), c1\<rangle>, (q, EH), \<langle>c2, (r, if bq = LH then RH else EH), d\<rangle>\<rangle>"
    unfolding m'_def is_tree_put [OF so] using d t by (simp add: set_bf_def m1_def)
  ultimately show ?thesis by blast
qed

lemma avl_right_single:
  assumes t: "is_tree (t_node m) (slot_get m s) \<langle>d, (r, RH), \<langle>c, (p, RH), a\<rangle>\<rangle>" and d: "distinct (nodes_of \<langle>d, (r, RH), \<langle>c, (p, RH), a\<rangle>\<rangle>)"
    and o: "owner s \<inter> X = {}" "set (nodes_of \<langle>d, (r, RH), \<langle>c, (p, RH), a\<rangle>\<rangle>) \<subseteq> X"
  shows "\<exists>m' ptr. avl_right_grown s m x = Some (m', False) \<and> only s X ptr m m' \<and> is_tree (t_node m') ptr \<langle>\<langle>d, (r, EH), c\<rangle>, (p, EH), a\<rangle>"
proof -
  define m' where "m' = slot_put s (Some p) (set_bf r EH (set_bf p EH (slot_put (Left p) (Some r) (slot_put (Right r) (n_left (t_node m p)) m))))"
  have so: "owner s \<inter> set (nodes_of \<langle>\<langle>d, (r, EH), c\<rangle>, (p, EH), a\<rangle>) = {}" using o by auto
  have "avl_right_grown s m x = Some (m', False)" using t by (auto simp: avl_right_grown_def m'_def)
  moreover have "only s X (Some p) m m'" using o unfolding m'_def by (intro only_put within_intros) auto
  moreover have "is_tree (t_node m') (Some p) \<langle>\<langle>d, (r, EH), c\<rangle>, (p, EH), a\<rangle>"
    unfolding m'_def is_tree_put [OF so] using d t by (simp add: set_bf_def)
  ultimately show ?thesis by blast
qed

lemma avl_right_double:
  assumes t: "is_tree (t_node m) (slot_get m s) \<langle>d, (r, RH), \<langle>\<langle>c2, (q, bq), c1\<rangle>, (p, LH), a\<rangle>\<rangle>" and d: "distinct (nodes_of \<langle>d, (r, RH), \<langle>\<langle>c2, (q, bq), c1\<rangle>, (p, LH), a\<rangle>\<rangle>)"
    and o: "owner s \<inter> X = {}" "set (nodes_of \<langle>d, (r, RH), \<langle>\<langle>c2, (q, bq), c1\<rangle>, (p, LH), a\<rangle>\<rangle>) \<subseteq> X" and b: "bq = EH \<or> bq = LH \<or> bq = RH"
  shows "\<exists>m' ptr. avl_right_grown s m x = Some (m', False) \<and> only s X ptr m m' \<and> is_tree (t_node m') ptr \<langle>\<langle>d, (r, if bq = RH then LH else EH), c2\<rangle>, (q, EH), \<langle>c1, (p, if bq = LH then RH else EH), a\<rangle>\<rangle>"
proof -
  define m1 where "m1 = slot_put (Right q) (Some p) (slot_put (Left p) (n_right (t_node m q)) (slot_put (Left q) (Some r) (slot_put (Right r) (n_left (t_node m q)) m)))"
  define m' where "m' = slot_put s (Some q) (set_bf q EH (set_bf p (if bq = LH then RH else EH) (set_bf r (if bq = RH then LH else EH) m1)))"
  have so: "owner s \<inter> set (nodes_of \<langle>\<langle>d, (r, if bq = RH then LH else EH), c2\<rangle>, (q, EH), \<langle>c1, (p, if bq = LH then RH else EH), a\<rangle>\<rangle>) = {}" using o by auto
  have pqr: "p \<noteq> q" "p \<noteq> r" "q \<noteq> r" using d by auto
  have "avl_right_grown s m x = Some (m', False)"
    using t b pqr by (auto simp: avl_right_grown_def m'_def m1_def Let_def)
  moreover have "only s X (Some q) m m'" using o unfolding m'_def m1_def by (intro only_put within_intros) auto
  moreover have "is_tree (t_node m') (Some q) \<langle>\<langle>d, (r, if bq = RH then LH else EH), c2\<rangle>, (q, EH), \<langle>c1, (p, if bq = LH then RH else EH), a\<rangle>\<rangle>"
    unfolding m'_def is_tree_put [OF so] using d t by (simp add: set_bf_def m1_def)
  ultimately show ?thesis by blast
qed

lemma avl_left_grown_refines:
  assumes t: "is_tree (t_node m) (slot_get m s) \<langle>l, (r, b), rr\<rangle>" and d: "distinct (nodes_of \<langle>l, (r, b), rr\<rangle>)"
    and o: "owner s \<inter> X = {}" "set (nodes_of \<langle>l, (r, b), rr\<rangle>) \<subseteq> X" and b: "b = EH \<or> b = RH \<or> b = LH"
    and l: "avl l" "b = LH \<longrightarrow> unbalanced l" and g: "left_grown l r b rr = (t', g)"
  shows "\<exists>m' p. avl_left_grown s m x = Some (m', g) \<and> only s X p m m' \<and> is_tree (t_node m') p t'"
proof -
  have r: "slot_get m s = Some r" "n_bf (t_node m r) = b" using t by auto
  consider "b = EH" | "b = RH" | "b = LH" using b by blast
  then show ?thesis
  proof cases
    case 1
    then show ?thesis
      using g t d r by (intro exI [of _ "set_bf r LH m"] exI [of _ "Some r"]) (use o in \<open>auto simp: avl_left_grown_def set_bf_def only_def\<close>)
  next
    case 2
    then show ?thesis
      using g t d r by (intro exI [of _ "set_bf r EH m"] exI [of _ "Some r"]) (use o in \<open>auto simp: avl_left_grown_def set_bf_def only_def\<close>)
  next
    case 3
    then have "unbalanced l" using l(2) by simp
    then obtain a p bp c where l': "l = \<langle>a, (p, bp), c\<rangle>" "bp = LH \<or> bp = RH" using l(1) by (cases l rule: unbalanced.cases) auto
    show ?thesis
    proof (cases "bp = LH")
      case True
      then show ?thesis using avl_left_single [of m s a p c r rr X x] t d o g unfolding 3 l' by auto
    next
      case False
      then obtain c1 q bq c2 where c: "bp = RH" "c = \<langle>c1, (q, bq), c2\<rangle>" "bq = EH \<or> bq = LH \<or> bq = RH"
        using l(1) l' by (cases c rule: avl.cases) auto
      then show ?thesis using avl_left_double [of m s a p c1 q bq c2 r rr X x] t d o g unfolding 3 l' by auto
    qed
  qed
qed

lemma avl_right_grown_refines:
  assumes t: "is_tree (t_node m) (slot_get m s) \<langle>l, (r, b), rr\<rangle>" and d: "distinct (nodes_of \<langle>l, (r, b), rr\<rangle>)"
    and o: "owner s \<inter> X = {}" "set (nodes_of \<langle>l, (r, b), rr\<rangle>) \<subseteq> X" and b: "b = EH \<or> b = RH \<or> b = LH"
    and rr: "avl rr" "b = RH \<longrightarrow> unbalanced rr" and g: "right_grown l r b rr = (t', g)"
  shows "\<exists>m' p. avl_right_grown s m x = Some (m', g) \<and> only s X p m m' \<and> is_tree (t_node m') p t'"
proof -
  have r: "slot_get m s = Some r" "n_bf (t_node m r) = b" using t by auto
  consider "b = EH" | "b = LH" | "b = RH" using b by blast
  then show ?thesis
  proof cases
    case 1
    then show ?thesis
      using g t d r by (intro exI [of _ "set_bf r RH m"] exI [of _ "Some r"]) (use o in \<open>auto simp: avl_right_grown_def set_bf_def only_def\<close>)
  next
    case 2
    then show ?thesis
      using g t d r by (intro exI [of _ "set_bf r EH m"] exI [of _ "Some r"]) (use o in \<open>auto simp: avl_right_grown_def set_bf_def only_def\<close>)
  next
    case 3
    then have "unbalanced rr" using rr(2) by simp
    then obtain c p bp a where rr': "rr = \<langle>c, (p, bp), a\<rangle>" "bp = LH \<or> bp = RH" using rr(1) by (cases rr rule: unbalanced.cases) auto
    show ?thesis
    proof (cases "bp = RH")
      case True
      then show ?thesis using avl_right_single [of m s l r c p a X x] t d o g unfolding 3 rr' by auto
    next
      case False
      then obtain c2 q bq c1 where c: "bp = LH" "c = \<langle>c2, (q, bq), c1\<rangle>" "bq = EH \<or> bq = LH \<or> bq = RH"
        using rr(1) rr' by (cases c rule: avl.cases) auto
      then show ?thesis using avl_right_double [of m s l r c2 q bq c1 p a X x] t d o g unfolding 3 rr' by auto
    qed
  qed
qed

lemma grew_unbalanced:
  "avl \<langle>l, (r, b), rr\<rangle> \<Longrightarrow> grew l l' True \<Longrightarrow> b = LH \<longrightarrow> unbalanced l'"
  "avl \<langle>l, (r, b), rr\<rangle> \<Longrightarrow> grew rr rr' True \<Longrightarrow> b = RH \<longrightarrow> unbalanced rr'"
  by (auto simp: grew_def)

lemma is_tree_child:
  assumes "is_tree (t_node m) (Some r) \<langle>l, (r, b), rr\<rangle>" "distinct (nodes_of \<langle>l, (r, b), rr\<rangle>)"
  shows "only (Left r) (insert i (set (nodes_of l))) p m m1 \<Longrightarrow> i \<notin> set (nodes_of \<langle>l, (r, b), rr\<rangle>) \<Longrightarrow> is_tree (t_node m1) p l' \<Longrightarrow>
      is_tree (t_node m1) (Some r) \<langle>l', (r, b), rr\<rangle>"
    and "only (Right r) (insert i (set (nodes_of rr))) p m m1 \<Longrightarrow> i \<notin> set (nodes_of \<langle>l, (r, b), rr\<rangle>) \<Longrightarrow> is_tree (t_node m1) p rr' \<Longrightarrow>
      is_tree (t_node m1) (Some r) \<langle>l, (r, b), rr'\<rangle>"
proof -
  show "is_tree (t_node m1) (Some r) \<langle>l', (r, b), rr\<rangle>"
    if c: "only (Left r) (insert i (set (nodes_of l))) p m m1" and i: "i \<notin> set (nodes_of \<langle>l, (r, b), rr\<rangle>)" and t: "is_tree (t_node m1) p l'"
  proof -
    have "t_node m1 r = (t_node m r)\<lparr>n_left := p\<rparr>" using c i assms(2) by (auto simp: only_def)
    moreover have "is_tree (t_node m1) q rr = is_tree (t_node m) q rr" for q
      by (rule is_tree_only [OF c]) (use i assms(2) in auto)
    ultimately show ?thesis using t assms(1) by simp
  qed
  show "is_tree (t_node m1) (Some r) \<langle>l, (r, b), rr'\<rangle>"
    if c: "only (Right r) (insert i (set (nodes_of rr))) p m m1" and i: "i \<notin> set (nodes_of \<langle>l, (r, b), rr\<rangle>)" and t: "is_tree (t_node m1) p rr'"
  proof -
    have "t_node m1 r = (t_node m r)\<lparr>n_right := p\<rparr>" using c i assms(2) by (auto simp: only_def)
    moreover have "is_tree (t_node m1) q l = is_tree (t_node m) q l" for q
      by (rule is_tree_only [OF c]) (use i assms(2) in auto)
    ultimately show ?thesis using t assms(1) by simp
  qed
qed

end
