(* ===== verification/Tree_Methods.thy ===== *)
theory Tree_Methods
  imports Tree_Avl
begin

text \<open>The tree methods as a whole: insertion into the array, search, removal, and the stressor.\<close>

section \<open>AVL insertion\<close>

lemma incr_distinct: "incr v xs \<Longrightarrow> distinct xs"
  by (induction xs) auto

lemma added_facts: "added v i xs xs' \<Longrightarrow> distinct xs'" "added v i xs xs' \<Longrightarrow> set xs' \<subseteq> insert i (set xs)"
  by (auto simp: added_def incr_distinct split: if_splits)

lemma grew_avl: "grew t t' g \<Longrightarrow> avl t'"
  by (simp add: grew_def)

lemma avl_insert_refines:
  "is_tree (t_node m) (slot_get m s) t \<Longrightarrow> avl t \<Longrightarrow> incr v (nodes_of t) \<Longrightarrow> v = (\<lambda>j. n_value (t_node m j)) \<Longrightarrow>
   i \<notin> set (nodes_of t) \<Longrightarrow> owner s \<inter> insert i (set (nodes_of t)) = {} \<Longrightarrow> ins v i t = (t', g) \<Longrightarrow>
   \<exists>m' p. avl_insert s i m False = Some (m', g) \<and> only s (insert i (set (nodes_of t))) p m m' \<and> is_tree (t_node m') p t'"
proof (induction v i t arbitrary: s m t' g rule: ins.induct)
  case (1 v i)
  define m' where "m' = set_bf i EH (slot_put (Right i) None (slot_put (Left i) None (slot_put s (Some i) m)))"
  have "slot_get m s = None" using 1 by simp
  then have "avl_insert s i m False = Some (m', True)" by (subst avl_insert.simps) (simp add: m'_def Let_def)
  moreover have "only s {i} (Some i) m m'" using 1(6) by (cases s) (auto simp: m'_def only_def set_bf_def)
  moreover have "is_tree (t_node m') (Some i) \<langle>\<langle>\<rangle>, (i, EH), \<langle>\<rangle>\<rangle>" by (simp add: m'_def set_bf_def)
  ultimately show ?case using 1 by auto
next
  case (2 v i l r b rr)
  let ?t = "\<langle>l, (r, b), rr\<rangle>" and ?X = "insert i (set (nodes_of \<langle>l, (r, b), rr\<rangle>))"
  have v: "v = (\<lambda>j. n_value (t_node m j))" by fact
  have avl: "avl l" "avl rr" and b: "b = EH \<or> b = RH \<or> b = LH" using "2.prems"(2) by auto
  have o: "incr v (nodes_of l)" "incr v (nodes_of rr)"
    using "2.prems"(3) by (auto simp: incr_mid)
  have d: "distinct (nodes_of ?t)" using "2.prems"(3) by (rule incr_distinct)
  have inc: "incr v (nodes_of l @ r # nodes_of rr)" using "2.prems"(3) by simp
  have r: "slot_get m s = Some r" "is_tree (t_node m) (Some r) ?t"  using "2.prems"(1) by auto
  obtain l' gl rr' gr where e: "ins v i l = (l', gl)" "ins v i rr = (rr', gr)" by fastforce
  consider "v i < v r" | "v r < v i" | "v i = v r" by fastforce
  then show ?case
  proof cases
    case 1
    obtain m1 p1 where m1: "avl_insert (Left r) i m False = Some (m1, gl)" "only (Left r) (insert i (set (nodes_of l))) p1 m m1" "is_tree (t_node m1) p1 l'"
      using "2.IH"(1) [OF 1 _ avl(1) o(1) v _ _ e(1), of "Left r"] r(2) "2.prems"(5) d by auto
    have in1: "only s ?X (Some r) m m1"
      by (rule only_inner [OF disjI1 [OF m1(2)]]) (use r "2.prems"(6) in auto)
    have m1r: "slot_get m1 s = Some r" by (rule slot_get_only [OF in1 "2.prems"(6)])
    have t1: "is_tree (t_node m1) (Some r) \<langle>l', (r, b), rr\<rangle>" by (rule is_tree_child(1) [OF r(2) d m1(2) "2.prems"(5) m1(3)])
    have a1: "added v i (nodes_of ?t) (nodes_of \<langle>l', (r, b), rr\<rangle>)"
      using added_left [OF inc added_ins [OF avl(1) o(1) e(1)] 1] by simp
    show ?thesis
    proof (cases gl)
      case True
      then have gr: "grew l l' True" using grew_ins [OF avl(1) e(1)] by simp
      have g': "left_grown l' r b rr = (t', g)" using "2.prems"(7) 1 e True by (simp del: left_grown.simps right_grown.simps)
      obtain m2 p where "avl_left_grown s m1 False = Some (m2, g)" "only s ?X p m1 m2" "is_tree (t_node m2) p t'"
        using avl_left_grown_refines [OF t1 [folded m1r] added_facts(1) [OF a1] "2.prems"(6) added_facts(2) [OF a1] b grew_avl [OF gr] grew_unbalanced(1) [OF "2.prems"(2) gr] g', of False]
        by blast
      then show ?thesis
        using only_trans [OF in1 _ "2.prems"(6)] r(1) m1(1) True 1 by (subst avl_insert.simps) (auto simp: v)
    next
      case False
      then have "t' = \<langle>l', (r, b), rr\<rangle>" "\<not> g" using "2.prems"(7) 1 e by simp_all
      then show ?thesis using in1 t1 r(1) m1(1) False 1 by (subst avl_insert.simps) (auto simp: v)
    qed
  next
    case 2
    then have n: "\<not> v i < v r" by simp
    obtain m1 p1 where m1: "avl_insert (Right r) i m False = Some (m1, gr)" "only (Right r) (insert i (set (nodes_of rr))) p1 m m1" "is_tree (t_node m1) p1 rr'"
      using "2.IH"(2) [OF n 2 _ avl(2) o(2) v _ _ e(2), of "Right r"] r(2) "2.prems"(5) d by auto
    have in1: "only s ?X (Some r) m m1"
      by (rule only_inner [OF disjI2 [OF m1(2)]]) (use r "2.prems"(6) in auto)
    have m1r: "slot_get m1 s = Some r" by (rule slot_get_only [OF in1 "2.prems"(6)])
    have t1: "is_tree (t_node m1) (Some r) \<langle>l, (r, b), rr'\<rangle>" by (rule is_tree_child(2) [OF r(2) d m1(2) "2.prems"(5) m1(3)])
    have a1: "added v i (nodes_of ?t) (nodes_of \<langle>l, (r, b), rr'\<rangle>)"
      using added_right [OF inc added_ins [OF avl(2) o(2) e(2)] 2] by simp
    show ?thesis
    proof (cases gr)
      case True
      then have gr: "grew rr rr' True" using grew_ins [OF avl(2) e(2)] by simp
      have g': "right_grown l r b rr' = (t', g)" using "2.prems"(7) 2 n e True by (simp del: left_grown.simps right_grown.simps)
      obtain m2 p where "avl_right_grown s m1 False = Some (m2, g)" "only s ?X p m1 m2" "is_tree (t_node m2) p t'"
        using avl_right_grown_refines [OF t1 [folded m1r] added_facts(1) [OF a1] "2.prems"(6) added_facts(2) [OF a1] b grew_avl [OF gr] grew_unbalanced(2) [OF "2.prems"(2) gr] g', of False]
        by blast
      then show ?thesis
        using only_trans [OF in1 _ "2.prems"(6)] r(1) m1(1) True 2 n by (subst avl_insert.simps) (auto simp: v)
    next
      case False
      then have "t' = \<langle>l, (r, b), rr'\<rangle>" "\<not> g" using "2.prems"(7) 2 n e by simp_all
      then show ?thesis using in1 t1 r(1) m1(1) False 2 n by (subst avl_insert.simps) (auto simp: v)
    qed
  next
    case 3
    then have "avl_insert s i m False = Some (m, False)" using r(1) by (subst avl_insert.simps) (simp add: v)
    moreover have "only s ?X (Some r) m m" using r(1) by (simp add: only_def)
    moreover have t': "t' = ?t" "g = False" using 3 "2.prems"(7) by auto
    ultimately show ?thesis using r(2) unfolding t' by blast
  qed
qed

section \<open>Search and removal\<close>

text \<open>The order that both methods keep: equal values go to the left.\<close>

fun search_tree :: "(nat \<Rightarrow> u64) \<Rightarrow> btree \<Rightarrow> bool" where
  "search_tree v \<langle>\<rangle> = True"
| "search_tree v \<langle>l, (r, b), rr\<rangle> =
    (search_tree v l \<and> search_tree v rr \<and> (\<forall>x\<in>set (nodes_of l). v x \<le> v r) \<and> (\<forall>x\<in>set (nodes_of rr). v r < v x))"

lemma incr_search_tree: "incr v (nodes_of t) \<Longrightarrow> search_tree v t"
  by (induction v t rule: search_tree.induct) (auto simp: incr_mid less_imp_le)

text \<open>The two searches have the same text, and both find every value of such a tree.\<close>

locale tree_search =
  fixes search :: "nat option \<Rightarrow> nat \<Rightarrow> tree_mem \<Rightarrow> nat option option"
  assumes search_eq: "search head node m =
    (case head of
       None \<Rightarrow> Some None
     | Some h \<Rightarrow>
        if n_value (t_node m node) = n_value (t_node m h) then Some (Some h)
        else search (if n_value (t_node m node) \<le> n_value (t_node m h) then n_left (t_node m h) else n_right (t_node m h)) node m)"
begin

lemma search_finds:
  assumes "is_tree (t_node m) p t" "search_tree v t" "v = (\<lambda>j. n_value (t_node m j))" "v i \<in> v ` set (nodes_of t)"
  shows "\<exists>k. search p i m = Some (Some k) \<and> k \<in> set (nodes_of t) \<and> v k = v i"
  using assms
proof (induction v t arbitrary: p rule: search_tree.induct)
  case (2 v l r b rr)
  have v: "v = (\<lambda>j. n_value (t_node m j))" by fact
  have p: "p = Some r" "is_tree (t_node m) (n_left (t_node m r)) l" "is_tree (t_node m) (n_right (t_node m r)) rr"
    using "2.prems"(1) by auto
  consider "v i = v r" | "v i < v r" | "v r < v i" by fastforce
  then show ?case
  proof cases
    case 1
    then show ?thesis using p(1) by (subst search_eq) (simp add: v)
  next
    case 2
    then have "v i \<in> v ` set (nodes_of l)" using "2.prems"(2,4) by force
    with "2.IH"(1) [OF p(2) _ v] "2.prems"(2) obtain k where "search (n_left (t_node m r)) i m = Some (Some k)" "k \<in> set (nodes_of l)" "v k = v i" by auto
    then show ?thesis using 2 p(1) by (subst search_eq) (auto simp: v)
  next
    case 3
    then have "v i \<in> v ` set (nodes_of rr)" using "2.prems"(2,4) by force
    with "2.IH"(2) [OF p(3) _ v] "2.prems"(2) obtain k where "search (n_right (t_node m r)) i m = Some (Some k)" "k \<in> set (nodes_of rr)" "v k = v i" by auto
    then show ?thesis using 3 p(1) by (subst search_eq) (auto simp: v)
  qed
qed simp

end

interpretation bin: tree_search binary_find
  by unfold_locales (rule binary_find.simps)

interpretation avl: tree_search avl_find
  by unfold_locales (rule avl_find.simps)

lemma avl_remove_returns: "is_tree (t_node m) p t \<Longrightarrow> avl_remove_tree p m = Some m"
proof (induction "t_node m" p t rule: is_tree.induct)
  case (2 p l i b r)
  then show ?case by (subst avl_remove_tree.simps) simp
qed (simp add: avl_remove_tree.simps)

section \<open>Loops over the array\<close>

lemma each_node_append: "each_node f (xs @ ys) s = Option.bind (each_node f xs s) (each_node f ys)"
  by (induction xs arbitrary: s) (auto split: Option.bind_splits)

lemma each_node_upt:
  assumes "I 0 s" and "\<And>i s. i < n \<Longrightarrow> I i s \<Longrightarrow> \<exists>s'. f i s = Some s' \<and> I (Suc i) s'"
  shows "\<exists>s'. each_node f [0..<n] s = Some s' \<and> I n s'"
  using assms(2)
proof (induction n)
  case 0
  then show ?case using assms(1) by simp
next
  case (Suc n)
  then obtain s1 where s1: "each_node f [0..<n] s = Some s1" "I n s1" by (metis less_SucI)
  moreover obtain s2 where "f n s1 = Some s2" "I (Suc n) s2" using Suc.prems [of n s1] s1(2) by auto
  ultimately show ?case by (simp add: each_node_append)
qed

lemma find_all_quiet:
  assumes "\<And>i. i < n \<Longrightarrow> \<exists>k. search (t_head m) i m = Some (Some k)"
  shows "find_all search n m = Some []"
proof -
  have "\<exists>s'. each_node (\<lambda>i errs. Option.bind (search (t_head m) i m) (\<lambda>res. Some (if res = None then errs @ [i] else errs))) [0..<n] [] = Some s' \<and> s' = []"
    by (rule each_node_upt [where I = "\<lambda>_ errs. errs = []"]) (use assms in fastforce)+
  then show ?thesis by (simp add: find_all_def)
qed

section \<open>The AVL method\<close>

text \<open>The tree in the array after the first \<open>k\<close> nodes.\<close>

definition avl_in :: "(nat \<Rightarrow> u64) \<Rightarrow> nat \<Rightarrow> tree_mem \<Rightarrow> btree \<Rightarrow> bool" where
  "avl_in v k m t \<longleftrightarrow> is_tree (t_node m) (t_head m) t \<and> (\<forall>j. n_value (t_node m j) = v j) \<and> avl t \<and> incr v (nodes_of t)
    \<and> set (nodes_of t) \<subseteq> {..<k} \<and> v ` set (nodes_of t) = v ` {..<k}"

lemma avl_in_step:
  assumes "avl_in v k m t"
  shows "\<exists>m' t'. map_option fst (avl_insert Head k m False) = Some m' \<and> avl_in v (Suc k) m' t'"
proof -
  have t: "is_tree (t_node m) (slot_get m Head) t" "avl t" "incr v (nodes_of t)" "v = (\<lambda>j. n_value (t_node m j))"
    and k: "k \<notin> set (nodes_of t)" "owner Head \<inter> insert k (set (nodes_of t)) = {}"
    using assms by (auto simp: avl_in_def)
  obtain t' g where e: "ins v k t = (t', g)" by fastforce
  obtain m' p where m': "avl_insert Head k m False = Some (m', g)" "only Head (insert k (set (nodes_of t))) p m m'" "is_tree (t_node m') p t'"
    using avl_insert_refines [OF t k e] by blast
  have a: "added v k (nodes_of t) (nodes_of t')" by (rule added_ins [OF t(2,3) e])
  have "t_head m' = p" using slot_get_only [OF m'(2) k(2)] by simp
  moreover have "\<forall>j. n_value (t_node m' j) = v j" using m'(2) t(4) by (simp add: only_def)
  moreover have "set (nodes_of t') \<subseteq> {..<Suc k}" using added_facts(2) [OF a] assms unfolding avl_in_def lessThan_Suc by blast
  moreover have "v ` set (nodes_of t') = v ` {..<Suc k}"
    using a assms unfolding added_def avl_in_def lessThan_Suc image_insert by (auto split: if_splits)
  ultimately have "avl_in v (Suc k) m' t'"
    using m'(3) grew_avl [OF grew_ins [OF t(2) e]] a unfolding avl_in_def added_def by blast
  with m'(1) show ?thesis by auto
qed

lemma avl_height: "avl t \<Longrightarrow> 2 ^ (height t div 2) \<le> size1 t"
proof (induction t rule: avl.induct)
  case (2 l i b r)
  let ?h = "height l" and ?k = "height r"
  have IH: "2 ^ (?h div 2) \<le> size1 l" "2 ^ (?k div 2) \<le> size1 r" using "2.prems" "2.IH" by auto
  define c where "c = (max ?h ?k - 1) div 2"
  have "?h = ?k \<or> ?h = ?k + 1 \<or> ?k = ?h + 1" using "2.prems" by auto
  then have "Suc (max ?h ?k) div 2 \<le> Suc c" "c \<le> ?h div 2" "c \<le> ?k div 2" by (auto simp: c_def)
  then have "(2::nat) ^ (Suc (max ?h ?k) div 2) \<le> 2 ^ Suc c" "(2::nat) ^ c \<le> 2 ^ (?h div 2)" "(2::nat) ^ c \<le> 2 ^ (?k div 2)"
    by (intro power_increasing; simp)+
  with IH have "(2::nat) ^ (Suc (max ?h ?k) div 2) \<le> size1 l + size1 r" unfolding power_Suc by linarith
  then show ?case by simp
qed simp

lemma avl_method:
  "\<exists>m' t. stress_tree_avl n m = Some ([], m') \<and> is_tree (t_node m') (t_head m') t \<and> avl t
    \<and> (\<forall>j. n_value (t_node m' j) = n_value (t_node m j))
    \<and> incr (\<lambda>j. n_value (t_node m j)) (nodes_of t)
    \<and> (\<lambda>j. n_value (t_node m j)) ` set (nodes_of t) = (\<lambda>j. n_value (t_node m j)) ` {..<n}
    \<and> 2 ^ (height t div 2) \<le> n + 1"
proof -
  let ?v = "\<lambda>j. n_value (t_node m j)"
  have "\<exists>m'. each_node (\<lambda>i m. map_option fst (avl_insert Head i m False)) [0..<n] (m\<lparr>t_head := None\<rparr>) = Some m' \<and> (\<exists>t. avl_in ?v n m' t)"
  proof (rule each_node_upt [where I = "\<lambda>k m'. \<exists>t. avl_in ?v k m' t"])
    show "\<exists>t. avl_in ?v 0 (m\<lparr>t_head := None\<rparr>) t" by (intro exI [of _ "\<langle>\<rangle>"]) (simp add: avl_in_def)
  qed (use avl_in_step in blast)
  then obtain m' t where m': "each_node (\<lambda>i m. map_option fst (avl_insert Head i m False)) [0..<n] (m\<lparr>t_head := None\<rparr>) = Some m'"
    and t: "is_tree (t_node m') (t_head m') t" "\<forall>j. n_value (t_node m' j) = ?v j" "avl t" "incr ?v (nodes_of t)"
      "set (nodes_of t) \<subseteq> {..<n}" "?v ` set (nodes_of t) = ?v ` {..<n}"
    unfolding avl_in_def by blast
  have v: "?v = (\<lambda>j. n_value (t_node m' j))" using t(2) by simp
  have "find_all avl_find n m' = Some []"
  proof (rule find_all_quiet)
    show "\<exists>k. avl_find (t_head m') i m' = Some (Some k)" if "i < n" for i
      using avl.search_finds [OF t(1) incr_search_tree [OF t(4)] v, of i] t(6) that by blast
  qed
  then have "stress_tree_avl n m = Some ([], m')" using m' avl_remove_returns [OF t(1)] by (simp add: stress_tree_avl_def)
  moreover have "size1 t \<le> n + 1"
  proof -
    have "size1 t = card (set (nodes_of t)) + 1" using incr_distinct [OF t(4)] by (simp add: distinct_card size1_size del: set_map)
    also have "\<dots> \<le> n + 1" using card_mono [OF _ t(5)] by simp
    finally show ?thesis .
  qed
  ultimately show ?thesis using t avl_height [OF t(3)] by (intro exI [of _ m'] exI [of _ t]) auto
qed

text \<open>
  C3: whatever links the array holds, the AVL method builds a search tree of exactly the values of the nodes that is balanced
  as its balance factors say, so that its height is at most twice the logarithm of the number of nodes; it finds every node, reports
  none and returns.
\<close>

theorem avl_method_correct:
  "\<exists>m' t. stress_tree_avl n m = Some ([], m') \<and> is_tree (t_node m') (t_head m') t \<and> avl t
    \<and> (\<forall>j. n_value (t_node m' j) = n_value (t_node m j))
    \<and> incr (\<lambda>j. n_value (t_node m j)) (nodes_of t)
    \<and> (\<lambda>j. n_value (t_node m j)) ` set (nodes_of t) = (\<lambda>j. n_value (t_node m j)) ` {..<n}
    \<and> 2 ^ (height t div 2) \<le> n + 1"
  by (rule avl_method)

section \<open>The binary method\<close>

abbreviation cleared :: "tree_node \<Rightarrow> tree_node" where
  "cleared x \<equiv> x\<lparr>n_left := None, n_right := None\<rparr>"

text \<open>Insertion of a node without links below a leaf.\<close>

fun bin_ins :: "(nat \<Rightarrow> tree_node) \<Rightarrow> nat \<Rightarrow> btree \<Rightarrow> btree" where
  "bin_ins h i \<langle>\<rangle> = \<langle>\<langle>\<rangle>, (i, n_bf (h i)), \<langle>\<rangle>\<rangle>"
| "bin_ins h i \<langle>l, (r, b), rr\<rangle> = (if n_value (h i) \<le> n_value (h r) then \<langle>bin_ins h i l, (r, b), rr\<rangle> else \<langle>l, (r, b), bin_ins h i rr\<rangle>)"

lemma set_bin_ins: "set (nodes_of (bin_ins h i t)) = insert i (set (nodes_of t))"
  by (induction h i t rule: bin_ins.induct) auto

lemma distinct_bin_ins: "distinct (nodes_of t) \<Longrightarrow> i \<notin> set (nodes_of t) \<Longrightarrow> distinct (nodes_of (bin_ins h i t))"
proof (induction h i t rule: bin_ins.induct)
  case (2 h i l r b rr)
  then show ?case using set_bin_ins [of h i l] set_bin_ins [of h i rr] by auto
qed auto

lemma search_tree_bin_ins: "search_tree (\<lambda>j. n_value (h j)) t \<Longrightarrow> search_tree (\<lambda>j. n_value (h j)) (bin_ins h i t)"
proof (induction h i t rule: bin_ins.induct)
  case (2 h i l r b rr)
  then show ?case using set_bin_ins [of h i l] set_bin_ins [of h i rr] by (auto simp del: set_map)
qed auto

lemma only_mono: "only s X p m m' \<Longrightarrow> X \<subseteq> Y \<Longrightarrow> only s Y p m m'"
  by (auto simp: only_def)

text \<open>Insertion changes nothing but links.\<close>

lemma binary_insert_refines:
  assumes "is_tree (t_node m) (slot_get m s) t" "distinct (nodes_of t)" "i \<notin> set (nodes_of t)" "t_node m i = cleared (t_node m i)"
    "owner s \<inter> insert i (set (nodes_of t)) = {}"
  shows "\<exists>m' p. binary_insert s i m = Some m' \<and> only s (set (nodes_of t)) p m m' \<and> is_tree (t_node m') p (bin_ins (t_node m) i t)
    \<and> (\<forall>j. cleared (t_node m' j) = cleared (t_node m j))"
  using assms
proof (induction "t_node m" i t arbitrary: s rule: bin_ins.induct)
  case (1 i)
  have "slot_get m s = None" using 1 by simp
  then have "binary_insert s i m = Some (slot_put s (Some i) m)" by (subst binary_insert.simps) simp
  moreover have "n_left (t_node m i) = None" "n_right (t_node m i) = None" using 1(4) by (metis tree_node.ext_inject tree_node.surjective tree_node.update_convs(1,2))+
  then have "is_tree (t_node (slot_put s (Some i) m)) (Some i) (bin_ins (t_node m) i \<langle>\<rangle>)" using 1(5) by simp
  moreover have "cleared (t_node (slot_put s (Some i) m) j) = cleared (t_node m j)" for j by (cases s) auto
  ultimately show ?case by (auto simp: only_def intro!: exI [of _ "Some i"])
next
  case (2 i l r b rr)
  let ?X = "set (nodes_of \<langle>l, (r, b), rr\<rangle>)"
  have r: "slot_get m s = Some r" "is_tree (t_node m) (Some r) \<langle>l, (r, b), rr\<rangle>" using "2.prems"(1) by auto
  show ?case
  proof (cases "n_value (t_node m i) \<le> n_value (t_node m r)")
    case True
    then obtain m1 p where m1: "binary_insert (Left r) i m = Some m1" "only (Left r) (set (nodes_of l)) p m m1"
      "is_tree (t_node m1) p (bin_ins (t_node m) i l)" "\<forall>j. cleared (t_node m1 j) = cleared (t_node m j)"
      using "2.hyps"(1) [of "Left r"] "2.prems" by auto
    then have "binary_insert s i m = Some m1" using r(1) True by (subst binary_insert.simps) simp
    moreover have "only s ?X (Some r) m m1" by (rule only_inner [OF disjI1 [OF m1(2)]]) (use r(1) "2.prems"(5) in auto)
    moreover have "is_tree (t_node m1) (Some r) \<langle>bin_ins (t_node m) i l, (r, b), rr\<rangle>"
      by (rule is_tree_child(1) [OF r(2) "2.prems"(2) only_mono [OF m1(2)] "2.prems"(3) m1(3)]) blast
    ultimately show ?thesis using m1(4) True by auto
  next
    case False
    then obtain m1 p where m1: "binary_insert (Right r) i m = Some m1" "only (Right r) (set (nodes_of rr)) p m m1"
      "is_tree (t_node m1) p (bin_ins (t_node m) i rr)" "\<forall>j. cleared (t_node m1 j) = cleared (t_node m j)"
      using "2.hyps"(2) [of "Right r"] "2.prems" by auto
    then have "binary_insert s i m = Some m1" using r(1) False by (subst binary_insert.simps) simp
    moreover have "only s ?X (Some r) m m1" by (rule only_inner [OF disjI2 [OF m1(2)]]) (use r(1) "2.prems"(5) in auto)
    moreover have "is_tree (t_node m1) (Some r) \<langle>l, (r, b), bin_ins (t_node m) i rr\<rangle>"
      by (rule is_tree_child(2) [OF r(2) "2.prems"(2) only_mono [OF m1(2)] "2.prems"(3) m1(3)]) blast
    ultimately show ?thesis using m1(4) False by auto
  qed
qed

text \<open>Removal clears the links of the nodes of the tree.\<close>

definition clear_nodes :: "nat set \<Rightarrow> tree_mem \<Rightarrow> tree_mem" where
  "clear_nodes X m = m\<lparr>t_node := \<lambda>j. if j \<in> X then cleared (t_node m j) else t_node m j\<rparr>"

lemma binary_remove_clears:
  "is_tree (t_node m) p t \<Longrightarrow> distinct (nodes_of t) \<Longrightarrow> binary_remove_tree p m = Some (clear_nodes (set (nodes_of t)) m)"
proof (induction t arbitrary: p m)
  case Leaf
  then show ?case by (simp add: binary_remove_tree.simps clear_nodes_def)
next
  case (Node l x r)
  obtain i b where x: "x = (i, b)" by fastforce
  have t: "p = Some i" "is_tree (t_node m) (n_left (t_node m i)) l" "is_tree (t_node m) (n_right (t_node m i)) r" using Node.prems(1) by (auto simp: x)
  have d: "distinct (nodes_of l)" "distinct (nodes_of r)" "i \<notin> set (nodes_of l)" "i \<notin> set (nodes_of r)" "set (nodes_of l) \<inter> set (nodes_of r) = {}"
    using Node.prems(2) by (auto simp: x)
  define m1 where "m1 = clear_nodes (set (nodes_of l)) m"
  have "n_right (t_node m1 i) = n_right (t_node m i)" using d(3) by (simp add: m1_def clear_nodes_def)
  moreover have "is_tree (t_node m1) (n_right (t_node m i)) r = is_tree (t_node m) (n_right (t_node m i)) r"
    by (rule is_tree_cong) (use d(5) in \<open>auto simp: m1_def clear_nodes_def\<close>)
  ultimately have "binary_remove_tree (n_right (t_node m1 i)) m1 = Some (clear_nodes (set (nodes_of r)) m1)"
    using Node.IH(2) t(3) d(2) by simp
  moreover have "binary_remove_tree (n_left (t_node m i)) m = Some m1" using Node.IH(1) [OF t(2) d(1)] by (simp add: m1_def)
  ultimately have "binary_remove_tree p m = Some (slot_put (Right i) None (slot_put (Left i) None (clear_nodes (set (nodes_of r)) m1)))"
    using t(1) by (subst binary_remove_tree.simps) simp
  also have "slot_put (Right i) None (slot_put (Left i) None (clear_nodes (set (nodes_of r)) m1)) = clear_nodes (set (nodes_of \<langle>l, x, r\<rangle>)) m"
    using d by (auto simp: m1_def clear_nodes_def x fun_eq_iff)
  finally show ?case .
qed

definition bin_in :: "tree_mem \<Rightarrow> nat \<Rightarrow> tree_mem \<Rightarrow> btree \<Rightarrow> bool" where
  "bin_in m0 k m t \<longleftrightarrow> is_tree (t_node m) (t_head m) t \<and> distinct (nodes_of t) \<and> set (nodes_of t) = {..<k}
    \<and> search_tree (\<lambda>j. n_value (t_node m j)) t \<and> (\<forall>j. cleared (t_node m j) = cleared (t_node m0 j)) \<and> (\<forall>j\<ge>k. t_node m j = t_node m0 j)"

lemma bin_in_step:
  assumes "bin_in m0 k m t" "t_node m0 k = cleared (t_node m0 k)"
  shows "\<exists>m' t'. binary_insert Head k m = Some m' \<and> bin_in m0 (Suc k) m' t'"
proof -
  have t: "is_tree (t_node m) (slot_get m Head) t" "distinct (nodes_of t)" "k \<notin> set (nodes_of t)" "t_node m k = cleared (t_node m k)"
    "owner Head \<inter> insert k (set (nodes_of t)) = {}"
    using assms by (auto simp: bin_in_def)
  let ?t = "bin_ins (t_node m) k t"
  obtain m' p where m': "binary_insert Head k m = Some m'" "only Head (set (nodes_of t)) p m m'" "is_tree (t_node m') p ?t"
    "\<forall>j. cleared (t_node m' j) = cleared (t_node m j)"
    using binary_insert_refines [OF t] by blast
  have h: "t_head m' = p" using slot_get_only [OF m'(2)] by simp
  have v: "(\<lambda>j. n_value (t_node m' j)) = (\<lambda>j. n_value (t_node m j))" using m'(2) by (simp add: only_def)
  have s: "search_tree (\<lambda>j. n_value (t_node m j)) ?t" using assms(1) by (intro search_tree_bin_ins) (simp add: bin_in_def)
  have n: "set (nodes_of ?t) = {..<Suc k}" using assms(1) unfolding set_bin_ins bin_in_def lessThan_Suc by blast
  have o: "t_node m' j = t_node m0 j" if "Suc k \<le> j" for j
  proof -
    have "j \<notin> set (nodes_of t)" using assms(1) that unfolding bin_in_def by simp
    then have "t_node m' j = t_node m j" using m'(2) by (simp add: only_def)
    then show ?thesis using assms(1) that by (simp add: bin_in_def)
  qed
  have "\<forall>j. cleared (t_node m' j) = cleared (t_node m0 j)" using m'(4) assms(1) by (simp add: bin_in_def)
  then have "bin_in m0 (Suc k) m' ?t"
    unfolding bin_in_def h v using m'(3) distinct_bin_ins [OF t(2,3)] n s o by blast
  with m'(1) show ?thesis by blast
qed

lemma binary_method:
  assumes "\<forall>i<n. t_node m i = cleared (t_node m i)"
  shows "\<exists>m'. stress_tree_binary n m = Some ([], m') \<and> t_node m' = t_node m"
proof -
  let ?m = "m\<lparr>t_head := None\<rparr>"
  have "\<exists>m'. each_node (binary_insert Head) [0..<n] ?m = Some m' \<and> (\<exists>t. bin_in m n m' t)"
  proof (rule each_node_upt [where I = "\<lambda>k m'. \<exists>t. bin_in m k m' t"])
    show "\<exists>t. bin_in m 0 ?m t" by (intro exI [of _ "\<langle>\<rangle>"]) (simp add: bin_in_def)
  qed (use bin_in_step assms in blast)
  then obtain m' t where m': "each_node (binary_insert Head) [0..<n] ?m = Some m'" and b: "bin_in m n m' t" by blast
  have t: "is_tree (t_node m') (t_head m') t" "distinct (nodes_of t)" "search_tree (\<lambda>j. n_value (t_node m' j)) t" "set (nodes_of t) = {..<n}"
    using b unfolding bin_in_def by blast+
  have "find_all binary_find n m' = Some []"
  proof (rule find_all_quiet)
    show "\<exists>k. binary_find (t_head m') i m' = Some (Some k)" if "i < n" for i
      using bin.search_finds [OF t(1,3) refl, of i] that unfolding t(4) by blast
  qed
  then have "stress_tree_binary n m = Some ([], clear_nodes {..<n} m')"
    using m' binary_remove_clears [OF t(1,2)] unfolding stress_tree_binary_def t(4) by simp
  moreover have "t_node (clear_nodes {..<n} m') j = t_node m j" for j
    using b assms unfolding bin_in_def by (cases "j < n") (auto simp: clear_nodes_def)
  ultimately show ?thesis by blast
qed

section \<open>Stale links\<close>

text \<open>Links that end everywhere, and what a removal that returns says about them.\<close>

definition link :: "(nat \<Rightarrow> tree_node) \<Rightarrow> nat \<Rightarrow> nat \<Rightarrow> bool" where
  "link h a b \<longleftrightarrow> n_left (h a) = Some b \<or> n_right (h a) = Some b"

inductive fin :: "(nat \<Rightarrow> tree_node) \<Rightarrow> nat option \<Rightarrow> bool" for h where
  fin_None: "fin h None"
| fin_Some: "fin h (n_left (h i)) \<Longrightarrow> fin h (n_right (h i)) \<Longrightarrow> fin h (Some i)"

inductive_cases fin_SomeE: "fin h (Some i)"

lemma fin_link: "fin h (Some a) \<Longrightarrow> link h a b \<Longrightarrow> fin h (Some b)"
  by (erule fin_SomeE) (auto simp: link_def)

lemma fin_acyclic: "fin h p \<Longrightarrow> p = Some j \<Longrightarrow> \<not> (link h)\<^sup>+\<^sup>+ j j"
proof (induction arbitrary: j rule: fin.induct)
  case (fin_Some i)
  show ?case
  proof
    assume "(link h)\<^sup>+\<^sup>+ j j"
    then obtain k where k: "link h j k" "(link h)\<^sup>*\<^sup>* k j" using tranclpD [of "link h" j j] by blast
    have "(link h)\<^sup>+\<^sup>+ k k" using k(2,1) by (rule rtranclp_into_tranclp1)
    moreover have "n_left (h i) = Some k \<or> n_right (h i) = Some k" using k(1) fin_Some.prems by (simp add: link_def)
    then have "\<not> (link h)\<^sup>+\<^sup>+ k k" using fin_Some.IH by blast
    ultimately show False by blast
  qed
qed simp

lemma fin_restore:
  assumes "fin h' p" and "\<And>j. h' j = h j \<or> fin h (Some j)"
  shows "fin h p"
  using assms(1)
proof (induction rule: fin.induct)
  case (fin_Some i)
  show ?case
  proof (cases "fin h (Some i)")
    case False
    then have "h' i = h i" using assms(2) by blast
    with fin_Some.IH show ?thesis by (auto intro: fin.fin_Some)
  qed
qed (rule fin_None)

definition ended :: "nat option \<Rightarrow> tree_mem \<Rightarrow> tree_mem \<Rightarrow> bool" where
  "ended p m m' \<longleftrightarrow> fin (t_node m) p \<and> (\<forall>j. t_node m' j = t_node m j \<or> fin (t_node m) (Some j))"

lemma ended_step:
  assumes IH: "\<And>p m m'. rem p m = Some m' \<Longrightarrow> ended p m m'"
    and b: "(case p of None \<Rightarrow> Some m
      | Some i \<Rightarrow> Option.bind (rem (n_left (t_node m i)) m) (\<lambda>m. Option.bind (rem (n_right (t_node m i)) m) (\<lambda>m.
          Some (slot_put (Right i) None (slot_put (Left i) None m))))) = Some m'"
  shows "ended p m m'"
proof (cases p)
  case None
  then show ?thesis using b by (auto simp: ended_def intro: fin_None)
next
  case (Some i)
  then obtain m1 m2 where m1: "rem (n_left (t_node m i)) m = Some m1" and m2: "rem (n_right (t_node m1 i)) m1 = Some m2"
    and m': "m' = slot_put (Right i) None (slot_put (Left i) None m2)"
    using b by (auto simp del: slot_put.simps simp: bind_eq_Some_conv)
  have f1: "fin (t_node m) (n_left (t_node m i))" "\<And>j. t_node m1 j = t_node m j \<or> fin (t_node m) (Some j)"
    and f2: "fin (t_node m1) (n_right (t_node m1 i))" "\<And>j. t_node m2 j = t_node m1 j \<or> fin (t_node m1) (Some j)"
    using IH [OF m1] IH [OF m2] unfolding ended_def by blast+
  have prior: "fin (t_node m) q" if "fin (t_node m1) q" for q by (rule fin_restore [OF that f1(2)])
  have i: "fin (t_node m) (Some i)"
  proof (cases "t_node m1 i = t_node m i")
    case True
    then show ?thesis using fin.fin_Some [OF f1(1)] prior [OF f2(1)] by simp
  qed (use f1(2) in blast)
  have "t_node m' j = t_node m j \<or> fin (t_node m) (Some j)" for j
  proof (cases "j = i")
    case False
    then have "t_node m' j = t_node m2 j" by (simp add: m')
    then show ?thesis using f1(2) [of j] f2(2) [of j] prior [of "Some j"] by auto
  qed (use i in simp)
  with i Some show ?thesis unfolding ended_def by blast
qed

lemma binary_remove_ended: "binary_remove_tree p m = Some m' \<Longrightarrow> ended p m m'"
  by (erule binary_remove_tree.raw_induct [rotated]) (rule ended_step)

text \<open>Where insertion puts the node.\<close>

definition put_below :: "slot \<Rightarrow> nat \<Rightarrow> tree_mem \<Rightarrow> tree_mem \<Rightarrow> bool" where
  "put_below s i m m' \<longleftrightarrow> (\<exists>s'. slot_get m s' = None \<and> m' = slot_put s' (Some i) m
    \<and> (s' = s \<or> (\<exists>h k. slot_get m s = Some h \<and> (link (t_node m))\<^sup>*\<^sup>* h k \<and> (s' = Left k \<or> s' = Right k))))"

lemma put_below_step:
  assumes IH: "\<And>s i m m'. f s i m = Some m' \<Longrightarrow> put_below s i m m'"
    and b: "(case slot_get m s of None \<Rightarrow> Some (slot_put s (Some i) m)
      | Some h \<Rightarrow> f (if n_value (t_node m i) \<le> n_value (t_node m h) then Left h else Right h) i m) = Some m'"
  shows "put_below s i m m'"
proof (cases "slot_get m s")
  case None
  then show ?thesis using b by (auto simp: put_below_def)
next
  case (Some h)
  define s1 where "s1 = (if n_value (t_node m i) \<le> n_value (t_node m h) then Left h else Right h)"
  have s1: "s1 = Left h \<or> s1 = Right h" by (simp add: s1_def)
  have "f s1 i m = Some m'" using b Some by (simp add: s1_def)
  from IH [OF this] obtain s' where s': "slot_get m s' = None" "m' = slot_put s' (Some i) m"
    "s' = s1 \<or> (\<exists>h k. slot_get m s1 = Some h \<and> (link (t_node m))\<^sup>*\<^sup>* h k \<and> (s' = Left k \<or> s' = Right k))"
    unfolding put_below_def by blast
  have "\<exists>k. (link (t_node m))\<^sup>*\<^sup>* h k \<and> (s' = Left k \<or> s' = Right k)"
    using s'(3)
  proof
    assume "\<exists>h k. slot_get m s1 = Some h \<and> (link (t_node m))\<^sup>*\<^sup>* h k \<and> (s' = Left k \<or> s' = Right k)"
    then obtain h' k where k: "slot_get m s1 = Some h'" "(link (t_node m))\<^sup>*\<^sup>* h' k" "s' = Left k \<or> s' = Right k" by blast
    then have "link (t_node m) h h'" using s1 by (auto simp: link_def)
    with k(2) have "(link (t_node m))\<^sup>*\<^sup>* h k" by (rule converse_rtranclp_into_rtranclp [rotated])
    with k(3) show ?thesis by blast
  qed (use s1 in blast)
  with s'(1,2) Some show ?thesis unfolding put_below_def by blast
qed

lemma binary_insert_below: "binary_insert s i m = Some m' \<Longrightarrow> put_below s i m m'"
  by (erule binary_insert.raw_induct [rotated]) (rule put_below_step)

text \<open>An insertion that returns adds one link and takes none away.\<close>

lemma put_below_links:
  assumes "put_below s i m m'" "link (t_node m) a b"
  shows "link (t_node m') a b"
proof -
  obtain s' where "slot_get m s' = None" "m' = slot_put s' (Some i) m" using assms(1) unfolding put_below_def by blast
  then show ?thesis using assms(2) by (cases s') (auto simp: link_def)
qed

lemma tranclp_imp: "r\<^sup>+\<^sup>+ a b \<Longrightarrow> (\<And>x y. r x y \<Longrightarrow> s x y) \<Longrightarrow> s\<^sup>+\<^sup>+ a b"
  by (induction rule: tranclp_induct) (auto intro: tranclp.intros)

lemma put_below_value: "put_below s i m m' \<Longrightarrow> n_value (t_node m' j) = n_value (t_node m j)"
  unfolding put_below_def by auto

lemma put_below_head: "put_below s i m m' \<Longrightarrow> t_head m = Some h \<Longrightarrow> t_head m' = Some h"
  unfolding put_below_def by (metis option.distinct(1) slot.exhaust slot_get.simps(1) slot_put.simps(2,3) tree_mem.ext_inject tree_mem.surjective tree_mem.update_convs(2))

lemma each_node_inv:
  assumes "\<And>i s s'. i < n \<Longrightarrow> I i s \<Longrightarrow> f i s = Some s' \<Longrightarrow> I (Suc i) s'" "I 0 s" "each_node f [0..<n] s = Some s'"
  shows "I n s'"
  using assms
proof (induction n arbitrary: s')
  case (Suc n)
  then obtain s1 where "each_node f [0..<n] s = Some s1" "f n s1 = Some s'" by (auto simp: each_node_append bind_eq_Some_conv)
  moreover from this have "I n s1" using Suc.IH [of s1] Suc.prems(1,2) less_SucI by blast
  ultimately show ?case using Suc.prems(1) by blast
qed simp

text \<open>The array with a link from node 0 to a node \<open>j\<close> after the first \<open>k\<close> insertions.\<close>

definition stale :: "nat \<Rightarrow> nat \<Rightarrow> tree_mem \<Rightarrow> bool" where
  "stale j k m \<longleftrightarrow> n_right (t_node m 0) = Some j \<and> n_value (t_node m 0) < n_value (t_node m j)
    \<and> t_head m = (if k = 0 then None else Some 0) \<and> (j < k \<longrightarrow> (link (t_node m))\<^sup>+\<^sup>+ j j)"

lemma binary_insert_self:
  assumes "t_head m = Some 0" "n_right (t_node m 0) = Some j" "n_value (t_node m 0) < n_value (t_node m j)"
    "binary_insert Head j m = Some m'"
  shows "(link (t_node m'))\<^sup>+\<^sup>+ j j"
proof -
  have "binary_insert (Right 0) j m = Some m'" using assms(4) assms(3) [THEN less_le_not_le [THEN iffD1]] by (subst (asm) binary_insert.simps) (auto simp: assms(1))
  then have p: "put_below (Right 0) j m m'" by (rule binary_insert_below)
  then obtain s' k where s': "slot_get m s' = None" "m' = slot_put s' (Some j) m" "(link (t_node m))\<^sup>*\<^sup>* j k" "s' = Left k \<or> s' = Right k"
    using assms(2) unfolding put_below_def by auto
  have "(link (t_node m'))\<^sup>*\<^sup>* j k" using s'(3) by (rule rtranclp_mono [THEN predicate2D, rotated]) (use put_below_links [OF p] in blast)
  moreover have "link (t_node m') k j" using s'(2,4) by (auto simp: link_def)
  ultimately show ?thesis by (rule rtranclp_into_tranclp1)
qed

lemma stale_step:
  assumes "stale j k m" "0 < j" "binary_insert Head k m = Some m'"
  shows "stale j (Suc k) m'"
proof -
  have p: "put_below Head k m m'" using assms(3) by (rule binary_insert_below)
  have v: "n_value (t_node m' 0) < n_value (t_node m' j)" using assms(1) by (simp add: stale_def put_below_value [OF p])
  show ?thesis
  proof (cases "k = 0")
    case True
    then have "m' = m\<lparr>t_head := Some 0\<rparr>" using assms(1,3) by (simp add: stale_def binary_insert.simps [of Head])
    then show ?thesis using assms(1,2) True by (simp add: stale_def)
  next
    case False
    then have h: "t_head m = Some 0" "n_right (t_node m 0) = Some j" "n_value (t_node m 0) < n_value (t_node m j)" using assms(1) by (auto simp: stale_def)
    have r: "n_right (t_node m' 0) = Some j"
    proof -
      obtain s' where "slot_get m s' = None" "m' = slot_put s' (Some k) m" using p unfolding put_below_def by blast
      then show ?thesis using h(2) by (cases s') auto
    qed
    have "(link (t_node m'))\<^sup>+\<^sup>+ j j" if "j < Suc k"
    proof (cases "j = k")
      case True
      then show ?thesis using binary_insert_self [OF h] assms(3) by simp
    next
      case False
      then have "(link (t_node m))\<^sup>+\<^sup>+ j j" using that assms(1) by (simp add: stale_def)
      then show ?thesis by (rule tranclp_imp) (rule put_below_links [OF p])
    qed
    with r v put_below_head [OF p h(1)] show ?thesis by (simp add: stale_def)
  qed
qed

text \<open>
  C25: the binary method relies on nodes without links.  When the first node still has a right link to a later node of the array
  with a greater value, as the removal from a splay tree leaves it, then the method does not return: it inserts
  the node below itself and then follows the cycle in a later insertion, in the search or in the removal.
\<close>

theorem stale_links_hang:
  assumes "n_right (t_node m 0) = Some j" and "0 < j" "j < n" and "n_value (t_node m 0) < n_value (t_node m j)"
  shows "stress_tree_binary n m = None"
proof (rule ccontr)
  assume "stress_tree_binary n m \<noteq> None"
  then obtain m1 m2 where m1: "each_node (binary_insert Head) [0..<n] (m\<lparr>t_head := None\<rparr>) = Some m1"
    and m2: "binary_remove_tree (t_head m1) m1 = Some m2"
    by (auto simp: stress_tree_binary_def bind_eq_Some_conv)
  have "stale j n m1"
  proof (rule each_node_inv [where I = "stale j", OF _ _ m1])
    show "stale j (Suc i) m'" if "stale j i m" "binary_insert Head i m = Some m'" for i m m'
      by (rule stale_step [OF that(1) assms(2) that(2)])
    show "stale j 0 (m\<lparr>t_head := None\<rparr>)" using assms by (simp add: stale_def)
  qed
  then have s: "t_head m1 = Some 0" "link (t_node m1) 0 j" "(link (t_node m1))\<^sup>+\<^sup>+ j j" using assms(2,3) by (auto simp: stale_def link_def)
  have "fin (t_node m1) (Some 0)" using binary_remove_ended [OF m2] s(1) by (simp add: ended_def)
  then have "fin (t_node m1) (Some j)" using s(2) by (rule fin_link)
  then show False using fin_acyclic s(3) by blast
qed

definition two_nodes :: tree_mem where
  "two_nodes = \<lparr>t_head = None, t_node = \<lambda>i. \<lparr>n_left = None, n_right = (if i = 0 then Some 1 else None), n_bf = 0, n_value = of_nat i\<rparr>\<rparr>"

theorem stale_links_hang_witness: "stress_tree_binary 2 two_nodes = None"
  by (rule stale_links_hang [of _ 1]) (simp_all add: two_nodes_def)

end
