(* ===== verification/Tree_Props.thy ===== *)
theory Tree_Props
  imports Tree_Methods
begin

text \<open>The tree stressor from the option for its method to its exit status.\<close>

section \<open>Rounds\<close>

abbreviation no_links :: "nat \<Rightarrow> tree_mem \<Rightarrow> bool" where
  "no_links n m \<equiv> \<forall>i<n. n_left (t_node m i) = None \<and> n_right (t_node m i) = None"

lemma cleared_iff: "x = cleared x \<longleftrightarrow> n_left x = None \<and> n_right x = None"
  by (cases x) auto

lemma set_value_links: "no_links n m \<Longrightarrow> no_links n (set_value i v m)"
  by (auto simp: set_value_def)

lemma fold_set_value_links: "no_links n m \<Longrightarrow> no_links n (fold (\<lambda>i m. set_value i (f i m) m) is m)"
  by (induction "is" arbitrary: m) (simp_all add: set_value_links)

definition fill_step :: "nat \<Rightarrow> u64 \<times> u64 \<times> tree_drv \<Rightarrow> u64 \<times> u64 \<times> tree_drv" where
  "fill_step = (\<lambda>i (v, bit, d).
      let (v, bit, d) =
        (if bit = 0 then let (v, g) = mwc64 (d_rng d) in (v, 1, d\<lparr>d_rng := g\<rparr>)
         else (v XOR bit, push_bit 1 bit, d))
      in (ror64 v, bit, d\<lparr>d_mem := set_value i v (d_mem d)\<rparr>))"

text \<open>The stressor between two rounds, when no link is left.\<close>

definition tree_inv :: "nat \<Rightarrow> nat \<Rightarrow> tree_drv \<Rightarrow> bool" where
  "tree_inv n k d \<longleftrightarrow> d_counter d = of_nat k \<and> d_errs d = [] \<and> no_links n (d_mem d)"

definition tree_inv_any :: "nat \<Rightarrow> tree_drv \<Rightarrow> bool" where
  "tree_inv_any k d \<longleftrightarrow> d_counter d = of_nat k \<and> d_errs d = []"

lemma fill_step_inv: "tree_inv n 0 d \<Longrightarrow> tree_inv n 0 (snd (snd (fill_step i (v, bt, d))))"
  by (auto simp: fill_step_def tree_inv_def set_value_def Let_def split: prod.split)

lemma fill_values_inv: "tree_inv n 0 d \<Longrightarrow> tree_inv n 0 (fill_values k d)"
proof -
  assume "tree_inv n 0 d"
  then have "tree_inv n 0 (snd (snd (fold fill_step xs (v, bt, d))))" for xs v bt
  proof (induction xs arbitrary: v bt d)
    case (Cons i xs)
    obtain v' bt' d' where e: "fill_step i (v, bt, d) = (v', bt', d')" by (cases "fill_step i (v, bt, d)")
    have "tree_inv n 0 d'" using fill_step_inv [OF Cons.prems, of i v bt] by (simp add: e)
    from Cons.IH [OF this] show ?case by (simp add: e)
  qed simp
  then show ?thesis by (simp add: fill_values_def fill_step_def)
qed

interpretation binary_rounds: counted_step "tree_round stress_tree_binary n" "tree_inv n" 1 for n
proof (unfold_locales, goal_cases)
  case (1 k d)
  obtain m' where m': "stress_tree_binary n (d_mem d) = Some ([], m')" "t_node m' = t_node (d_mem d)"
    using binary_method [of n "d_mem d"] 1 by (auto simp: tree_inv_def cleared_iff)
  obtain rnd g where g: "mwc64 (d_rng d) = (rnd, g)" by fastforce
  have "no_links n m'" using 1 m'(2) by (simp add: tree_inv_def)
  from fold_set_value_links [OF this] show ?case
    using 1 m'(1) by (simp add: tree_round_def g inc_counter_def tree_inv_def Let_def)
qed (simp_all add: tree_inv_def)

interpretation avl_rounds: counted_step "tree_round stress_tree_avl n" tree_inv_any 1 for n
proof (unfold_locales, goal_cases)
  case (1 k d)
  obtain m' where m': "stress_tree_avl n (d_mem d) = Some ([], m')" using avl_method [of n "d_mem d"] by blast
  then show ?case using 1 by (simp add: tree_round_def inc_counter_def tree_inv_any_def Let_def split_def)
qed (simp_all add: tree_inv_any_def)

section \<open>The stressor\<close>

lemma good_tree_rows:
  "good_rows (method_rows [''all'', ''avl'', ''binary'', ''rb'', ''splay''])"
  by (rule good_method_rows) simp

lemma tree_setter_row:
  assumes "settings_rel st as es" "s_heap st a = None" "own_last (oe_proc env) es" "oe_mem env = Some a" "oe_dup env"
    and "(name, row) \<in> {(''avl'', 1 :: nat), (''binary'', 2)}"
  shows "\<exists>st'. stress_set_tree_method env name st = (0, Inr st') \<and> read_ptr (oe_proc env) ''tree-method'' st' 0 = row"
  using set_row_result [OF good_tree_rows assms(1-5), where name = name and setting = "''tree-method''"] assms(6)
  by (auto simp: stress_set_tree_method_def method_rows_def read_ptr_def)

lemma stress_tree_binary_runs:
  assumes "0 < k" "k + 1 < 2 ^ 64" "d_counter d = 0" "d_errs d = []"
  shows "\<exists>d'. stress_loop (\<lambda>t. True) (of_nat k) (tree_round stress_tree_binary n) (fill_values n (d\<lparr>d_mem := zero_nodes\<rparr>)) = Some d' \<and> tree_inv n k d'"
proof -
  have "tree_inv n 0 (fill_values n (d\<lparr>d_mem := zero_nodes\<rparr>))"
    by (rule fill_values_inv) (use assms(3,4) in \<open>simp add: tree_inv_def zero_nodes_def\<close>)
  from binary_rounds.loop_bounded [OF this, of k] assms show ?thesis by auto
qed

lemma stress_tree_avl_runs:
  assumes "0 < k" "k + 1 < 2 ^ 64" "d_counter d = 0" "d_errs d = []"
  shows "\<exists>d'. stress_loop (\<lambda>t. True) (of_nat k) (tree_round stress_tree_avl n) (fill_values n (d\<lparr>d_mem := zero_nodes\<rparr>)) = Some d' \<and> tree_inv_any k d'"
proof -
  have "tree_inv n 0 (fill_values n (d\<lparr>d_mem := zero_nodes\<rparr>))"
    by (rule fill_values_inv) (use assms(3,4) in \<open>simp add: tree_inv_def zero_nodes_def\<close>)
  then have "tree_inv_any 0 (fill_values n (d\<lparr>d_mem := zero_nodes\<rparr>))" by (simp add: tree_inv_def tree_inv_any_def)
  from avl_rounds.loop_bounded [OF this, of k] assms show ?thesis by auto
qed

text \<open>
  C15: with the method avl or binary the tree stressor, from the option for the method to its exit status, builds and searches the trees of any number of nodes, which start
  out cleared, for as many operations as asked for, at least one, reports no node as missing, counts every operation and ends with success.  The flag stays up, and
  the allocation and the handler succeed.
\<close>

theorem tree_stressor_quiet:
  assumes name: "(name, row) \<in> {(''avl'', 1 :: nat), (''binary'', 2)}"
    and st: "settings_rel st as es" "s_heap st a = None" "own_last (oe_proc env) es" "oe_mem env = Some a" "oe_dup env"
    and k: "0 < k" "k + 1 < 2 ^ 64" and d: "d_counter d = 0" "d_errs d = []"
  shows "\<exists>st'. stress_set_tree_method env name st = (0, Inr st') \<and>
    (\<exists>d'. stress_tree (\<lambda>t. True) rb splay True True (oe_proc env) st' flags (of_nat k) d = Some (0, d')
      \<and> d_counter d' = of_nat k \<and> d_errs d' = [])"
proof -
  obtain st' where st': "stress_set_tree_method env name st = (0, Inr st')" "read_ptr (oe_proc env) ''tree-method'' st' 0 = row"
    using tree_setter_row [OF st name] by blast
  have "\<exists>d'. stress_tree (\<lambda>t. True) rb splay True True (oe_proc env) st' flags (of_nat k) d = Some (0, d') \<and> d_counter d' = of_nat k \<and> d_errs d' = []"
    using name stress_tree_binary_runs [OF k d, of "unat (tree_size (oe_proc env) st' flags)"] stress_tree_avl_runs [OF k d, of "unat (tree_size (oe_proc env) st' flags)"]
    by (auto simp: stress_tree_def st'(2) tree_func_def Let_def tree_inv_def tree_inv_any_def)
  with st'(1) show ?thesis by blast
qed

theorem tree_stressor_quiet_witness:
  "\<exists>st'. stress_set_tree_method plain_env ''avl'' settings_init = (0, Inr st') \<and>
    (\<exists>d'. stress_tree (\<lambda>t. True) (\<lambda>n m. None) (\<lambda>n m. None) True True None st' 0 5
        \<lparr>d_counter = 0, d_tick = 0, d_rng = mwc_init, d_mem = zero_nodes, d_errs = []\<rparr> = Some (0, d')
      \<and> d_counter d' = 5 \<and> d_errs d' = [])"
  using tree_stressor_quiet [where name = "''avl''" and row = 1 and k = 5 and d = "\<lparr>d_counter = 0, d_tick = 0, d_rng = mwc_init, d_mem = zero_nodes, d_errs = []\<rparr>"
      and rb = "\<lambda>n m. None" and splay = "\<lambda>n m. None" and flags = 0, OF _ plain_env_store]
  by (simp add: plain_env_def)

end
