(* ===== verification/Dentry.thy ===== *)
theory Dentry
  imports Driver Row_Setters Opt_Flags Cpu_Prime
begin

text \<open>
  The directory entry stressor of stress-dentry.c with the prime search of helper.c: files with Gray code
  numbers as names are created and then removed in a chosen order.
\<close>

section \<open>Primes for striding\<close>

definition stress_is_prime64 :: "u64 \<Rightarrow> bool" where
  "stress_is_prime64 n =
    (if n \<le> 3 then 2 \<le> n
     else if n mod 2 = 0 \<or> n mod 3 = 0 then False
     else trial_loop (unat n) 5 (isqrt (unat n) + 1))"

text \<open>The static variable p is passed in, and is the result.\<close>

partial_function (option) prime_search :: "u64 \<Rightarrow> u32 \<Rightarrow> u32 option" where
  "prime_search n p =
    (let p = p + 2
     in if n mod ucast p \<noteq> 0 \<and> stress_is_prime64 (ucast p) then Some p else prime_search n p)"

definition stress_get_prime64 :: "u64 \<Rightarrow> u32 \<Rightarrow> u32 option" where
  "stress_get_prime64 n p = (if n \<noteq> ucast p then Some p else prime_search n p)"

section \<open>The stressor\<close>

text \<open>The state: the names of the files in the directory, the static prime and the random numbers.\<close>

record dentry_drv = drv +
  d_dir :: "u64 set"
  d_prime :: u32
  d_rand :: mwc_t

definition gray_code :: "u64 \<Rightarrow> u64" where
  "gray_code i = drop_bit 1 i XOR i"

definition unlink_all :: "u64 list \<Rightarrow> dentry_drv \<Rightarrow> dentry_drv" where
  "unlink_all js d = fold (\<lambda>j d. d\<lparr>d_dir := d_dir d - {gray_code j}\<rparr>) js d"

text \<open>In the stride order the variable j starts at the prime and the prime is added in every round.\<close>

definition stress_dentry_unlink :: "u64 \<Rightarrow> u8 \<Rightarrow> dentry_drv \<Rightarrow> dentry_drv option" where
  "stress_dentry_unlink n dentry_order d =
    (let (ord, d) = (if dentry_order = 3 then let (r, g) = mwc32 (d_rand d) in (ucast (r mod 3), d\<lparr>d_rand := g\<rparr>) else (dentry_order, d))
     in if ord = 1 then Some (unlink_all (map (\<lambda>i. (n - 1) - of_nat i) [0..<unat n]) d)
        else if ord = 2 then
          Option.bind (stress_get_prime64 n (d_prime d)) (\<lambda>p.
            Some (unlink_all (map (\<lambda>i. (ucast p + of_nat i * ucast p) mod n) [0..<unat n]) (d\<lparr>d_prime := p\<rparr>)))
        else Some (unlink_all (map of_nat [0..<unat n]) d))"

text \<open>
  Creating the files from number \<open>i\<close> on.  \<open>openable t\<close> tells whether the file opened at tick \<open>t\<close> can be created; the result tells whether
  the stressor is to end, and how many files there are.
\<close>

primrec dentry_fill :: "(nat \<Rightarrow> bool) \<Rightarrow> (nat \<Rightarrow> bool) \<Rightarrow> u64 \<Rightarrow> nat \<Rightarrow> nat \<Rightarrow> dentry_drv \<Rightarrow> bool \<times> nat \<times> dentry_drv" where
  "dentry_fill keep openable max_ops 0 i d = (False, i, d)"
| "dentry_fill keep openable max_ops (Suc j) i d =
    (if \<not> openable (d_tick d) then (False, i, d)
     else let d = d\<lparr>d_dir := insert (gray_code (of_nat i)) (d_dir d)\<rparr>;
              (k, d) = keep_stressing keep max_ops d
          in if \<not> k then (True, i, d) else dentry_fill keep openable max_ops j (Suc i) (inc_counter d))"

partial_function (option) dentry_loop ::
    "(nat \<Rightarrow> bool) \<Rightarrow> (nat \<Rightarrow> bool) \<Rightarrow> u64 \<Rightarrow> u64 \<Rightarrow> u8 \<Rightarrow> dentry_drv \<Rightarrow> dentry_drv option" where
  "dentry_loop keep openable max_ops dentries dentry_order d =
    (let (abort, n, d) = dentry_fill keep openable max_ops (unat dentries) 0 d
     in if abort then Some d
        else Option.bind (stress_dentry_unlink (of_nat n) dentry_order d) (\<lambda>d.
          let (k, d) = keep_flag keep d
          in if \<not> k then Some d
             else let (k, d) = keep_stressing keep max_ops d
                  in if k then dentry_loop keep openable max_ops dentries dentry_order d else Some d))"

definition dentry_count :: "nat option \<Rightarrow> settings \<Rightarrow> u64 \<Rightarrow> u64" where
  "dentry_count proc st flags =
    (case get_setting proc ''dentries'' st of
       Some (True, Some (V_uint64 v)) \<Rightarrow> v
     | _ \<Rightarrow> let n = (2048 :: u64); n = (if flags AND OPT_FLAGS_MAXIMIZE \<noteq> 0 then 1000000 else n)
            in if flags AND OPT_FLAGS_MINIMIZE \<noteq> 0 then 1 else n)"

text \<open>The result of making the directory is an argument; a failure gives the exit status.\<close>

definition stress_dentry ::
    "(nat \<Rightarrow> bool) \<Rightarrow> (nat \<Rightarrow> bool) \<Rightarrow> nat option \<Rightarrow> nat option \<Rightarrow> settings \<Rightarrow> u64 \<Rightarrow> u64 \<Rightarrow> dentry_drv \<Rightarrow> (nat \<times> dentry_drv) option" where
  "stress_dentry keep openable mkdir_fails proc st flags max_ops d =
    (let dentries = dentry_count proc st flags;
         dentry_order = (case get_setting proc ''dentry-order'' st of Some (_, Some (V_uint8 v)) \<Rightarrow> v | _ \<Rightarrow> 3)
     in case mkdir_fails of
          Some status \<Rightarrow> Some (status, d)
        | None \<Rightarrow>
           Option.bind (dentry_loop keep openable max_ops dentries dentry_order d) (\<lambda>d.
             map_option (Pair 0) (stress_dentry_unlink dentries dentry_order d)))"

section \<open>Removing the files\<close>

lemma gray_code_inj: "gray_code a = gray_code b \<longleftrightarrow> a = b"
  using xor_drop_inj [of 1 a b] by (auto simp: gray_code_def xor.commute)

lemma unlink_all_dir: "d_dir (unlink_all js d) = d_dir d - gray_code ` set js"
  by (induction js arbitrary: d) (auto simp: unlink_all_def)

lemma unlink_all_same [simp]:
  "d_prime (unlink_all js d) = d_prime d" "d_tick (unlink_all js d) = d_tick d" "d_counter (unlink_all js d) = d_counter d"
  "d_rand (unlink_all js d) = d_rand d"
  by (induction js arbitrary: d) (simp_all add: unlink_all_def)

text \<open>The numbers below \<open>n\<close>, and the two orders that always go through them.\<close>

abbreviation below :: "u64 \<Rightarrow> u64 set" where
  "below n \<equiv> of_nat ` {..<unat n}"

lemma below_iff: "x \<in> below n \<longleftrightarrow> x < n"
proof
  assume "x \<in> below n"
  then obtain i where i: "i < unat n" "x = of_nat i" by auto
  moreover have "unat n < 2 ^ 64" using unsigned_less [of n, where ?'a = nat] by simp
  ultimately have "unat x = i" by (simp add: unat_of_nat_small)
  then show "x < n" using i(1) by (simp add: word_less_nat_alt)
next
  assume "x < n"
  then have "unat x < unat n" "x = of_nat (unat x)" by (simp_all add: word_less_nat_alt)
  then show "x \<in> below n" by blast
qed

lemma below_eq: "below n = {x. x < n}"
  using below_iff by auto

lemma forward_order: "set (map of_nat [0..<unat n]) = below n"
  by auto

lemma reverse_order: "set (map (\<lambda>i. (n - 1) - of_nat i) [0..<unat n]) = below (n :: u64)"
proof -
  have l: "(n - 1) - x < n" if "x < n" for x using that by uint_arith
  have "y \<in> (\<lambda>x. (n - 1) - x) ` {x. x < n}" if "y < n" for y
    using l [OF that] by (intro image_eqI [of _ _ "(n - 1) - y"]) simp_all
  then have "(\<lambda>x. (n - 1) - x) ` {x. x < n} = {x. x < n}" using l by auto
  then show ?thesis unfolding below_eq [symmetric] by (simp add: image_image atLeast0LessThan)
qed

text \<open>Steps of a number coprime to \<open>n\<close> go through all, as the multiples stay below the bound of the words.\<close>

lemma stride_value:
  fixes p :: u32 and n :: u64
  assumes "0 < n" "i < unat n" "unat n < 2 ^ 32"
  shows "unat ((ucast p + of_nat i * ucast p) mod n :: u64) = (Suc i * unat p) mod unat n"
proof -
  have "unat p < 2 ^ 32" using unsigned_less [of p, where ?'a = nat] by simp
  then have "Suc i * unat p < 2 ^ 32 * 2 ^ 32" using assms by (intro mult_strict_mono) auto
  then have "Suc i * unat p < 2 ^ 64" by simp
  moreover have "ucast p + of_nat i * ucast p = (of_nat (Suc i * unat p) :: u64)"
    by (simp add: algebra_simps)
  ultimately have "unat (ucast p + of_nat i * ucast p :: u64) = Suc i * unat p" by (simp only:) (rule unat_of_nat_small, simp)
  then show ?thesis by (simp add: unat_mod_distrib)
qed

lemma steps_inj:
  assumes "coprime p n" "i \<le> j" "j < n" "Suc i * p mod n = Suc j * p mod (n :: nat)"
  shows "i = j"
proof -
  have "n dvd Suc j * p - Suc i * p" using assms(2,4) by (metis mod_eq_dvd_iff_nat mult_le_mono1 not_less_eq_eq not_less)
  moreover have "Suc j * p - Suc i * p = (j - i) * p" using assms(2) by (simp add: diff_mult_distrib)
  ultimately have "n dvd j - i" using assms(1) by (metis coprime_commute coprime_dvd_mult_left_iff)
  moreover have "j - i < n" using assms(3) by simp
  ultimately have "j - i = 0" by (metis dvd_imp_le gr0I not_less)
  then show ?thesis using assms(2) by simp
qed

lemma coprime_steps:
  assumes "coprime p n"
  shows "(\<lambda>i. Suc i * p mod n) ` {..<n} = {..<n :: nat}"
proof (cases "n = 0")
  case False
  have inj: "inj_on (\<lambda>i. Suc i * p mod n) {..<n}"
  proof (rule inj_onI)
    fix i j assume ij: "i \<in> {..<n}" "j \<in> {..<n}" "Suc i * p mod n = Suc j * p mod n"
    show "i = j"
    proof (cases "i \<le> j")
      case True
      then show ?thesis using steps_inj [OF assms True] ij by simp
    next
      case False
      then show ?thesis using steps_inj [OF assms, of j i] ij by simp
    qed
  qed
  have "(\<lambda>i. Suc i * p mod n) ` {..<n} \<subseteq> {..<n}" using False by auto
  then show ?thesis using card_image [OF inj] by (intro card_subset_eq) simp_all
qed simp

lemma stride_set:
  fixes p :: u32 and n :: u64
  assumes "unat n < 2 ^ 32"
  shows "set (map (\<lambda>i. (ucast p + of_nat i * ucast p) mod n) [0..<unat n]) = of_nat ` (\<lambda>i. Suc i * unat p mod unat n) ` {..<unat n}"
proof -
  have "(ucast p + of_nat i * ucast p) mod n = of_nat (Suc i * unat p mod unat n)" if "i < unat n" for i
  proof -
    have "0 < n" using that by (cases "n = 0") (auto simp: word_gt_0)
    from stride_value [OF this that assms, of p] show ?thesis by (metis of_nat_unat ucast_id)
  qed
  then show ?thesis unfolding set_map set_upt atLeast0LessThan image_image by (intro image_cong) auto
qed

lemma stride_order:
  fixes p :: u32 and n :: u64
  assumes "unat n < 2 ^ 32" "coprime (unat p) (unat n)"
  shows "set (map (\<lambda>i. (ucast p + of_nat i * ucast p) mod n) [0..<unat n]) = below n"
  unfolding stride_set [OF assms(1)] coprime_steps [OF assms(2)] ..

section \<open>The primes that are used\<close>

lemma isqrt_31: "isqrt 1009 = 31" "isqrt 1013 = 31"
  using isqrt_le_iff [of 31 1009] isqrt_le_iff [of 32 1009] isqrt_le_iff [of 31 1013] isqrt_le_iff [of 32 1013] by linarith+

lemma trial_1013: "trial_loop 1013 5 32" "trial_loop 1009 5 32"
  by (simp_all add: trial_loop.simps)

lemma prime_1009: "stress_is_prime64 1013" "\<not> stress_is_prime64 1011" "prim 1009"
  by (simp_all add: stress_is_prime64_def isqrt_31 trial_1013 is_prime_prim [symmetric] is_prime_def)

lemma prim_coprime: "prim p \<Longrightarrow> \<not> p dvd n \<Longrightarrow> coprime p n"
proof (rule coprimeI)
  fix d assume p: "prim p" "\<not> p dvd n" and d: "d dvd p" "d dvd n"
  have "0 < p" using p(1) by (simp add: prim_def)
  then have "d \<le> p" "d \<noteq> 0" using d(1) by (auto intro: dvd_imp_le)
  moreover have "d \<noteq> p" using p(2) d(2) by blast
  ultimately have "d < 2" using p(1) d(1) by (force simp: prim_def)
  with \<open>d \<noteq> 0\<close> show "is_unit d" by simp
qed

lemma get_prime_1009: "stress_get_prime64 n 1009 = Some (if n = 1009 then 1013 else 1009)"
  by (simp add: stress_get_prime64_def prime_search.simps [of _ 1009] prime_search.simps [of _ 1011] prime_1009)

lemma get_prime_1013: "stress_get_prime64 1009 1013 = Some 1013"
  by (simp add: stress_get_prime64_def)

text \<open>A number of files for which the stride order removes all of them, with the primes that occur.\<close>

definition safe_stride :: "u64 \<Rightarrow> u32 \<Rightarrow> bool" where
  "safe_stride n p \<longleftrightarrow> p = 1009 \<and> (n = 1009 \<or> \<not> 1009 dvd unat n) \<or> p = 1013 \<and> n = 1009"

lemma safe_prime:
  assumes "safe_stride n p"
  shows "\<exists>q. stress_get_prime64 n p = Some q \<and> coprime (unat q) (unat n) \<and> safe_stride n q"
proof -
  have c: "coprime (1013 :: nat) 1009" by (simp add: coprime_iff_gcd_eq_1 gcd_non_0_nat)
  show ?thesis using assms unfolding safe_stride_def
    by (elim disjE conjE) (auto simp: get_prime_1009 get_prime_1013 c prim_coprime [OF prime_1009(3)])
qed

lemma unlink_safe:
  assumes "safe_stride n (d_prime d)" "unat n < 2 ^ 32"
  shows "\<exists>d'. stress_dentry_unlink n ord d = Some d' \<and> d_dir d' = d_dir d - gray_code ` below n \<and> safe_stride n (d_prime d') \<and> d_tick d' = d_tick d"
proof -
  obtain q where q: "stress_get_prime64 n (d_prime d) = Some q" "coprime (unat q) (unat n)" "safe_stride n q"
    using safe_prime [OF assms(1)] by blast
  show ?thesis
    using assms(1) q(1,3)
    by (auto simp: stress_dentry_unlink_def unlink_all_dir reverse_order forward_order stride_order [OF assms(2) q(2)]
        Let_def split: prod.split simp del: set_map set_upt)
qed

section \<open>The whole stressor\<close>

lemma fill_effect:
  assumes "dentry_fill keep (\<lambda>t. True) max_ops j i d = (ab, n, d')"
  shows "d_dir d' \<subseteq> d_dir d \<union> gray_code ` of_nat ` {i..<i + j} \<and> d_prime d' = d_prime d \<and> d_tick d \<le> d_tick d' \<and> (\<not> ab \<longrightarrow> n = i + j)"
  using assms
proof (induction j arbitrary: i d)
  case (Suc j)
  let ?d = "d\<lparr>d_dir := insert (gray_code (of_nat i)) (d_dir d), d_tick := d_tick d + 1\<rparr>"
  show ?case
  proof (cases "fst (keep_stressing keep max_ops (d\<lparr>d_dir := insert (gray_code (of_nat i)) (d_dir d)\<rparr>))")
    case True
    then have "dentry_fill keep (\<lambda>t. True) max_ops j (Suc i) (inc_counter ?d) = (ab, n, d')"
      using Suc.prems by (auto simp: keep_stressing_def keep_flag_def Let_def split: if_splits)
    from Suc.IH [OF this] show ?thesis by (fastforce simp: inc_counter_def)
  next
    case False
    then have "ab" "d' = ?d" using Suc.prems by (auto simp: keep_stressing_def keep_flag_def Let_def split: if_splits)
    then show ?thesis by auto
  qed
qed simp

definition dentry_inv :: "u64 \<Rightarrow> dentry_drv \<Rightarrow> bool" where
  "dentry_inv n d \<longleftrightarrow> d_dir d \<subseteq> gray_code ` below n \<and> safe_stride n (d_prime d)"

lemma dentry_inv_tick [simp]: "dentry_inv n (d\<lparr>d_tick := t\<rparr>) = dentry_inv n d"
  by (simp add: dentry_inv_def)

lemma dentry_loop_returns:
  assumes flag: "\<And>t. T \<le> t \<Longrightarrow> \<not> keep t" and n: "unat n < 2 ^ 32"
  shows "dentry_inv n d \<Longrightarrow> \<exists>d'. dentry_loop keep (\<lambda>t. True) max_ops n ord d = Some d' \<and> dentry_inv n d'"
proof (induction "T - d_tick d" arbitrary: d rule: less_induct)
  case less
  obtain ab k d1 where f: "dentry_fill keep (\<lambda>t. True) max_ops (unat n) 0 d = (ab, k, d1)" by (cases "dentry_fill keep (\<lambda>t. True) max_ops (unat n) 0 d")
  have e: "d_dir d1 \<subseteq> d_dir d \<union> gray_code ` below n" "d_prime d1 = d_prime d" "d_tick d \<le> d_tick d1" "\<not> ab \<longrightarrow> k = unat n"
    using fill_effect [OF f] by (simp_all add: atLeast0LessThan)
  then have i1: "dentry_inv n d1" using less.prems by (auto simp: dentry_inv_def)
  obtain d2 where d2: "stress_dentry_unlink n ord d1 = Some d2" "d_dir d2 = d_dir d1 - gray_code ` below n" "safe_stride n (d_prime d2)" "d_tick d2 = d_tick d1"
    using unlink_safe [of n d1 ord] i1 n by (auto simp: dentry_inv_def)
  have i2: "dentry_inv n d2" using d2(2,3) i1 by (auto simp: dentry_inv_def)
  let ?d3 = "d2\<lparr>d_tick := d_tick d2 + 1\<rparr>" and ?d4 = "d2\<lparr>d_tick := d_tick d2 + 2\<rparr>"
  have "\<exists>d'. dentry_loop keep (\<lambda>t. True) max_ops n ord ?d4 = Some d' \<and> dentry_inv n d'" if "keep (d_tick d2)"
  proof (rule less.hyps)
    have "d_tick d2 < T" using flag that not_le by blast
    then show "T - d_tick ?d4 < T - d_tick d" using e(3) d2(4) by simp
  qed (use i2 in simp)
  then show ?case
    using i1 i2 e(4) d2(1)
    by (subst dentry_loop.simps) (auto simp: f keep_flag_def keep_stressing_def)
qed

text \<open>The files of all rounds and those of the last, unfinished one are gone at the end.\<close>

lemma stress_dentry_empties:
  assumes n: "n = dentry_count proc st flags" "unat n < 2 ^ 32" "n = 1009 \<or> \<not> 1009 dvd unat n"
    and flag: "\<forall>t\<ge>T. \<not> keep t" and d: "d_dir d = {}" "d_prime d = 1009"
  shows "\<exists>d'. stress_dentry keep (\<lambda>t. True) None proc st flags max_ops d = Some (0, d') \<and> d_dir d' = {}"
proof -
  define ord where "ord = (case get_setting proc ''dentry-order'' st of Some (_, Some (V_uint8 v)) \<Rightarrow> v | _ \<Rightarrow> (3 :: u8))"
  have i: "dentry_inv n d" using d n(3) by (simp add: dentry_inv_def safe_stride_def)
  obtain d1 where d1: "dentry_loop keep (\<lambda>t. True) max_ops n ord d = Some d1" "dentry_inv n d1"
    using dentry_loop_returns [OF _ n(2) i, of T keep max_ops ord] flag by auto
  obtain d2 where d2: "stress_dentry_unlink n ord d1 = Some d2" "d_dir d2 = d_dir d1 - gray_code ` below n"
    using unlink_safe [of n d1 ord] d1(2) n(2) by (auto simp: dentry_inv_def)
  then have "d_dir d2 = {}" using d1(2) by (auto simp: dentry_inv_def)
  then show ?thesis using d1(1) d2(1) by (simp add: stress_dentry_def n(1) [symmetric] ord_def [symmetric])
qed

text \<open>The multiples of 1009 are those that the steps of 1009 reach.\<close>

lemma steps_1009:
  fixes x n :: u64
  assumes "unat n = 1009 * c" "2 \<le> c" "unat n < 2 ^ 32" "x < n"
  shows "x \<in> of_nat ` (\<lambda>i. Suc i * 1009 mod unat n) ` {..<unat n} \<longleftrightarrow> 1009 dvd unat x" (is "x \<in> ?S \<longleftrightarrow> _")
proof -
  have x_of: "x = of_nat (unat x)" for x :: u64 by simp
  have x: "unat x < unat n" using assms(4) by (simp add: word_less_nat_alt)
  show ?thesis
  proof
    assume "x \<in> ?S"
    then obtain i where i: "i < unat n" "x = of_nat (Suc i * 1009 mod unat n)" by auto
    have "Suc i * 1009 mod unat n < 2 ^ 64" using assms(3) i(1) by (intro less_trans [OF mod_less_divisor]) auto
    then have "unat x = Suc i * 1009 mod unat n" using i(2) by (simp only:) (rule unat_of_nat_small, simp)
    then show "1009 dvd unat x" using assms(1) by (simp add: dvd_mod)
  next
    assume "1009 dvd unat x"
    then obtain m where m: "unat x = 1009 * m" by blast
    have "m < c" using x assms(1) m by simp
    show "x \<in> ?S"
    proof (cases "m = 0")
      case True
      then have "x = of_nat (Suc (c - 1) * 1009 mod unat n)" using m assms(1,2) by (subst x_of) (simp add: mult.commute)
      moreover have "c - 1 < unat n" using assms(1,2) by simp
      ultimately show ?thesis by blast
    next
      case False
      then have "x = of_nat (Suc (m - 1) * 1009 mod unat n)" using m x by (subst x_of) (simp add: mult.commute)
      moreover have "m - 1 < unat n" using \<open>m < c\<close> assms(1) by simp
      ultimately show ?thesis by blast
    qed
  qed
qed

section \<open>Properties\<close>

definition empty_dir :: dentry_drv where
  "empty_dir = \<lparr>d_counter = 0, d_tick = 0, d_dir = {}, d_prime = 1009, d_rand = mwc_init\<rparr>"

text \<open>
  C27: for a proper multiple of 1009 the stride order removes only one file in 1009: the prime is chosen by comparing it with the number of files, and not by
  whether it divides the number.  All files whose number is not a multiple of 1009 stay.
\<close>

theorem stride_leaves_files:
  assumes "unat n = 1009 * c" "2 \<le> c" "unat n < 2 ^ 32" "d_prime d = 1009" "d_dir d = gray_code ` below n"
  shows "\<exists>d'. stress_dentry_unlink n 2 d = Some d' \<and> d_dir d' = gray_code ` {k \<in> below n. \<not> 1009 dvd unat k}"
proof -
  have n: "n \<noteq> 1009" using assms(1,2) by auto
  have p: "unat (1009 :: u32) = 1009" "ucast (1009 :: u32) = (1009 :: u64)" by simp_all
  have inj: "inj gray_code" by (simp add: inj_def gray_code_inj)
  have "below n - of_nat ` (\<lambda>i. Suc i * 1009 mod unat n) ` {..<unat n} = {k \<in> below n. \<not> 1009 dvd unat k}"
    using steps_1009 [OF assms(1-3)] unfolding below_eq by blast
  moreover have "set (map (\<lambda>i. (1009 + of_nat i * 1009) mod n) [0..<unat n]) = of_nat ` (\<lambda>i. Suc i * 1009 mod unat n) ` {..<unat n}"
    using stride_set [OF assms(3), of 1009] by (simp only: p)
  ultimately show ?thesis
    using n assms(4,5) by (simp add: stress_dentry_unlink_def get_prime_1009 unlink_all_dir image_set_diff [OF inj, symmetric] del: set_map)
qed

theorem stride_leaves_files_witness:
  "\<exists>d'. stress_dentry_unlink 2018 2 (empty_dir\<lparr>d_dir := gray_code ` below 2018\<rparr>) = Some d' \<and>
     gray_code 1 \<in> d_dir d'"
proof -
  let ?d = "empty_dir\<lparr>d_dir := gray_code ` below 2018\<rparr>"
  have "1 \<in> {k \<in> below 2018. \<not> 1009 dvd unat k}" using below_iff [of 1 2018] by simp
  then have left: "gray_code 1 \<in> gray_code ` {k \<in> below 2018. \<not> 1009 dvd unat k}" by (rule imageI)
  have "unat (2018 :: u64) = 1009 * 2" "(2 :: nat) \<le> 2" "unat (2018 :: u64) < 2 ^ 32" "d_prime ?d = 1009" "d_dir ?d = gray_code ` below 2018"
    by (simp_all add: empty_dir_def)
  from stride_leaves_files [OF this] obtain d' where
    "stress_dentry_unlink 2018 2 ?d = Some d'" "d_dir d' = gray_code ` {k \<in> below 2018. \<not> 1009 dvd unat k}" by (elim exE conjE)
  with left show ?thesis by (intro exI [of _ d'] conjI) (assumption, simp only:)
qed

end
