(* ===== verification/Spec2Isabelle.thy ===== *)
theory Spec2Isabelle
  imports Mwc Parse_Opts Settings Job Opt_Flags Vm_Props Cpu_Bits Cpu_Hash Cpu_Prime Cpu_Arith Cpu_Queens Proc_Setup Run_Props Setters
    Row_Setters Row_Props Cpu_Driver Vm_Driver Sgx_Cpu Sgx_Vm Tree_Props Dentry
begin

text \<open>
  A verification library for stress-sgx, the stress-ng load generator with SGX enclave stressors.

  \<^bold>\<open>The program.\<close>  The main program in stress-ng.c parses options (parse-opts.c, setting.c) and job files (job.c),
  makes a list of stressors with a number of instances each, forks a process per instance, waits for them and reports.  A
  stressor (stress-*.c) does its work in rounds, counts them in memory that it shares with the main program, and ends when a
  flag is cleared by a signal or when its number of operations is reached.  Random numbers come from mwc.c.

  \<^bold>\<open>Parts and theories.\<close>

  \<^item> \<open>Stress_Prelude\<close>: word types, lemmas on lists and words that the others share.
  \<^item> \<open>Mwc\<close>: the random number generator of mwc.c and of the enclave companion, a record of the two halves and the caches for bytes
    and half-words.  Its locale is the contract of a source of numbers whose values after seeding do not depend on the past.
  \<^item> \<open>C_Lib\<close>, \<open>Parse_Opts\<close>: the C functions for scanning numbers, and parse-opts.c.  Parsers return a sum: a jump or
    an exit on the left, a value on the right.  Percentages in floating point are a parameter.
  \<^item> \<open>Settings\<close>: setting.c as a heap of linked nodes; refines an append-only list of entries.
  \<^item> \<open>Opt_Flags\<close>: the bits of g_opt_flags.  \<open>Job\<close>: job.c, over the lines of a file; the option parser it calls is a parameter.
  \<^item> \<open>Setters\<close>, \<open>Row_Setters\<close>: the functions stress_set_* of the stressors, those that parse a number, in one table with the properties proved for all
    rows at once, and those that choose a row of a table by its name; \<open>Row_Props\<close>: the names that the manual page stress-ng.1 gives them and the functions
    that the stressors then run.
  \<^item> \<open>Stressors\<close>, \<open>Procs\<close>, \<open>Proc_Setup\<close>: the table of stressors and classes, the doubly linked list of stressors to run as a heap of nodes, and
    the set-up of a run in stress-ng.c: selection, exclusion, limits, resources, slots for the results.
  \<^item> \<open>Run\<close>, \<open>Run_Props\<close>: starting, waiting for and killing the processes, signals and their handlers, and the sequence of main.
    Answers of the kernel are a function of the tick at which it is asked; a log of the calls tells which processes were started and which have ended.
  \<^item> \<open>Driver\<close>: the counter, the flag and the loop around a round that the stressors have in common; the locale \<open>counted_step\<close> is the
    contract of a round under which the loop is proved to return.
  \<^item> \<open>Cpu_Base\<close>, \<open>Cpu_Bits\<close>, \<open>Cpu_Hash\<close>, \<open>Cpu_Prime\<close>, \<open>Cpu_Arith\<close>, \<open>Cpu_Queens\<close>: the integer methods of stress-cpu.c, each with the check it makes under the
    verify option; \<open>Cpu_Driver\<close>: the function stress_cpu around them.
  \<^item> \<open>Vm_Mem\<close>, \<open>Vm_Loops\<close>, \<open>Vm_Methods\<close>: the memory under test, the loops over it, and the 25 methods of stress-vm.c; \<open>Vm_Count\<close>, \<open>Vm_Prime\<close>,
    \<open>Vm_Sound\<close>, \<open>Vm_Sound_Bytes\<close>, \<open>Vm_Props\<close>: what they report; \<open>Vm_Driver\<close>: the function stress_vm with its child process.
  \<^item> \<open>Sgx_Cpu\<close>, \<open>Sgx_Vm\<close>: the launch of an enclave (sgx/utils.c), the entry points of the two enclaves (sgx/enclave_cpu, sgx/enclave_vm) and the stressors stress-sgx.c and
    stress-sgx-vm.c.  The memory stressor shares the process around it with \<open>Vm_Driver\<close> through the locale \<open>quiet_process\<close>, the contract of a child, which is
    interpreted for the child of the host and for the child with the enclave.
  \<^item> \<open>Tree_Model\<close>, \<open>Tree_Avl\<close>, \<open>Tree_Methods\<close>, \<open>Tree_Props\<close>: stress-tree.c, an array of nodes linked by index that refines trees.
  \<^item> \<open>Dentry\<close>: stress-dentry.c and the prime search of helper.c; the directory is the set of the numbers in the file names.

  \<^bold>\<open>How code is represented.\<close>  A C structure is a record and a C function a function on it; a pointer to a node is an index or an address in a map; static and
  global variables are fields of the state.  Integers keep their width as words wherever they can wrap.  A loop that may run for ever is a partial function into option, where None is
  that it does not return, or that it has no further course, as after a signal that ends the process or an access through a bad pointer, and a property that it returns says that the value is Some.  There is no fuel but for counters that the code has itself, such as the 100 attempts to map a page.  The flag
  g_keep_stressing_flag can change at any time, so it is a function of the number of times it has been read; that it is cleared at some
  time is a hypothesis of the properties on termination without a limit.

  \<^bold>\<open>What is shown.\<close>  For the memory methods: no false alarm on sound memory, for the driver as well with any number of killed children, the exact count for stuck cells in the zero-one
  and walking methods, and the buffer sizes and limits for which the methods do report on sound memory.  For the tree stressor: the rotations on
  the linked nodes refine insertion into balanced search trees, no value is missed, and links left over from another method make the
  binary method hang.  For the processor methods: the queens, primes, parities, codes and checksums are what they should be, and the driver runs the chosen method once for each
  counted operation.  For the enclaves: a method is run exactly if the enclave knows its name, the memory stressor is as quiet on sound memory as that of the host,
  launch tokens survive from one launch to the next in every case but a short write; and the option to keep the buffer has no effect, and an enclave that cannot be entered counts as success.  For the main program: an undisturbed run, without the options abort and aggressive, starts and reaps every process, each once, and exits with the status that the reaped ones call for, exclusions remove exactly
  what they name, every process has a slot of its own.  For options: the exact set of accepted texts and names, their values, and that the stored value is the one the stressor reads.

  \<^bold>\<open>Not modelled.\<close>  Floating point: the methods of stress-cpu.c whose checks depend on rounding, times and rates in the reports.  Stressors
  that only issue system calls, and the wrappers shim.c, affinity.c, sched.c and others: what they do is defined by the kernel.
  The stubs of the SGX SDK for the calls into and out of an enclave, whose statuses are arguments.  The methods inside the enclaves are copies of the files stress-cpu.c
  and stress-vm.c of the host, up to the omission of two methods and the way the flag is read, and are not modelled twice.  Logging, performance counters and thermal zones.  The red-black and splay trees, which are macros of another library.  The jump out of
  the tree stressor at SIGALRM.
\<close>

section \<open>From the options to the stressor\<close>

text \<open>Two options given one after the other reach the stressor together.\<close>

lemma two_saves:
  assumes "oe_proc e1 = pc" "oe_proc e2 = pc" "oe_dup e1" "oe_dup e2" "oe_mem e1 = Some a" "oe_mem e2 = Some b" "a \<noteq> b"
    and "n1 \<noteq> n2" "v1 \<noteq> V_undefined" "v2 \<noteq> V_undefined"
  shows "\<exists>st1 st2. save e1 n1 v1 settings_init = Inr st1 \<and> save e2 n2 v2 st1 = Inr st2
    \<and> get_setting pc n1 st2 = Some (True, Some v1) \<and> get_setting pc n2 st2 = Some (True, Some v2)"
proof -
  have i: "settings_rel settings_init [] []" "s_heap settings_init a = None" "own_last pc []"
    by (simp_all add: settings_rel_init own_last_def) (simp add: settings_init_def)
  obtain st1 where st1: "save e1 n1 v1 settings_init = Inr st1" "get_setting pc n1 st1 = Some (True, Some v1)"
    using save_store [of settings_init "[]" "[]" a e1 v1 n1] i assms by auto
  have "settings_rel st1 [a] [(pc, n1, v1)]" "s_heap st1 b = None"
    using set_setting_rel [OF i(1,2), of pc n1 v1] st1(1) assms
    by (auto simp: save_def set_setting_def settings_init_def split: sum.splits)
  moreover have "own_last pc [(pc, n1, v1)]" by (simp add: own_last_def)
  ultimately obtain st2 where "save e2 n2 v2 st1 = Inr st2" "get_setting pc n2 st2 = Some (True, Some v2)"
      "get_setting pc n1 st2 = get_setting pc n1 st1"
    using save_store [of st1 "[a]" "[(pc, n1, v1)]" b e2 v2 n2] assms by auto
  with st1 show ?thesis by auto
qed

text \<open>
  C7: the options for the number of files and for the order of their removal are parsed, checked and stored, and reach the directory entry stressor.  When the number is
  within the bounds and not a proper multiple of 1009, and the directory and every file can be created, the stressor ends once the flag is cleared, wherever the flag or the operation
  limit stops it, and leaves no file behind.
\<close>

theorem dentry_options_tidy:
  assumes n: "1 \<le> n" "n \<le> 1000000" "n = 1009 \<or> \<not> 1009 dvd n"
    and order: "order \<in> {''forward'', ''reverse'', ''stride'', ''random''}"
    and env: "oe_proc e1 = pc" "oe_proc e2 = pc" "oe_dup e1" "oe_dup e2" "oe_mem e1 = Some a" "oe_mem e2 = Some b" "a \<noteq> b"
    and flag: "\<forall>t\<ge>T. \<not> keep t" and d: "d_dir d = {}" "d_prime d = 1009"
  shows "\<exists>st1 st2 d'. stress_set_dentries e1 (show_nat n) settings_init = Inr st1
    \<and> stress_set_dentry_order e2 order st1 = (0, Inr st2)
    \<and> stress_dentry keep (\<lambda>t. True) None pc st2 flags limit d = Some (0, d') \<and> d_dir d' = {}"
proof -
  obtain w where w: "stress_set_dentry_order e2 order st = (0, save e2 ''dentry-order'' (V_uint8 w) st)" for st
    using order by (auto simp: stress_set_dentry_order_def set_row_def)
  obtain st1 st2 where st: "save e1 ''dentries'' (V_uint64 (of_nat n)) settings_init = Inr st1"
      "save e2 ''dentry-order'' (V_uint8 w) st1 = Inr st2" "get_setting pc ''dentries'' st2 = Some (True, Some (V_uint64 (of_nat n)))"
    using two_saves [OF env, of "''dentries''" "''dentry-order''" "V_uint64 (of_nat n)" "V_uint8 w"] by auto
  have u: "unat (of_nat n :: u64) = n" using n(2) by (intro unat_of_nat_small) simp
  have s1: "stress_set_dentries e1 (show_nat n) settings_init = Inr st1"
    using get_plain(1) [of n] n u st(1) by (simp add: stress_set_dentries_def bind_p_def check_range_def word_less_nat_alt)
  have "of_nat n = dentry_count pc st2 flags" using st(3) by (simp add: dentry_count_def)
  moreover have "(of_nat n :: u64) = 1009 \<or> \<not> 1009 dvd unat (of_nat n :: u64)" using n(3) unfolding u by auto
  moreover have "unat (of_nat n :: u64) < 2 ^ 32" using n(2) unfolding u by simp
  ultimately obtain d' where "stress_dentry keep (\<lambda>t. True) None pc st2 flags limit d = Some (0, d')" "d_dir d' = {}"
    using stress_dentry_empties [OF _ _ _ flag d] by blast
  with s1 w [of st1] st(2) show ?thesis by auto
qed

theorem dentry_options_tidy_witness:
  "\<exists>st1 st2 d'. stress_set_dentries plain_env ''2048'' settings_init = Inr st1
    \<and> stress_set_dentry_order (plain_env\<lparr>oe_mem := Some 4\<rparr>) ''stride'' st1 = (0, Inr st2)
    \<and> stress_dentry (\<lambda>t. t < 5000) (\<lambda>t. True) None None st2 0 0 empty_dir = Some (0, d') \<and> d_dir d' = {}"
proof -
  have "show_nat 2048 = ''2048''" by (simp add: scan_eval)
  then show ?thesis
    using dentry_options_tidy [of 2048 "''stride''" plain_env None "plain_env\<lparr>oe_mem := Some 4\<rparr>" 3 4 5000 "\<lambda>t. t < 5000" empty_dir 0 0]
    by (simp add: plain_env_def empty_dir_def)
qed

end
